(* ===== verification/Rust_Prelude.thy ===== *)
theory Rust_Prelude
  imports Main "HOL-Library.Word"
begin

text \<open>
  The vocabulary every component theory shares: Rust's machine integers, the outcome of a Rust
  call (a value, an error value, or a panic), indexing and slicing of byte slices with the panic
  of the language written out, and big-endian conversion of byte arrays. The lemma collection
  \<open>res_simps\<close> turns a statement about a sequence of fallible steps into one about each step.
\<close>

unbundle bit_operations_syntax

named_theorems ensures_rules \<open>total correctness rules of the component operations\<close>
named_theorems res_simps \<open>characterisations of outcomes of sequenced Rust calls\<close>

section \<open>Types\<close>

type_synonym u8 = "8 word"
type_synonym u16 = "16 word"
type_synonym u32 = "32 word"
type_synonym u64 = "64 word"
type_synonym bytes = "8 word list"

text \<open>A byte string literal \<open>b"..."\<close>.\<close>

definition ascii :: "string \<Rightarrow> bytes" where
  "ascii s = map of_char s"

lemma length_ascii [simp]: "length (ascii s) = length s"
  by (simp add: ascii_def)

text \<open>
  The outcome of a Rust function of type \<open>Result<T, E>\<close>. \<open>Panic\<close> stands for an index out of
  bounds, a failed \<open>unwrap\<close> and, where the code relies on it, an arithmetic overflow.
\<close>

datatype ('a, 'e) res = Ok 'a | Err 'e | Panic

primrec res_bind :: "('a, 'e) res \<Rightarrow> ('a \<Rightarrow> ('b, 'e) res) \<Rightarrow> ('b, 'e) res" where
  "res_bind (Ok a) f = f a"
| "res_bind (Err e) f = Err e"
| "res_bind Panic f = Panic"

primrec map_err :: "('e \<Rightarrow> 'f) \<Rightarrow> ('a, 'e) res \<Rightarrow> ('a, 'f) res" where
  "map_err g (Ok a) = Ok a"
| "map_err g (Err e) = Err (g e)"
| "map_err g Panic = Panic"

definition ok_or :: "'e \<Rightarrow> 'a option \<Rightarrow> ('a, 'e) res" where
  "ok_or e m = (case m of Some a \<Rightarrow> Ok a | None \<Rightarrow> Err e)"

definition no_panic :: "('a, 'e) res \<Rightarrow> bool" where
  "no_panic r = (r \<noteq> Panic)"

text \<open>
  \<open>ensures m Q\<close> is the total correctness triple of a Rust call: it does not panic, and if it
  returns \<open>Ok a\<close> then \<open>Q a\<close>. The simplification rules compute it
  over the structure of a body; a component adds a rule for each of its calls to \<open>ensures_rules\<close>.
\<close>

definition ensures :: "('a, 'e) res \<Rightarrow> ('a \<Rightarrow> bool) \<Rightarrow> bool" where
  "ensures m Q = (case m of Ok a \<Rightarrow> Q a | Err _ \<Rightarrow> True | Panic \<Rightarrow> False)"

lemma res_bind_cong [fundef_cong]:
  assumes "m = m'" and "\<And>a. m' = Ok a \<Longrightarrow> f a = f' a"
  shows "res_bind m f = res_bind m' f'"
  using assms by (cases m') auto

lemma res_bind_eq_Ok [res_simps]: "res_bind m f = Ok b \<longleftrightarrow> (\<exists>a. m = Ok a \<and> f a = Ok b)"
  by (cases m) auto

lemma res_bind_eq_Err [res_simps]:
  "res_bind m f = Err e \<longleftrightarrow> m = Err e \<or> (\<exists>a. m = Ok a \<and> f a = Err e)"
  by (cases m) auto

lemma res_bind_eq_Panic [res_simps]:
  "res_bind m f = Panic \<longleftrightarrow> m = Panic \<or> (\<exists>a. m = Ok a \<and> f a = Panic)"
  by (cases m) auto

lemma map_err_eq_Ok [res_simps]: "map_err g m = Ok a \<longleftrightarrow> m = Ok a"
  by (cases m) auto

lemma map_err_eq_Err [res_simps]: "map_err g m = Err f \<longleftrightarrow> (\<exists>e. m = Err e \<and> f = g e)"
  by (cases m) auto

lemma map_err_eq_Panic [res_simps]: "map_err g m = Panic \<longleftrightarrow> m = Panic"
  by (cases m) auto

lemma ok_or_eq_Ok [res_simps]: "ok_or e m = Ok a \<longleftrightarrow> m = Some a"
  by (auto simp: ok_or_def split: option.splits)

lemma ok_or_eq_Err [res_simps]: "ok_or e m = Err e' \<longleftrightarrow> m = None \<and> e' = e"
  by (auto simp: ok_or_def split: option.splits)

lemma ok_or_neq_Panic [res_simps, simp]: "ok_or e m \<noteq> Panic"
  by (simp add: ok_or_def split: option.splits)

lemma no_panic_simps [simp]:
  "no_panic (Ok a)" "no_panic (Err e)" "\<not> no_panic Panic"
  by (simp_all add: no_panic_def)

lemma no_panic_map_err [simp]: "no_panic (map_err g m) = no_panic m"
  by (simp add: no_panic_def map_err_eq_Panic)

lemma no_panic_ok_or [simp]: "no_panic (ok_or e m)"
  by (simp add: no_panic_def)

lemma no_panic_bindI [intro]:
  "no_panic m \<Longrightarrow> (\<And>a. m = Ok a \<Longrightarrow> no_panic (f a)) \<Longrightarrow> no_panic (res_bind m f)"
  by (cases m) auto

lemma ensures_simps [simp]:
  "ensures (Ok a) Q = Q a" "ensures (Err e) Q" "\<not> ensures Panic Q"
  by (simp_all add: ensures_def)

lemma ensures_bind [simp]: "ensures (res_bind m f) Q = ensures m (\<lambda>a. ensures (f a) Q)"
  by (cases m) simp_all

lemma ensures_map_err [simp]: "ensures (map_err g m) Q = ensures m Q"
  by (cases m) simp_all

lemma ensures_if [simp]: "ensures (if b then m else m') Q = (if b then ensures m Q else ensures m' Q)"
  by simp

lemma ensures_ok_or [simp]: "ensures (ok_or e m) Q = (\<forall>a. m = Some a \<longrightarrow> Q a)"
  by (cases m) (simp_all add: ok_or_def)

lemma ensures_mono: "ensures m P \<Longrightarrow> (\<And>a. P a \<Longrightarrow> Q a) \<Longrightarrow> ensures m Q"
  by (cases m) auto

lemma ensures_OkD: "ensures m Q \<Longrightarrow> m = Ok a \<Longrightarrow> Q a"
  by simp

lemma ensures_no_panic: "ensures m Q \<Longrightarrow> no_panic m"
  by (cases m) auto

lemma no_panic_ensures: "no_panic m = ensures m (\<lambda>_. True)"
  by (cases m) auto

lemma ensuresI: "no_panic m \<Longrightarrow> (\<And>a. m = Ok a \<Longrightarrow> Q a) \<Longrightarrow> ensures m Q"
  by (cases m) auto

section \<open>Slices\<close>

text \<open>\<open>xs[i]\<close>, \<open>&xs[i..]\<close>, \<open>&xs[i..j]\<close> and \<open>&xs[..j]\<close>, with Rust's bounds checks.\<close>

definition index :: "'a list \<Rightarrow> nat \<Rightarrow> ('a, 'e) res" where
  "index xs i = (if i < length xs then Ok (xs ! i) else Panic)"

definition slice_from :: "'a list \<Rightarrow> nat \<Rightarrow> ('a list, 'e) res" where
  "slice_from xs i = (if i \<le> length xs then Ok (drop i xs) else Panic)"

definition slice :: "'a list \<Rightarrow> nat \<Rightarrow> nat \<Rightarrow> ('a list, 'e) res" where
  "slice xs i j = (if i \<le> j \<and> j \<le> length xs then Ok (take (j - i) (drop i xs)) else Panic)"

definition slice_to :: "'a list \<Rightarrow> nat \<Rightarrow> ('a list, 'e) res" where
  "slice_to xs j = (if j \<le> length xs then Ok (take j xs) else Panic)"

lemma index_simps [simp]:
  "i < length xs \<Longrightarrow> index xs i = Ok (xs ! i)"
  "\<not> i < length xs \<Longrightarrow> index xs i = Panic"
  by (simp_all add: index_def)

lemma index_Cons_0 [simp]: "index (x # xs) 0 = Ok x"
  by (simp add: index_def)

lemma slice_from_ok [simp]: "i \<le> length xs \<Longrightarrow> slice_from xs i = Ok (drop i xs)"
  by (simp add: slice_from_def)

lemma slice_ok [simp]:
  "i \<le> j \<Longrightarrow> j \<le> length xs \<Longrightarrow> slice xs i j = Ok (take (j - i) (drop i xs))"
  by (simp add: slice_def)

lemma slice_to_ok [simp]: "j \<le> length xs \<Longrightarrow> slice_to xs j = Ok (take j xs)"
  by (simp add: slice_to_def)

lemma index_eq_Ok [res_simps]: "index xs i = Ok b \<longleftrightarrow> i < length xs \<and> b = xs ! i"
  by (auto simp: index_def)

lemma index_neq_Err [res_simps, simp]: "index xs i \<noteq> Err e"
  by (simp add: index_def)

lemma index_eq_Panic [res_simps]: "index xs i = Panic \<longleftrightarrow> length xs \<le> i"
  by (auto simp: index_def)

lemma slice_from_eq_Ok [res_simps]:
  "slice_from xs i = Ok ys \<longleftrightarrow> i \<le> length xs \<and> ys = drop i xs"
  by (auto simp: slice_from_def)

lemma slice_from_neq_Err [res_simps, simp]: "slice_from xs i \<noteq> Err e"
  by (simp add: slice_from_def)

lemma slice_from_eq_Panic [res_simps]: "slice_from xs i = Panic \<longleftrightarrow> length xs < i"
  by (auto simp: slice_from_def)

lemma slice_eq_Ok [res_simps]:
  "slice xs i j = Ok ys \<longleftrightarrow> i \<le> j \<and> j \<le> length xs \<and> ys = take (j - i) (drop i xs)"
  by (auto simp: slice_def)

lemma slice_neq_Err [res_simps, simp]: "slice xs i j \<noteq> Err e"
  by (simp add: slice_def)

lemma slice_eq_Panic [res_simps]: "slice xs i j = Panic \<longleftrightarrow> j < i \<or> length xs < j"
  by (auto simp: slice_def)

lemma slice_to_eq_Ok [res_simps]: "slice_to xs j = Ok ys \<longleftrightarrow> j \<le> length xs \<and> ys = take j xs"
  by (auto simp: slice_to_def)

lemma slice_to_neq_Err [res_simps, simp]: "slice_to xs j \<noteq> Err e"
  by (simp add: slice_to_def)

lemma slice_to_eq_Panic [res_simps]: "slice_to xs j = Panic \<longleftrightarrow> length xs < j"
  by (auto simp: slice_to_def)

lemma ensures_slices [simp]:
  "ensures (index xs i) P' \<longleftrightarrow> i < length xs \<and> P' (xs ! i)"
  "ensures (slice_from xs i) P \<longleftrightarrow> i \<le> length xs \<and> P (drop i xs)"
  "ensures (slice xs i j) P \<longleftrightarrow> i \<le> j \<and> j \<le> length xs \<and> P (take (j - i) (drop i xs))"
  "ensures (slice_to xs j) P \<longleftrightarrow> j \<le> length xs \<and> P (take j xs)"
  by (auto simp: index_def slice_from_def slice_def slice_to_def)

declare upt_rec_numeral [simp del]

text \<open>Several bytes read one by one, as in \<open>[data[1], data[2], data[3]]\<close>.\<close>

primrec indices :: "'a list \<Rightarrow> nat list \<Rightarrow> ('a list, 'e) res" where
  "indices xs [] = Ok []"
| "indices xs (i # is) =
     res_bind (index xs i) (\<lambda>x. res_bind (indices xs is) (\<lambda>ys. Ok (x # ys)))"

lemma indices_ok: "(\<And>i. i \<in> set is \<Longrightarrow> i < length xs) \<Longrightarrow> indices xs is = Ok (map ((!) xs) is)"
  by (induction "is") auto

lemma indices_upt [simp]:
  assumes "j \<le> length xs"
  shows "indices xs [i..<j] = Ok (take (j - i) (drop i xs))"
proof -
  have "map ((!) xs) [i..<j] = take (j - i) (drop i xs)"
    using assms by (intro nth_equalityI) auto
  then show ?thesis
    using assms indices_ok [of "[i..<j]" xs] by simp
qed

lemma indices_short: "i \<in> set is \<Longrightarrow> length xs \<le> i \<Longrightarrow> indices xs is = Panic"
proof (induction "is")
  case Nil
  then show ?case by simp
next
  case (Cons k ks)
  then show ?case by (cases "k < length xs") auto
qed

lemma ensures_indices_upt [simp]:
  "i < j \<Longrightarrow>
    ensures (indices xs [i..<j] :: ('a list, 'e) res) P \<longleftrightarrow> j \<le> length xs \<and> P (take (j - i) (drop i xs))"
proof (cases "j \<le> length xs")
  case True
  then show ?thesis by simp
next
  case False
  moreover assume "i < j"
  ultimately have "indices xs [i..<j] = (Panic :: ('a list, 'e) res)"
    by (intro indices_short [of "j - 1"]) auto
  with False show ?thesis by simp
qed

lemma indices_neq_Err [res_simps, simp]: "indices xs is \<noteq> Err e"
  by (induction "is") (auto simp: res_bind_eq_Err)

section \<open>Big-endian byte arrays\<close>

text \<open>\<open>be_nat\<close> is the number a big-endian byte array denotes, \<open>from_be\<close> is \<open>from_be_bytes\<close>.\<close>

primrec be_nat :: "bytes \<Rightarrow> nat" where
  "be_nat [] = 0"
| "be_nat (b # bs) = unat b * 256 ^ length bs + be_nat bs"

definition from_be :: "bytes \<Rightarrow> 'w::len word" where
  "from_be bs = of_nat (be_nat bs)"

fun to_be :: "nat \<Rightarrow> nat \<Rightarrow> bytes" where
  "to_be 0 v = []"
| "to_be (Suc n) v = of_nat (v div 256 ^ n) # to_be n v"

lemma unat_u8_less [simp]: "unat (b :: u8) < 256"
  using unsigned_less [of b] by simp

lemma be_nat_less: "be_nat bs < 256 ^ length bs"
proof (induction bs)
  case Nil
  show ?case by simp
next
  case (Cons b bs)
  have "unat b * 256 ^ length bs + be_nat bs < unat b * 256 ^ length bs + 256 ^ length bs"
    using Cons.IH by simp
  also have "\<dots> = (unat b + 1) * 256 ^ length bs"
    by simp
  also have "\<dots> \<le> 256 * 256 ^ length bs"
    using unat_u8_less [of b] by (intro mult_right_mono) (simp_all del: unat_u8_less)
  finally show ?case by simp
qed

lemma be_nat_append: "be_nat (xs @ ys) = be_nat xs * 256 ^ length ys + be_nat ys"
  by (induction xs) (simp_all add: power_add algebra_simps)

lemma be_nat_zeros [simp]: "be_nat (replicate n 0 @ bs) = be_nat bs"
  by (induction n) simp_all

lemma unat_from_be:
  assumes "8 * length bs \<le> LENGTH('w::len)"
  shows "unat (from_be bs :: 'w word) = be_nat bs"
proof -
  have "(256::nat) ^ length bs = 2 ^ (8 * length bs)"
    by (simp add: power_mult)
  also have "\<dots> \<le> 2 ^ LENGTH('w)"
    using assms by (intro power_increasing) auto
  finally have "be_nat bs < 2 ^ LENGTH('w)"
    using be_nat_less [of bs] by simp
  then show ?thesis
    by (simp add: from_be_def unat_of_nat)
qed

lemma unat_ucast_up:
  assumes "LENGTH('v::len) \<le> LENGTH('w::len)"
  shows "unat (ucast (x :: 'v word) :: 'w word) = unat x"
proof -
  have "unat x < 2 ^ LENGTH('v)"
    by (rule unsigned_less)
  also have "\<dots> \<le> 2 ^ LENGTH('w)"
    using assms by (intro power_increasing) auto
  finally show ?thesis
    by (simp add: unsigned_ucast_eq take_bit_nat_eq_self_iff)
qed

lemma ucast_from_be:
  assumes "8 * length bs \<le> LENGTH('v::len)" and "LENGTH('v) \<le> LENGTH('w::len)"
  shows "ucast (from_be bs :: 'v word) = (from_be bs :: 'w word)"
  using assms by (simp add: word_unat_eq_iff unat_from_be unat_ucast_up)

lemma length_to_be [simp]: "length (to_be n v) = n"
  by (induction n v rule: to_be.induct) auto

lemma to_be_numeral:
  "to_be 2 v = [of_nat (v div 256), of_nat v]"
  "to_be 3 v = [of_nat (v div 65536), of_nat (v div 256), of_nat v]"
  by (simp_all add: numeral_2_eq_2 numeral_3_eq_3)

lemma be_nat_to_be: "be_nat (to_be n v) = v mod 256 ^ n"
proof (induction n v rule: to_be.induct)
  case (1 v)
  show ?case by simp
next
  case (2 n v)
  have "unat (of_nat (v div 256 ^ n) :: u8) = (v div 256 ^ n) mod 256"
    by (simp add: unat_of_nat)
  with 2 have "be_nat (to_be (Suc n) v) = (v div 256 ^ n mod 256) * 256 ^ n + v mod 256 ^ n"
    by simp
  also have "\<dots> = v mod (256 ^ n * 256)"
    unfolding mod_mult2_eq by (simp only: mult.commute)
  finally show ?case by (simp only: power_Suc mult.commute)
qed

lemma be_nat_to_be_id: "v < 256 ^ n \<Longrightarrow> be_nat (to_be n v) = v"
  by (simp add: be_nat_to_be)

lemma be_nat_inj: "length xs = length ys \<Longrightarrow> be_nat xs = be_nat ys \<Longrightarrow> xs = ys"
proof (induction xs ys rule: list_induct2)
  case Nil
  show ?case by simp
next
  case (Cons x xs y ys)
  let ?m = "256 ^ length ys :: nat"
  have b: "be_nat xs < ?m" "be_nat ys < ?m"
    using be_nat_less [of xs] be_nat_less [of ys] Cons.hyps by auto
  have "(unat x * ?m + be_nat xs) div ?m = (unat y * ?m + be_nat ys) div ?m"
    using Cons.prems Cons.hyps by simp
  with b have xy: "unat x = unat y"
    by simp
  with Cons.prems Cons.hyps have "be_nat xs = be_nat ys"
    by simp
  with Cons.IH xy show ?case
    by (simp add: word_unat_eq_iff)
qed

lemma to_be_be_nat: "to_be (length bs) (be_nat bs) = bs"
  by (rule be_nat_inj) (simp_all add: be_nat_to_be be_nat_less)

lemma from_be_to_be:
  "8 * n \<le> LENGTH('w::len) \<Longrightarrow> v < 256 ^ n \<Longrightarrow> (from_be (to_be n v) :: 'w word) = of_nat v"
  by (simp add: from_be_def be_nat_to_be)

section \<open>Arithmetic of \<open>usize\<close> and \<open>u64\<close>\<close>

text \<open>
  A \<open>usize\<close> that only counts bytes held in memory is a \<open>nat\<close>. Where a value read from the
  network enters the arithmetic, the width is written out: \<open>u64_max\<close> and the wrapping sum.
\<close>

definition u64_max :: nat where
  "u64_max = 2 ^ 64 - 1"

definition wrapping_add :: "nat \<Rightarrow> nat \<Rightarrow> nat" where
  "wrapping_add a b = (a + b) mod 2 ^ 64"

definition checked_add :: "nat \<Rightarrow> nat \<Rightarrow> nat option" where
  "checked_add a b = (if a + b \<le> u64_max then Some (a + b) else None)"

lemma wrapping_add_small: "a + b \<le> u64_max \<Longrightarrow> wrapping_add a b = a + b"
  by (simp add: wrapping_add_def u64_max_def)

lemma checked_add_eq_Some: "checked_add a b = Some c \<longleftrightarrow> c = a + b \<and> a + b \<le> u64_max"
  by (auto simp: checked_add_def)

text \<open>\<open>Vec::resize(n, 0)\<close>.\<close>

definition vec_resize :: "bytes \<Rightarrow> nat \<Rightarrow> bytes" where
  "vec_resize buf n = take n buf @ replicate (n - length buf) 0"

text \<open>A \<open>usize\<close> subtraction that underflows panics, as in a build with overflow checks.\<close>

definition usize_sub :: "nat \<Rightarrow> nat \<Rightarrow> (nat, 'e) res" where
  "usize_sub a b = (if b \<le> a then Ok (a - b) else Panic)"

lemma length_vec_resize [simp]: "length (vec_resize buf n) = n"
  by (auto simp: vec_resize_def min_def)

end
