(* ===== verification/Leb128.thy ===== *)
theory Leb128
  imports Rust_Prelude
begin

text \<open>
  Variable-length integers of \<open>src/lib/g3-codec/src/leb128.rs\<close>, the zigzag mapping of
  \<open>src/lib/g3-std-ext/src/core/zig_zag.rs\<close> and their combination in
  \<open>src/lib/g3-codec/src/thrift/var_int.rs\<close>. The encoder works on the ten byte buffer of
  \<open>Leb128Encoder\<close>; the lemmas relate it to the pure recursion \<open>leb128_bytes\<close> and to the decoder.
\<close>

section \<open>The interface of an encoder and its decoder\<close>

text \<open>
  What a stream client needs of a pair of an encoder and a decoder that reports how many bytes it
  used: decoding what was encoded, with anything behind it, returns the value and its length.
\<close>

locale wire_codec =
  fixes enc :: "'a \<Rightarrow> bytes"
    and dec :: "bytes \<Rightarrow> ('a \<times> nat) option"
  assumes dec_enc: "dec (enc v @ rest) = Some (v, length (enc v))"
begin

lemma enc_prefix_free:
  assumes "enc v @ xs = enc w @ ys"
  shows "v = w \<and> xs = ys"
proof -
  have "Some (v, length (enc v)) = Some (w, length (enc w))"
    using dec_enc [of v xs] dec_enc [of w ys] assms by simp
  with assms show ?thesis by simp
qed

lemma enc_inject: "enc v = enc w \<longleftrightarrow> v = w"
  using enc_prefix_free [of v "[]" w "[]"] by auto

lemma concat_enc_prefix_free:
  "length vs = length ws \<Longrightarrow> concat (map enc vs) @ xs = concat (map enc ws) @ ys \<Longrightarrow> vs = ws"
proof (induction vs ws rule: list_induct2)
  case Nil
  show ?case by simp
next
  case (Cons v vs w ws)
  have "enc v @ (concat (map enc vs) @ xs) = enc w @ (concat (map enc ws) @ ys)"
    using Cons.prems by simp
  then have "v = w \<and> concat (map enc vs) @ xs = concat (map enc ws) @ ys"
    by (rule enc_prefix_free)
  with Cons.IH show ?case by simp
qed

end

section \<open>Decoding (\<open>Leb128::<u32>::decode\<close>)\<close>

datatype Leb128DecodeError = Leb128_NeedMoreData | Leb128_NoEndFound

record Leb128 =
  Leb128_value :: u32
  Leb128_encoded_len :: nat

text \<open>
  The loop over the bytes after the first one. A left shift by 32 or more bits is an overflow in
  Rust, so it is a panic here.
\<close>

fun Leb128_decode_loop :: "bytes \<Rightarrow> u32 \<Rightarrow> nat \<Rightarrow> nat \<Rightarrow> (Leb128, Leb128DecodeError) res" where
  "Leb128_decode_loop [] val total_bits len = Err Leb128_NeedMoreData"
| "Leb128_decode_loop (b # bs) val total_bits len =
     (if 32 \<le> total_bits then Panic
      else let bv = b AND 0x7F;
               val' = val OR push_bit total_bits (ucast bv)
           in if b AND 0x80 = 0
              then Ok \<lparr>Leb128_value = val', Leb128_encoded_len = len\<rparr>
              else if 32 < total_bits + 7 then Err Leb128_NoEndFound
              else Leb128_decode_loop bs val' (total_bits + 7) (Suc len))"

definition Leb128_decode :: "bytes \<Rightarrow> (Leb128, Leb128DecodeError) res" where
  "Leb128_decode data =
     (if data = [] then Err Leb128_NeedMoreData
      else res_bind (index data 0) (\<lambda>b0.
        let bv = b0 AND 0x7F in
        if b0 AND 0x80 = 0 then Ok \<lparr>Leb128_value = ucast bv, Leb128_encoded_len = 1\<rparr>
        else res_bind (slice_from data 1) (\<lambda>left. Leb128_decode_loop left (ucast bv) 7 2)))"

section \<open>Encoding (\<open>Leb128Encoder::encode_u32\<close>)\<close>

record Leb128Encoder =
  Leb128Encoder_data :: bytes

definition Leb128Encoder_default :: Leb128Encoder where
  "Leb128Encoder_default = \<lparr>Leb128Encoder_data = replicate 10 0\<rparr>"

text \<open>Termination of the \<open>loop\<close>: shifting right by seven bits shrinks every nonzero value.\<close>

lemma drop_bit_7_less: "drop_bit 7 (w :: u32) \<noteq> 0 \<Longrightarrow> unat (drop_bit 7 w) < unat w"
  by (cases "w = 0") (auto simp: drop_bit_eq_div unat_div unat_gt_0)

function encode_u32_loop ::
  "bytes \<Rightarrow> u32 \<Rightarrow> nat \<Rightarrow> (bytes \<times> bytes, unit) res" where
  "encode_u32_loop buf val offset =
     (let bv = ucast (val AND 0x7F) :: u8; val' = drop_bit 7 val in
      if val' = 0 then
        (if offset < length buf then
           (let buf' = buf[offset := bv] in
            res_bind (slice_to buf' (Suc offset)) (\<lambda>out. Ok (buf', out)))
         else Panic)
      else
        (if offset < length buf then
           encode_u32_loop (buf[offset := bv OR 0x80]) val' (Suc offset)
         else Panic))"
  by pat_completeness auto
termination
  by (relation "measure (\<lambda>(buf, val, offset). unat val)") (auto simp: drop_bit_7_less)

declare encode_u32_loop.simps [simp del]

definition Leb128Encoder_encode_u32 ::
  "Leb128Encoder \<Rightarrow> u32 \<Rightarrow> (Leb128Encoder \<times> bytes, unit) res" where
  "Leb128Encoder_encode_u32 self val =
     res_bind (encode_u32_loop (Leb128Encoder_data self) val 0)
       (\<lambda>(buf, out). Ok (self\<lparr>Leb128Encoder_data := buf\<rparr>, out))"

text \<open>The reference: the bytes of a value without the buffer.\<close>

function leb128_bytes :: "u32 \<Rightarrow> bytes" where
  "leb128_bytes val =
     (let bv = ucast (val AND 0x7F) :: u8; val' = drop_bit 7 val in
      if val' = 0 then [bv] else (bv OR 0x80) # leb128_bytes val')"
  by pat_completeness auto
termination
  by (relation "measure unat") (auto simp: drop_bit_7_less)

declare leb128_bytes.simps [simp del]

section \<open>The encoder and the decoder agree\<close>

lemma and_0x7F: "w AND 0x7F = take_bit 7 (w :: 'a::len word)"
  by (simp add: take_bit_eq_mask mask_eq_exp_minus_1)

lemma and_0x80_eq_0: "w AND 0x80 = 0 \<longleftrightarrow> \<not> bit (w :: u8) 7"
proof -
  have "(0x80 :: u8) = push_bit 7 1" by simp
  then show ?thesis
    by (metis and_exp_eq_0_iff_not_bit push_bit_of_1)
qed

lemma bit_or_0x80: "bit (w OR 0x80 :: u8) 7"
proof -
  have "(0x80 :: u8) = push_bit 7 1" by simp
  then show ?thesis by (simp only: bit_simps) simp
qed

lemma take_bit_or_0x80: "take_bit 7 (w OR 0x80 :: u8) = take_bit 7 w"
proof -
  have "(0x80 :: u8) = push_bit 7 1" by simp
  then show ?thesis
    by (metis (no_types, opaque_lifting) take_bit_or take_bit_push_bit diff_self_eq_0 take_bit_0 push_bit_of_0 or.right_neutral)
qed

lemma leb_chunk_bits:
  "take_bit t (v::u32) OR push_bit t (ucast (take_bit 7 (ucast (take_bit 7 (drop_bit t v)) :: u8)))
   = take_bit (t + 7) v"
  by (rule bit_word_eqI) (auto simp: bit_simps)

lemma not_bit_chunk: "\<not> bit (ucast (take_bit 7 (w::u32)) :: u8) 7"
  by (simp add: bit_simps)

lemma drop_bit_u32_neq_0: "drop_bit t (v::u32) \<noteq> 0 \<Longrightarrow> t < 32"
  by (rule ccontr) (auto simp: bit_eq_iff bit_drop_bit_eq dest: bit_imp_le_length)

lemmas leb_bits = and_0x7F and_0x80_eq_0 bit_or_0x80 take_bit_or_0x80 not_bit_chunk

lemma take_bit_u32_self: "drop_bit t (v::u32) = 0 \<Longrightarrow> take_bit t v = v"
  by (metis bits_ident or.left_neutral add.left_neutral push_bit_of_0)

lemma decode_loop_bytes:
  "t < 32 \<Longrightarrow> x = drop_bit t v \<Longrightarrow>
   Leb128_decode_loop (leb128_bytes x @ rest) (take_bit t v) t len
     = Ok \<lparr>Leb128_value = v, Leb128_encoded_len = len + length (leb128_bytes x) - 1\<rparr>"
proof (induction x arbitrary: t len rule: leb128_bytes.induct)
  case (1 x)
  have dd: "drop_bit 7 x = drop_bit (t + 7) v"
    using 1 by (simp add: add.commute)
  show ?case
  proof (cases "drop_bit 7 x = 0")
    case True
    with dd have "take_bit (t + 7) v = v"
      by (simp add: take_bit_u32_self)
    with True 1 show ?thesis
      by (simp add: leb128_bytes.simps [of "drop_bit t v"] Let_def leb_bits leb_chunk_bits)
  next
    case False
    with dd have "t + 7 < 32"
      using drop_bit_u32_neq_0 by metis
    with 1 False dd show ?thesis
      by (simp add: leb128_bytes.simps [of "drop_bit t v"] Let_def leb_bits leb_chunk_bits)
  qed
qed

lemma decode_as_loop: "Leb128_decode data = Leb128_decode_loop data 0 0 1"
  by (cases data) (simp_all add: Leb128_decode_def Let_def eval_nat_numeral)

lemma decode_bytes:
  "Leb128_decode (leb128_bytes v @ rest)
     = Ok \<lparr>Leb128_value = v, Leb128_encoded_len = length (leb128_bytes v)\<rparr>"
  using decode_loop_bytes [of 0 v v rest 1] by (simp add: decode_as_loop)

lemma length_leb128_bytes: "unat v < 2 ^ (7 * Suc n) \<Longrightarrow> length (leb128_bytes v) \<le> Suc n"
proof (induction n arbitrary: v)
  case 0
  then have "unat (drop_bit 7 v) = 0"
    by (simp add: drop_bit_eq_div unat_div)
  then have "drop_bit 7 v = 0"
    by (simp only: unat_eq_zero)
  then show ?case
    by (simp add: leb128_bytes.simps [of v] Let_def)
next
  case (Suc n)
  have "unat v < 2 ^ (7 * Suc n) * 128"
    using Suc.prems by (simp add: power_add)
  then have "unat (drop_bit 7 v) < 2 ^ (7 * Suc n)"
    by (simp only: drop_bit_eq_div unat_div less_mult_imp_div_less) (simp add: less_mult_imp_div_less)
  then have "length (leb128_bytes (drop_bit 7 v)) \<le> Suc n"
    by (rule Suc.IH)
  then show ?case
    by (simp add: leb128_bytes.simps [of v] Let_def)
qed

lemma length_leb128_bytes_le_5: "length (leb128_bytes v) \<le> 5"
proof -
  have "unat v < 2 ^ 32"
    using unsigned_less [of v] by simp
  then have "unat v < 2 ^ (7 * Suc 4)"
    by simp
  then show ?thesis
    using length_leb128_bytes [of v 4] by simp
qed

lemma encode_loop_bytes:
  "off + length (leb128_bytes v) \<le> length buf \<Longrightarrow>
   encode_u32_loop buf v off =
     Ok (take off buf @ leb128_bytes v @ drop (off + length (leb128_bytes v)) buf,
         take off buf @ leb128_bytes v)"
proof (induction buf v off rule: encode_u32_loop.induct)
  case (1 buf v off)
  show ?case
  proof (cases "drop_bit 7 v = 0")
    case True
    with 1 show ?thesis
      by (simp add: encode_u32_loop.simps [of buf v off] leb128_bytes.simps [of v] Let_def
          upd_conv_take_nth_drop take_Suc_conv_app_nth)
  next
    case False
    with 1 show ?thesis
      by (simp add: encode_u32_loop.simps [of buf v off] leb128_bytes.simps [of v] Let_def
          upd_conv_take_nth_drop add.commute)
  qed
qed

lemma encode_u32_eq:
  assumes "length (Leb128Encoder_data self) = 10"
  shows "Leb128Encoder_encode_u32 self v =
    Ok (self\<lparr>Leb128Encoder_data := leb128_bytes v @ drop (length (leb128_bytes v)) (Leb128Encoder_data self)\<rparr>,
        leb128_bytes v)"
  using assms length_leb128_bytes_le_5 [of v]
  by (simp add: Leb128Encoder_encode_u32_def encode_loop_bytes)

text \<open>Bounds of the decoder on arbitrary input, and that bytes behind the value do not matter.\<close>

lemma decode_loop_no_panic: "t \<le> 28 \<Longrightarrow> 7 dvd t \<Longrightarrow> no_panic (Leb128_decode_loop bs val t len)"
proof (induction bs arbitrary: val t len)
  case Nil
  show ?case by simp
next
  case (Cons b bs)
  have "t + 7 \<le> 28" if "t + 7 \<le> 32"
    using that Cons.prems by presburger
  with Cons show ?case by (simp add: Let_def)
qed

lemma decode_loop_bounds:
  "Leb128_decode_loop bs val t len = Ok r \<Longrightarrow> t \<le> 32 \<Longrightarrow>
   len \<le> Leb128_encoded_len r \<and> Leb128_encoded_len r < len + length bs
   \<and> 7 * (Leb128_encoded_len r - len) + t \<le> 32"
proof (induction bs arbitrary: val t len)
  case Nil
  then show ?case by simp
next
  case (Cons b bs)
  then show ?case by (fastforce simp: Let_def split: if_splits)
qed

lemma decode_loop_append:
  "Leb128_decode_loop bs val t len = Ok r \<Longrightarrow> Leb128_decode_loop (bs @ cs) val t len = Ok r"
  by (induction bs arbitrary: val t len) (simp_all add: Let_def split: if_splits)

interpretation leb128: wire_codec leb128_bytes
  "\<lambda>d. case Leb128_decode d of Ok r \<Rightarrow> Some (Leb128_value r, Leb128_encoded_len r) | _ \<Rightarrow> None"
  by unfold_locales (simp add: decode_bytes)

section \<open>Zigzag (\<open>impl_zig_zag!\<close>)\<close>

text \<open>
  The macro is instantiated at 16, 32 and 64 bits; the definitions are polymorphic in the width.
  A signed integer is the word of its two's complement, read by \<open>sint\<close>, so \<open>cast_signed\<close> and
  \<open>cast_unsigned\<close> are the identity.
\<close>

definition to_zig_zag :: "'w::len word \<Rightarrow> 'w word" where
  "to_zig_zag x = signed_drop_bit (LENGTH('w) - 1) x XOR push_bit 1 x"
definition from_zig_zag :: "'w::len word \<Rightarrow> 'w word" where
  "from_zig_zag v = drop_bit 1 v XOR (- (v AND 1))"

lemma to_zig_zag_cases:
  "to_zig_zag (x :: 'w::len word) =
     (if bit x (LENGTH('w) - 1) then NOT (push_bit 1 x) else push_bit 1 x)"
proof (rule bit_word_eqI)
  fix n
  assume "n < LENGTH('w)"
  then show "bit (to_zig_zag x) n =
      bit (if bit x (LENGTH('w) - 1) then NOT (push_bit 1 x) else push_bit 1 x) n"
    by (cases n)
      (simp_all add: to_zig_zag_def bit_xor_iff bit_not_iff bit_push_bit_iff
        bit_signed_drop_bit_iff del: push_bit_Suc)
qed

lemma from_zig_zag_cases:
  "from_zig_zag (v :: 'w::len word) = (if bit v 0 then NOT (drop_bit 1 v) else drop_bit 1 v)"
  unfolding from_zig_zag_def
  by (auto simp: and_one_eq mod_2_eq_odd bit_0)

lemma bit_push_bit_1:
  "n < LENGTH('w) \<Longrightarrow> bit (push_bit 1 (x :: 'w::len word)) n = (0 < n \<and> bit x (n - 1))"
  by (cases n) (simp_all add: bit_push_bit_iff del: push_bit_Suc)

lemma from_to_zig_zag: "from_zig_zag (to_zig_zag (x::'w::len word)) = x"
proof (rule bit_word_eqI)
  fix n
  assume n: "n < LENGTH('w)"
  have "bit (from_zig_zag (to_zig_zag x)) n =
      (if bit x (LENGTH('w) - 1) then \<not> (Suc n < LENGTH('w) \<and> \<not> bit x n)
       else Suc n < LENGTH('w) \<and> bit x n)"
    using n
    by (cases "Suc n < LENGTH('w)")
     (simp_all only: to_zig_zag_cases from_zig_zag_cases bit_drop_bit_eq bit_not_iff bit_push_bit_1 bit_imp_le_length  possible_bit_word len_gt_0 if_split if_True if_False o_def split: if_split, auto simp: bit_push_bit_1 bit_not_iff simp del: push_bit_Suc dest: bit_imp_le_length)
  then show "bit (from_zig_zag (to_zig_zag x)) n = bit x n"
    using n by (cases "n = LENGTH('w) - 1") (auto split: if_splits)
qed

lemma to_from_zig_zag: "to_zig_zag (from_zig_zag (v :: 'w::len word)) = v"
proof -
  have "inj (to_zig_zag :: 'w word \<Rightarrow> 'w word)"
    by (metis from_to_zig_zag injI)
  then have "surj (to_zig_zag :: 'w word \<Rightarrow> 'w word)"
    by (rule finite_UNIV_inj_surj [OF finite])
  then obtain x where "v = to_zig_zag x"
    by (metis surjE)
  then show ?thesis
    by (simp add: from_to_zig_zag)
qed

lemma to_zig_zag_of_int:
  "to_zig_zag (x :: 'w::len word) =
     word_of_int (if 0 \<le> sint x then 2 * sint x else - 2 * sint x - 1)"
proof -
  have "push_bit 1 x = word_of_int (2 * sint x)"
    by (simp add: push_bit_eq_mult)
  moreover have "NOT (push_bit 1 x) = word_of_int (- 2 * sint x - 1)"
    by (simp add: push_bit_eq_mult not_eq_complement)
  ultimately show ?thesis
    by (simp add: to_zig_zag_cases bit_last_iff)
qed

lemma uint_to_zig_zag:
  "uint (to_zig_zag (x :: 'w::len word)) = (if 0 \<le> sint x then 2 * sint x else - 2 * sint x - 1)"
proof -
  have p: "(2::int) ^ LENGTH('w) = 2 * 2 ^ (LENGTH('w) - 1)"
    by (metis len_gt_0 power_minus_mult mult.commute)
  have "- (2 ^ (LENGTH('w) - 1)) \<le> sint x" "sint x < 2 ^ (LENGTH('w) - 1)"
    by (rule sint_ge, rule sint_lt)
  then show ?thesis
    by (simp add: to_zig_zag_of_int uint_word_of_int p)
qed

section \<open>Thrift compact integers (\<open>VarInt32\<close>, \<open>VarIntEncoder\<close>)\<close>

record VarInt32 =
  VarInt32_leb128 :: Leb128

definition VarInt32_parse :: "bytes \<Rightarrow> (VarInt32, Leb128DecodeError) res" where
  "VarInt32_parse data =
     res_bind (Leb128_decode data) (\<lambda>leb128. Ok \<lparr>VarInt32_leb128 = leb128\<rparr>)"

definition VarInt32_positive_value :: "VarInt32 \<Rightarrow> u32" where
  "VarInt32_positive_value self = Leb128_value (VarInt32_leb128 self)"

definition VarInt32_value :: "VarInt32 \<Rightarrow> u32" where
  "VarInt32_value self = (let uv = Leb128_value (VarInt32_leb128 self) in from_zig_zag uv)"

definition VarInt32_encoded_len :: "VarInt32 \<Rightarrow> nat" where
  "VarInt32_encoded_len self = Leb128_encoded_len (VarInt32_leb128 self)"

record VarIntEncoder =
  VarIntEncoder_leb128 :: Leb128Encoder

definition VarIntEncoder_encode_i32 ::
  "VarIntEncoder \<Rightarrow> u32 \<Rightarrow> (VarIntEncoder \<times> bytes, unit) res" where
  "VarIntEncoder_encode_i32 self v =
     (let uv = to_zig_zag v in
      res_bind (Leb128Encoder_encode_u32 (VarIntEncoder_leb128 self) uv)
        (\<lambda>(e, out). Ok (self\<lparr>VarIntEncoder_leb128 := e\<rparr>, out)))"

definition VarIntEncoder_encode_positive_i32 ::
  "VarIntEncoder \<Rightarrow> u32 \<Rightarrow> (VarIntEncoder \<times> bytes, unit) res" where
  "VarIntEncoder_encode_positive_i32 self v =
     res_bind (Leb128Encoder_encode_u32 (VarIntEncoder_leb128 self) v)
       (\<lambda>(e, out). Ok (self\<lparr>VarIntEncoder_leb128 := e\<rparr>, out))"

interpretation thrift_i32: wire_codec "\<lambda>v. leb128_bytes (to_zig_zag v)"
  "\<lambda>d. case VarInt32_parse d of Ok r \<Rightarrow> Some (VarInt32_value r, VarInt32_encoded_len r) | _ \<Rightarrow> None"
  by unfold_locales
    (simp add: VarInt32_parse_def decode_bytes VarInt32_value_def VarInt32_encoded_len_def
      from_to_zig_zag)

section \<open>Properties\<close>

text \<open>
  C15. Whatever the encoder's ten byte buffer holds from earlier calls, \<open>encode_u32\<close> returns
  normally (no write past the buffer), uses at most five bytes, leaves a ten byte buffer, and
  \<open>decode\<close> of its output followed by any further bytes gives back the value and the length.
\<close>

theorem leb128_round_trip:
  assumes "length (Leb128Encoder_data self) = 10"
  shows "\<exists>self' out. Leb128Encoder_encode_u32 self v = Ok (self', out)
    \<and> length (Leb128Encoder_data self') = 10 \<and> length out \<le> 5
    \<and> Leb128_decode (out @ rest) = Ok \<lparr>Leb128_value = v, Leb128_encoded_len = length out\<rparr>"
  using assms length_leb128_bytes_le_5 [of v]
  by (simp add: encode_u32_eq decode_bytes)

theorem leb128_round_trip_witness:
  "length (Leb128Encoder_data Leb128Encoder_default) = 10
   \<and> (\<exists>self' out. Leb128Encoder_encode_u32 Leb128Encoder_default 624485 = Ok (self', out)
       \<and> Leb128_decode (out @ [7]) = Ok \<lparr>Leb128_value = 624485, Leb128_encoded_len = length out\<rparr>)"
proof -
  have h: "length (Leb128Encoder_data Leb128Encoder_default) = 10"
    by (simp add: Leb128Encoder_default_def)
  show ?thesis
    using h leb128_round_trip [OF h, of 624485 "[7]"] by blast
qed

end
