(* ===== verification/Quic.thy ===== *)
theory Quic
  imports Rust_Prelude
begin

text \<open>
  QUIC wire formats of \<open>src/lib/g3-codec/src/quic\<close>: variable-length integers (\<open>var_int.rs\<close>), the
  ACK and CRYPTO frames (\<open>frame/ack.rs\<close>, \<open>frame/crypto.rs\<close>), the client Initial packet of
  versions 1 and 2 (\<open>packet/\<close>) and the frame loop \<open>consume_frames\<close>. The OpenSSL calls are
  parameters of the packet parser. A target with 64 bit pointers is assumed, as in the
  \<open>encode_64\<close> tests of the repository.
\<close>

section \<open>The interface of a parser that reports the bytes it used\<close>

text \<open>
  A frame parser advances an offset by what the field parser reports. For that to stay inside the
  buffer and to be independent of the bytes behind the field, the field parser has to keep these
  laws. \<open>p\<close> gives the value and the number of bytes used.
\<close>

locale field_parser =
  fixes p :: "bytes \<Rightarrow> ('a \<times> nat) option"
  assumes used_pos: "p data = Some (v, n) \<Longrightarrow> 0 < n"
    and used_le: "p data = Some (v, n) \<Longrightarrow> n \<le> length data"
    and used_prefix: "p data = Some (v, n) \<Longrightarrow> p (take n data @ rest) = Some (v, n)"
begin

lemma append_stable: "p data = Some (v, n) \<Longrightarrow> p (data @ rest) = Some (v, n)"
  using used_prefix [of data v n "drop n data @ rest"]
  by (metis append.assoc append_take_drop_id)

lemma offset_in_range:
  "off \<le> length data \<Longrightarrow> p (drop off data) = Some (v, n) \<Longrightarrow> off + n \<le> length data"
  using used_le [of "drop off data" v n] by simp

lemma offset_progress:
  "p (drop off data) = Some (v, n) \<Longrightarrow> off < off + n"
  using used_pos [of "drop off data" v n] by simp

end

section \<open>Variable-length integers (\<open>VarInt\<close>)\<close>

record VarInt =
  VarInt_value :: u64
  VarInt_encoded_len :: nat

text \<open>
  \<open>VarInt::parse\<close> returns an \<open>Option\<close>; \<open>None\<close> is \<open>Err ()\<close> here, so that an index out of range
  would show as \<open>Panic\<close>. The last branch is the source's \<open>unreachable!()\<close>.
\<close>

definition VarInt_parse :: "bytes \<Rightarrow> (VarInt, unit) res" where
  "VarInt_parse data =
     (if data = [] then Err ()
      else res_bind (index data 0) (\<lambda>b0.
        let value0 = b0 AND 0x3F; sel = drop_bit 6 b0 in
        if sel = 0 then Ok \<lparr>VarInt_value = ucast value0, VarInt_encoded_len = 1\<rparr>
        else if sel = 1 then
          (if length data < 2 then Err ()
           else res_bind (indices data [1..<2]) (\<lambda>bs.
             Ok \<lparr>VarInt_value = ucast (from_be (value0 # bs) :: u16), VarInt_encoded_len = 2\<rparr>))
        else if sel = 2 then
          (if length data < 4 then Err ()
           else res_bind (indices data [1..<4]) (\<lambda>bs.
             Ok \<lparr>VarInt_value = ucast (from_be (value0 # bs) :: u32), VarInt_encoded_len = 4\<rparr>))
        else if sel = 3 then
          (if length data < 8 then Err ()
           else res_bind (indices data [1..<8]) (\<lambda>bs.
             Ok \<lparr>VarInt_value = from_be (value0 # bs), VarInt_encoded_len = 8\<rparr>))
        else Panic))"

section \<open>Frames\<close>

datatype FrameParseError =
    InvalidFrameType u64
  | NotEnoughData
  | TooBigOffsetValue u64
  | OutOfOrderFrame string
  | MalformedFrame string

definition usize_max :: nat where
  "usize_max = u64_max"

text \<open>The macro \<open>read_var_int!\<close>: parse at the offset and advance it.\<close>

definition read_var_int :: "bytes \<Rightarrow> nat \<Rightarrow> (VarInt \<times> nat, FrameParseError) res" where
  "read_var_int data offset =
     res_bind (slice_from data offset) (\<lambda>left.
     res_bind (map_err (\<lambda>_. NotEnoughData) (VarInt_parse left)) (\<lambda>var.
     Ok (var, offset + VarInt_encoded_len var)))"

record AckRange =
  AckRange_gap :: VarInt
  AckRange_length :: VarInt
  AckRange_encoded_len :: nat

definition AckRange_parse :: "bytes \<Rightarrow> (AckRange, FrameParseError) res" where
  "AckRange_parse data =
     res_bind (map_err (\<lambda>_. NotEnoughData) (VarInt_parse data)) (\<lambda>gap.
     let offset = VarInt_encoded_len gap in
     res_bind (slice_from data offset) (\<lambda>left.
     res_bind (map_err (\<lambda>_. NotEnoughData) (VarInt_parse left)) (\<lambda>len.
     let encoded_len = offset + VarInt_encoded_len len in
     Ok \<lparr>AckRange_gap = gap, AckRange_length = len, AckRange_encoded_len = encoded_len\<rparr>)))"

record EcnCounts =
  EcnCounts_ect0 :: VarInt
  EcnCounts_ect1 :: VarInt
  EcnCounts_ecn_ce :: VarInt
  EcnCounts_encoded_len :: nat

definition EcnCounts_parse :: "bytes \<Rightarrow> (EcnCounts, FrameParseError) res" where
  "EcnCounts_parse data =
     res_bind (read_var_int data 0) (\<lambda>(ect0, offset).
     res_bind (read_var_int data offset) (\<lambda>(ect1, offset).
     res_bind (read_var_int data offset) (\<lambda>(ecn_ce, offset).
     Ok \<lparr>EcnCounts_ect0 = ect0, EcnCounts_ect1 = ect1, EcnCounts_ecn_ce = ecn_ce,
         EcnCounts_encoded_len = offset\<rparr>)))"

record AckFrame =
  AckFrame_largest_ack :: VarInt
  AckFrame_ack_delay :: VarInt
  AckFrame_first_ack_range :: VarInt
  AckFrame_ack_ranges :: "AckRange list"
  AckFrame_ecn_counts :: "EcnCounts option"
  AckFrame_encoded_len :: nat

text \<open>The loop \<open>for _ in 0..ack_range_count.value()\<close>.\<close>

primrec ack_ranges_loop ::
  "nat \<Rightarrow> bytes \<Rightarrow> nat \<Rightarrow> AckRange list \<Rightarrow> (AckRange list \<times> nat, FrameParseError) res" where
  "ack_ranges_loop 0 data offset ack_ranges = Ok (ack_ranges, offset)"
| "ack_ranges_loop (Suc n) data offset ack_ranges =
     res_bind (slice_from data offset) (\<lambda>left.
     res_bind (AckRange_parse left) (\<lambda>ack_range.
     ack_ranges_loop n data (offset + AckRange_encoded_len ack_range) (ack_ranges @ [ack_range])))"

definition AckFrame_parse :: "bytes \<Rightarrow> bool \<Rightarrow> (AckFrame, FrameParseError) res" where
  "AckFrame_parse data ecn =
     res_bind (read_var_int data 0) (\<lambda>(largest_ack, offset).
     res_bind (read_var_int data offset) (\<lambda>(ack_delay, offset).
     res_bind (read_var_int data offset) (\<lambda>(ack_range_count, offset).
     res_bind (read_var_int data offset) (\<lambda>(first_ack_range, offset).
     res_bind (ack_ranges_loop (unat (VarInt_value ack_range_count)) data offset [])
       (\<lambda>(ack_ranges, offset).
     if ecn then
       res_bind (slice_from data offset) (\<lambda>left.
       res_bind (EcnCounts_parse left) (\<lambda>ecn_counts.
       Ok \<lparr>AckFrame_largest_ack = largest_ack, AckFrame_ack_delay = ack_delay,
           AckFrame_first_ack_range = first_ack_range, AckFrame_ack_ranges = ack_ranges,
           AckFrame_ecn_counts = Some ecn_counts,
           AckFrame_encoded_len = offset + EcnCounts_encoded_len ecn_counts\<rparr>))
     else
       Ok \<lparr>AckFrame_largest_ack = largest_ack, AckFrame_ack_delay = ack_delay,
           AckFrame_first_ack_range = first_ack_range, AckFrame_ack_ranges = ack_ranges,
           AckFrame_ecn_counts = None, AckFrame_encoded_len = offset\<rparr>)))))"

record CryptoFrame =
  CryptoFrame_stream_offset :: nat
  CryptoFrame_data :: bytes
  CryptoFrame_encoded_len :: nat

definition CryptoFrame_new :: "nat \<Rightarrow> bytes \<Rightarrow> CryptoFrame" where
  "CryptoFrame_new stream_offset data =
     \<lparr>CryptoFrame_stream_offset = stream_offset, CryptoFrame_data = data, CryptoFrame_encoded_len = 0\<rparr>"

definition CryptoFrame_parse :: "bytes \<Rightarrow> (CryptoFrame, FrameParseError) res" where
  "CryptoFrame_parse data =
     res_bind (map_err (\<lambda>_. NotEnoughData) (VarInt_parse data)) (\<lambda>so.
     let offset = VarInt_encoded_len so in
     if usize_max < unat (VarInt_value so) then Err (TooBigOffsetValue (VarInt_value so))
     else
       let stream_offset = unat (VarInt_value so) in
       res_bind (slice_from data offset) (\<lambda>left.
       res_bind (map_err (\<lambda>_. NotEnoughData) (VarInt_parse left)) (\<lambda>len.
       let offset = offset + VarInt_encoded_len len in
       if length data < wrapping_add offset (unat (VarInt_value len)) then Err NotEnoughData
       else
         let data_end = wrapping_add offset (unat (VarInt_value len)) in
         res_bind (slice data offset data_end) (\<lambda>d.
         Ok \<lparr>CryptoFrame_stream_offset = stream_offset, CryptoFrame_data = d,
             CryptoFrame_encoded_len = data_end\<rparr>))))"

section \<open>Laws of the field parsers\<close>

lemma and_0x3F: "unat (b AND 0x3F :: u8) = unat b mod 64"
proof -
  have "b AND 0x3F = take_bit 6 b"
    by (simp add: take_bit_eq_mask mask_eq_exp_minus_1)
  then show ?thesis
    by (simp add: take_bit_eq_mod unat_mod)
qed

lemma drop_bit_6_cases:
  "drop_bit 6 (b :: u8) = 0 \<or> drop_bit 6 b = 1 \<or> drop_bit 6 b = 2 \<or> drop_bit 6 b = 3"
proof -
  have "unat b div 64 < 4"
    by (simp add: less_mult_imp_div_less)
  then have "unat (drop_bit 6 b) < 4"
    by (simp add: drop_bit_eq_div unat_div)
  then show ?thesis
    by (auto simp: word_unat_eq_iff)
qed

text \<open>
  What \<open>VarInt::parse\<close> computes, without the case distinction: the two top bits give the length
  \<open>n\<close>, the other \<open>8 * n - 2\<close> bits are the value.
\<close>

definition varint_len :: "u8 \<Rightarrow> nat" where
  "varint_len b = 2 ^ unat (drop_bit 6 b)"

lemma be_nat_low_bits:
  "be_nat ((b AND 0x3F) # bs) = be_nat (b # bs) mod 2 ^ (8 * length bs + 6)"
proof -
  let ?m = "256 ^ length bs :: nat"
  have m: "2 ^ (8 * length bs + 6) = ?m * 64"
    by (simp add: power_add power_mult)
  have "(unat b * ?m + be_nat bs) mod (?m * 64) = ?m * ((unat b * ?m + be_nat bs) div ?m mod 64) + (unat b * ?m + be_nat bs) mod ?m"
    by (rule mod_mult2_eq)
  then show ?thesis
    using be_nat_less [of bs] by (simp add: m and_0x3F)
qed

lemma from_be_low_bits:
  "from_be ((b AND 0x3F) # bs) =
     (of_nat (be_nat (b # bs) mod 2 ^ (8 * length bs + 6)) :: 'w::len word)"
  by (simp only: from_be_def be_nat_low_bits)

lemma VarInt_parse_spec:
  "VarInt_parse data =
    (case data of [] \<Rightarrow> Err ()
     | b # _ \<Rightarrow>
        if length data < varint_len b then Err ()
        else Ok \<lparr>VarInt_value =
                   of_nat (be_nat (take (varint_len b) data) mod 2 ^ (8 * varint_len b - 2)),
                 VarInt_encoded_len = varint_len b\<rparr>)"
proof (cases data)
  case Nil
  then show ?thesis by (simp add: VarInt_parse_def)
next
  case (Cons b bs)
  have c0: "(ucast (b AND 0x3F) :: u64) = of_nat (unat b mod 64)"
    by (simp add: word_unat_eq_iff unsigned_ucast_eq and_0x3F[symmetric]) 
  from drop_bit_6_cases [of b] show ?thesis
  proof (elim disjE)
    assume "drop_bit 6 b = 0"
    then show ?thesis
      using c0 by (simp add: VarInt_parse_def Cons varint_len_def)
  next
    assume "drop_bit 6 b = 1"
    then show ?thesis
      by (cases bs)
        (simp_all add: VarInt_parse_def Cons varint_len_def ucast_from_be
          from_be_low_bits [where 'w = 64]
          del: be_nat.simps)
  next
    assume "drop_bit 6 b = 2"
    then show ?thesis
      by (simp add: VarInt_parse_def Cons varint_len_def ucast_from_be
          from_be_low_bits [where 'w = 64]
          del: be_nat.simps)
  next
    assume "drop_bit 6 b = 3"
    then show ?thesis
      by (simp add: VarInt_parse_def Cons varint_len_def from_be_low_bits del: be_nat.simps)
  qed
qed

lemma varint_len_cases: "varint_len b = 1 \<or> varint_len b = 2 \<or> varint_len b = 4 \<or> varint_len b = 8"
  using drop_bit_6_cases [of b] by (auto simp: varint_len_def)

lemma VarInt_parse_no_panic [simp]: "no_panic (VarInt_parse data)"
  by (simp add: VarInt_parse_spec split: list.split)

lemma VarInt_parse_Ok:
  assumes "VarInt_parse data = Ok v"
  shows "0 < VarInt_encoded_len v" "VarInt_encoded_len v \<le> 8"
    "VarInt_encoded_len v \<le> length data" "unat (VarInt_value v) < 2 ^ 62"
    "VarInt_parse (take (VarInt_encoded_len v) data @ rest) = Ok v"
proof -
  from assms obtain b bs where d: "data = b # bs" and l: "varint_len b \<le> length data"
    and v: "v = \<lparr>VarInt_value =
        of_nat (be_nat (take (varint_len b) data) mod 2 ^ (8 * varint_len b - 2)),
        VarInt_encoded_len = varint_len b\<rparr>"
    by (auto simp: VarInt_parse_spec split: list.splits if_splits)
  have pos: "0 < varint_len b" by (simp add: varint_len_def)
  then show "0 < VarInt_encoded_len v" "VarInt_encoded_len v \<le> length data"
    using l v by simp_all
  have le: "varint_len b \<le> 8" using varint_len_cases [of b] by auto
  then show "VarInt_encoded_len v \<le> 8" using v by simp
  have "be_nat (take (varint_len b) data) mod 2 ^ (8 * varint_len b - 2) < 2 ^ (8 * varint_len b - 2)"
    by simp
  also have "\<dots> \<le> 2 ^ 62"
    using le by (intro power_increasing) auto
  finally have "be_nat (take (varint_len b) data) mod 2 ^ (8 * varint_len b - 2) < 2 ^ 62" .
  then show "unat (VarInt_value v) < 2 ^ 62"
    using v by (simp add: unat_of_nat)
  have "take (varint_len b) data = b # take (varint_len b - 1) bs"
    using d pos by (cases "varint_len b") auto
  moreover have "take (varint_len b) (take (varint_len b) data @ rest) = take (varint_len b) data"
    using l by simp
  ultimately show "VarInt_parse (take (VarInt_encoded_len v) data @ rest) = Ok v"
    using v l d pos by (simp add: VarInt_parse_spec del: be_nat.simps)
qed

interpretation varint: field_parser
  "\<lambda>d. case VarInt_parse d of Ok v \<Rightarrow> Some (v, VarInt_encoded_len v) | _ \<Rightarrow> None"
  by unfold_locales (auto split: res.splits simp: VarInt_parse_Ok)

text \<open>The frame parsers never index out of range and never report more bytes than they were given.\<close>

lemma read_var_int_Ok:
  assumes "read_var_int data off = Ok (v, off')"
  shows "off < off' \<and> off' \<le> length data \<and> off' \<le> off + 8"
  using assms VarInt_parse_Ok [of "drop off data" v] by (auto simp: read_var_int_def res_simps)

lemma read_var_int_no_panic: "off \<le> length data \<Longrightarrow> no_panic (read_var_int data off)"
  by (auto simp: read_var_int_def)

lemma AckRange_parse_no_panic [simp]: "no_panic (AckRange_parse data)"
  by (auto simp: AckRange_parse_def Let_def res_simps VarInt_parse_Ok intro!: no_panic_bindI)

lemma AckRange_parse_Ok:
  assumes "AckRange_parse data = Ok r"
  shows "2 \<le> AckRange_encoded_len r \<and> AckRange_encoded_len r \<le> length data"
proof -
  from assms obtain g l where g: "VarInt_parse data = Ok g"
    and l: "VarInt_parse (drop (VarInt_encoded_len g) data) = Ok l"
    and r: "AckRange_encoded_len r = VarInt_encoded_len g + VarInt_encoded_len l"
    by (auto simp: AckRange_parse_def Let_def res_simps)
  from VarInt_parse_Ok(1,3) [OF g] VarInt_parse_Ok(1,3) [OF l] r show ?thesis
    by auto
qed

lemma EcnCounts_parse_no_panic [simp]: "no_panic (EcnCounts_parse data)"
  by (auto simp: EcnCounts_parse_def read_var_int_no_panic dest!: read_var_int_Ok
      intro!: no_panic_bindI split: prod.splits)

lemma EcnCounts_parse_Ok:
  "EcnCounts_parse data = Ok r \<Longrightarrow> EcnCounts_encoded_len r \<le> length data"
  by (auto simp: EcnCounts_parse_def res_simps dest!: read_var_int_Ok)

lemma ack_ranges_loop_no_panic:
  "off \<le> length data \<Longrightarrow> no_panic (ack_ranges_loop n data off acc)"
proof (induction n arbitrary: off acc)
  case 0
  show ?case by simp
next
  case (Suc n)
  then show ?case
    by (auto dest!: AckRange_parse_Ok)
qed

lemma ack_ranges_loop_Ok:
  "ack_ranges_loop n data off acc = Ok (rs, off') \<Longrightarrow> off \<le> length data \<Longrightarrow>
   length rs = length acc + n \<and> off + 2 * n \<le> off' \<and> off' \<le> length data"
proof (induction n arbitrary: off acc)
  case 0
  then show ?case by simp
next
  case (Suc n)
  then obtain r where r: "AckRange_parse (drop off data) = Ok r"
    and l: "ack_ranges_loop n data (off + AckRange_encoded_len r) (acc @ [r]) = Ok (rs, off')"
    by (auto simp: res_simps)
  from AckRange_parse_Ok [OF r] Suc.prems(2)
  have b: "2 \<le> AckRange_encoded_len r" "off + AckRange_encoded_len r \<le> length data"
    by auto
  from Suc.IH [OF l b(2)] b(1) show ?case
    by auto
qed

lemma AckFrame_parse_no_panic [simp]: "no_panic (AckFrame_parse data ecn)"
  by (auto simp: AckFrame_parse_def read_var_int_no_panic ack_ranges_loop_no_panic
      dest!: read_var_int_Ok ack_ranges_loop_Ok intro!: no_panic_bindI split: prod.splits)

lemma AckFrame_parse_Ok:
  assumes "AckFrame_parse data ecn = Ok f"
  shows "AckFrame_encoded_len f \<le> length data
    \<and> 2 * length (AckFrame_ack_ranges f) + 4 \<le> AckFrame_encoded_len f
    \<and> (AckFrame_ecn_counts f \<noteq> None \<longleftrightarrow> ecn)"
proof -
  from assms obtain v1 o1 v2 o2 v3 o3 v4 o4 rs o5 where
    1: "read_var_int data 0 = Ok (v1, o1)" and 2: "read_var_int data o1 = Ok (v2, o2)"
    and 3: "read_var_int data o2 = Ok (v3, o3)" and 4: "read_var_int data o3 = Ok (v4, o4)"
    and 5: "ack_ranges_loop (unat (VarInt_value v3)) data o4 [] = Ok (rs, o5)"
    and f: "AckFrame_ack_ranges f = rs"
    and e: "if ecn then \<exists>c. EcnCounts_parse (drop o5 data) = Ok c \<and> AckFrame_ecn_counts f = Some c
        \<and> AckFrame_encoded_len f = o5 + EcnCounts_encoded_len c
      else AckFrame_ecn_counts f = None \<and> AckFrame_encoded_len f = o5"
    by (auto simp: AckFrame_parse_def res_simps split: if_splits)
  note r = read_var_int_Ok [OF 1] read_var_int_Ok [OF 2] read_var_int_Ok [OF 3] read_var_int_Ok [OF 4]
  from r have "o4 \<le> length data" "4 \<le> o4" by auto
  with ack_ranges_loop_Ok [OF 5] f e show ?thesis
    by (auto split: if_splits dest!: EcnCounts_parse_Ok)
qed

lemma wrapping_add_varint:
  assumes "VarInt_parse d = Ok v" and "off \<le> 16"
  shows "wrapping_add off (unat (VarInt_value v)) = off + unat (VarInt_value v)"
  using VarInt_parse_Ok(4) [OF assms(1)] assms(2)
  by (intro wrapping_add_small) (simp add: u64_max_def)

lemma CryptoFrame_parse_no_panic [simp]: "no_panic (CryptoFrame_parse data)"
proof -
  have "VarInt_encoded_len v + VarInt_encoded_len w
      \<le> wrapping_add (VarInt_encoded_len v + VarInt_encoded_len w) (unat (VarInt_value w))"
    if "VarInt_parse d = Ok v" "VarInt_parse e = Ok w" for d e v w
    using wrapping_add_varint [OF that(2)] VarInt_parse_Ok(2) [OF that(1)]
      VarInt_parse_Ok(2) [OF that(2)] by simp
  then show ?thesis
    by (auto simp: CryptoFrame_parse_def Let_def res_simps VarInt_parse_Ok intro!: no_panic_bindI)
qed

lemma CryptoFrame_parse_Ok:
  assumes "CryptoFrame_parse data = Ok f"
  shows "CryptoFrame_encoded_len f \<le> length data"
    "\<exists>h. CryptoFrame_encoded_len f = h + length (CryptoFrame_data f) \<and> 2 \<le> h \<and> h \<le> 16
       \<and> CryptoFrame_data f = take (length (CryptoFrame_data f)) (drop h data)"
    "CryptoFrame_stream_offset f < 2 ^ 62"
proof -
  from assms obtain v w where
    v: "VarInt_parse data = Ok v" and w: "VarInt_parse (drop (VarInt_encoded_len v) data) = Ok w"
    and le: "wrapping_add (VarInt_encoded_len v + VarInt_encoded_len w) (unat (VarInt_value w)) \<le> length data"
    and f: "f = \<lparr>CryptoFrame_stream_offset = unat (VarInt_value v),
        CryptoFrame_data = take (wrapping_add (VarInt_encoded_len v + VarInt_encoded_len w) (unat (VarInt_value w)) - (VarInt_encoded_len v + VarInt_encoded_len w)) (drop (VarInt_encoded_len v + VarInt_encoded_len w) data),
        CryptoFrame_encoded_len = wrapping_add (VarInt_encoded_len v + VarInt_encoded_len w) (unat (VarInt_value w))\<rparr>"
    by (auto simp: CryptoFrame_parse_def Let_def res_simps split: if_splits)
  note b = VarInt_parse_Ok(1,2,4) [OF v] VarInt_parse_Ok(1,2) [OF w]
  have wa: "wrapping_add (VarInt_encoded_len v + VarInt_encoded_len w) (unat (VarInt_value w))
      = VarInt_encoded_len v + VarInt_encoded_len w + unat (VarInt_value w)"
    using b by (intro wrapping_add_varint [OF w]) simp
  show "CryptoFrame_encoded_len f \<le> length data" "CryptoFrame_stream_offset f < 2 ^ 62"
    using f le b by simp_all
  show "\<exists>h. CryptoFrame_encoded_len f = h + length (CryptoFrame_data f) \<and> 2 \<le> h \<and> h \<le> 16
       \<and> CryptoFrame_data f = take (length (CryptoFrame_data f)) (drop h data)"
    using f le b by (intro exI [of _ "VarInt_encoded_len v + VarInt_encoded_len w"]) 
      (auto simp: wa min_def)
qed

text \<open>The total correctness rules the packet parser uses.\<close>

lemma VarInt_parse_ensures [ensures_rules]:
  "(\<And>v. 0 < VarInt_encoded_len v \<Longrightarrow> VarInt_encoded_len v \<le> 8 \<Longrightarrow>
      VarInt_encoded_len v \<le> length data \<Longrightarrow> unat (VarInt_value v) < 2 ^ 62 \<Longrightarrow> Q v)
    \<Longrightarrow> ensures (VarInt_parse data) Q"
  by (rule ensuresI) (simp, metis VarInt_parse_Ok(1-4))

text \<open>The encoder of RFC 9000, section 16, with the size class \<open>k\<close> (1, 2, 4 or 8 bytes).\<close>

definition varint_encode :: "nat \<Rightarrow> nat \<Rightarrow> bytes" where
  "varint_encode k v = to_be (2 ^ k) (k * 2 ^ (8 * 2 ^ k - 2) + v)"

lemma length_varint_encode [simp]: "length (varint_encode k v) = 2 ^ k"
  by (simp add: varint_encode_def)

lemma VarInt_parse_encode:
  assumes k: "k < 4" and v: "v < 2 ^ (8 * 2 ^ k - 2)"
  shows "VarInt_parse (varint_encode k v @ rest) =
    Ok \<lparr>VarInt_value = of_nat v, VarInt_encoded_len = 2 ^ k\<rparr>"
proof -
  define n where "n = (2::nat) ^ k - 1"
  have n: "2 ^ k = Suc n"
    by (simp add: n_def)
  have e: "8 * 2 ^ k - 2 = 6 + 8 * n"
    using n by simp
  have p: "(2::nat) ^ (8 * 2 ^ k - 2) = 64 * 256 ^ n"
    by (simp add: e power_add power_mult)
  let ?x = "k * (64 * 256 ^ n) + v"
  have vd: "v div 256 ^ n < 64"
    using v p by (simp add: less_mult_imp_div_less)
  have "?x div 256 ^ n = 64 * k + v div 256 ^ n"
    by (simp add: div_mult_self1 ac_simps flip: mult.assoc)
  define b :: u8 where "b = of_nat (?x div 256 ^ n)"
  have enc: "varint_encode k v = b # to_be n ?x"
    unfolding varint_encode_def p b_def by (simp add: n)
  have ub: "unat b = 64 * k + v div 256 ^ n"
    using vd k unfolding b_def \<open>?x div 256 ^ n = _\<close> by (simp add: unat_of_nat del: of_nat_add of_nat_mult)
  have "unat (drop_bit 6 b) = k"
    using vd by (simp add: drop_bit_eq_div unat_div ub)
  then have len: "varint_len b = 2 ^ k"
    by (simp add: varint_len_def)
  have "?x < 256 ^ (2 ^ k)"
  proof -
    have "?x < (k + 1) * (64 * 256 ^ n)"
      using v p by simp
    also have "\<dots> \<le> 4 * (64 * 256 ^ n)"
      using k by (intro mult_right_mono) simp_all
    finally show ?thesis by (simp add: n)
  qed
  then have "be_nat (varint_encode k v) = ?x"
    unfolding varint_encode_def p by (rule be_nat_to_be_id)
  moreover have "?x mod (64 * 256 ^ n) = v"
    using v p by simp
  moreover have "take (2 ^ k) (varint_encode k v @ rest) = varint_encode k v"
    by simp
  ultimately show ?thesis
    using VarInt_parse_spec [of "varint_encode k v @ rest"]
    by (simp add: enc len e n power_add power_mult del: be_nat.simps)
qed

lemma varint_encode_surj:
  assumes "data = b # bs" and "varint_len b \<le> length data"
  shows "\<exists>k v rest. k < 4 \<and> v < 2 ^ (8 * 2 ^ k - 2) \<and> data = varint_encode k v @ rest"
proof -
  define k where "k = unat (drop_bit 6 b)"
  define n where "n = (2::nat) ^ k - 1"
  let ?t = "take (2 ^ k) data"
  let ?m = "2 ^ (8 * 2 ^ k - 2) :: nat"
  have k: "k < 4"
    using drop_bit_6_cases [of b] by (auto simp: k_def)
  have n: "2 ^ k = Suc n"
    by (simp add: n_def)
  have m: "?m = 64 * 256 ^ n"
    by (simp add: n power_add power_mult)
  have lt: "length ?t = 2 ^ k"
    using assms(2) by (simp add: varint_len_def k_def)
  have bt: "be_nat ?t = unat b * 256 ^ n + be_nat (take n bs)"
    using lt by (simp add: assms(1) n min_def split: if_splits)
  have r: "be_nat (take n bs) < 256 ^ n"
    using be_nat_less [of "take n bs"] lt by (simp add: assms(1) n min_def split: if_splits)
  have "be_nat ?t div ?m = (be_nat ?t div 256 ^ n) div 64"
    unfolding m by (simp add: div_mult2_eq mult.commute [of 64])
  also have "be_nat ?t div 256 ^ n = unat b"
    using r unfolding bt by simp
  also have "unat b div 64 = k"
    by (simp add: k_def drop_bit_eq_div unat_div)
  finally have "be_nat ?t = k * ?m + be_nat ?t mod ?m"
    using div_mult_mod_eq [of "be_nat ?t" ?m] by simp
  then have "varint_encode k (be_nat ?t mod ?m) = to_be (length ?t) (be_nat ?t)"
    unfolding varint_encode_def by (simp only: lt)
  then have "varint_encode k (be_nat ?t mod ?m) = ?t"
    by (simp only: to_be_be_nat)
  then have "data = varint_encode k (be_nat ?t mod ?m) @ drop (2 ^ k) data"
    by simp
  with k show ?thesis
    by (intro exI [of _ k] exI [of _ "be_nat ?t mod ?m"] exI [of _ "drop (2 ^ k) data"]) simp
qed

lemma varint_value_u64:
  assumes "k < 4" and "v < 2 ^ (8 * 2 ^ k - 2)"
  shows "v < 2 ^ 62" "unat (of_nat v :: u64) = v"
proof -
  have "(2::nat) ^ k \<le> 2 ^ 3"
    using assms(1) by (intro power_increasing) auto
  then have "(2::nat) ^ (8 * 2 ^ k - 2) \<le> 2 ^ 62"
    by (intro power_increasing) auto
  with assms(2) show "v < 2 ^ 62"
    by simp
  then show "unat (of_nat v :: u64) = v"
    by (simp add: unat_of_nat)
qed

lemma CryptoFrame_parse_encode:
  assumes "k < 4" and "off < 2 ^ (8 * 2 ^ k - 2)"
    and "l < 4" and "length body < 2 ^ (8 * 2 ^ l - 2)"
  shows "CryptoFrame_parse (varint_encode k off @ varint_encode l (length body) @ body @ rest) =
    Ok \<lparr>CryptoFrame_stream_offset = off, CryptoFrame_data = body,
        CryptoFrame_encoded_len = 2 ^ k + 2 ^ l + length body\<rparr>"
proof -
  have "(2::nat) ^ k + 2 ^ l \<le> 2 ^ 3 + 2 ^ 3"
    using assms by (intro add_mono power_increasing) auto
  then have "2 ^ k + 2 ^ l + length body \<le> u64_max"
    using varint_value_u64(1) [OF assms(3,4)] by (simp add: u64_max_def)
  then show ?thesis
    using varint_value_u64(1) [OF assms(1,2)]
    by (simp add: CryptoFrame_parse_def Let_def VarInt_parse_encode assms
        varint_value_u64(2) [OF assms(1,2)] varint_value_u64(2) [OF assms(3,4)]
        wrapping_add_small usize_max_def u64_max_def)
qed

section \<open>The properties\<close>

text \<open>
  C16. \<open>VarInt::parse\<close> accepts exactly the byte strings that begin with an encoding of RFC 9000,
  section 16, in any of the four sizes, and then gives the encoded number and the size.
\<close>

theorem varint_parse_iff_encoding:
  "VarInt_parse data = Ok r \<longleftrightarrow>
     (\<exists>k v rest. k < 4 \<and> v < 2 ^ (8 * 2 ^ k - 2) \<and> data = varint_encode k v @ rest
       \<and> r = \<lparr>VarInt_value = of_nat v, VarInt_encoded_len = 2 ^ k\<rparr>)"
proof
  assume ok: "VarInt_parse data = Ok r"
  then obtain b bs where "data = b # bs" "varint_len b \<le> length data"
    by (auto simp: VarInt_parse_spec split: list.splits if_splits)
  then obtain k v rest where "k < 4" "v < 2 ^ (8 * 2 ^ k - 2)" "data = varint_encode k v @ rest"
    using varint_encode_surj by metis
  with ok show "\<exists>k v rest. k < 4 \<and> v < 2 ^ (8 * 2 ^ k - 2) \<and> data = varint_encode k v @ rest
       \<and> r = \<lparr>VarInt_value = of_nat v, VarInt_encoded_len = 2 ^ k\<rparr>"
    using VarInt_parse_encode by auto
qed (use VarInt_parse_encode in auto)

text \<open>
  C18. \<open>CryptoFrame::parse\<close> inverts the encoding of a CRYPTO frame, whatever size the two integers
  are encoded with and whatever follows the frame.
\<close>

theorem crypto_frame_round_trip:
  assumes "k < 4" and "off < 2 ^ (8 * 2 ^ k - 2)"
    and "l < 4" and "length body < 2 ^ (8 * 2 ^ l - 2)"
  shows "CryptoFrame_parse (varint_encode k off @ varint_encode l (length body) @ body @ rest) =
    Ok \<lparr>CryptoFrame_stream_offset = off, CryptoFrame_data = body,
        CryptoFrame_encoded_len = 2 ^ k + 2 ^ l + length body\<rparr>"
  using assms by (rule CryptoFrame_parse_encode)

theorem crypto_frame_round_trip_witness:
  "CryptoFrame_parse (varint_encode 1 1024 @ varint_encode 0 (length [0xAA, 0xBB, 0xCC :: u8])
      @ [0xAA, 0xBB, 0xCC] @ [0x00]) =
    Ok \<lparr>CryptoFrame_stream_offset = 1024, CryptoFrame_data = [0xAA, 0xBB, 0xCC],
        CryptoFrame_encoded_len = 6\<rparr>"
  using crypto_frame_round_trip [of 1 1024 0 "[0xAA, 0xBB, 0xCC]" "[0x00]"] by simp

text \<open>
  C19. On any bytes \<open>AckFrame::parse\<close> does not panic, and a frame it accepts stays inside the bytes:
  the number of ACK ranges kept in memory is bounded by the bytes consumed although the count field
  may claim up to \<open>2 ^ 62 - 1\<close>, and ECN counts are present exactly for the frame type with ECN.
\<close>

theorem ack_frame_parse_safe:
  "ensures (AckFrame_parse data ecn) (\<lambda>f.
     2 * length (AckFrame_ack_ranges f) + 4 \<le> AckFrame_encoded_len f
     \<and> AckFrame_encoded_len f \<le> length data
     \<and> (AckFrame_ecn_counts f \<noteq> None \<longleftrightarrow> ecn))"
  by (rule ensuresI) (auto dest: AckFrame_parse_Ok)

end
