(* ===== verification/Quic_Packet.thy ===== *)
theory Quic_Packet
  imports Quic
begin

text \<open>
  Initial packets of a QUIC client (\<open>g3-codec/src/quic/packet\<close>): the removal of header protection,
  the key derivation, the field parser of versions 1 and 2, and the loop that hands the frames of
  a decrypted payload to a consumer. OpenSSL is a parameter.
\<close>

section \<open>Initial packets\<close>

datatype 'x PacketParseError =
    TooSmall
  | NotLongHeader
  | InvalidLongPacketType
  | UnknownVersion u32
  | InvalidConnectionIdLength u8
  | InvalidTokenLength u64
  | InvalidLengthValue u64
  | CryptoError 'x
  | InvalidPacketNumberLength u8

abbreviation (input) LONG_PACKET_FIXED_LEN :: nat where
  "LONG_PACKET_FIXED_LEN \<equiv> 5"

abbreviation (input) MAX_PACKET_NUMBER_BYTES :: nat where
  "MAX_PACKET_NUMBER_BYTES \<equiv> 4"

record Header =
  Header_byte1 :: u8
  Header_packet_number_buf :: bytes
  Header_packet_number_len :: nat
  Header_packet_number :: u32

text \<open>The loop that fills the packet number buffer from the right.\<close>

primrec decode_long_loop ::
  "nat list \<Rightarrow> nat \<Rightarrow> bytes \<Rightarrow> bytes \<Rightarrow> bytes \<Rightarrow> (bytes, 'x PacketParseError) res" where
  "decode_long_loop [] n msk data buf = Ok buf"
| "decode_long_loop (i # is) n msk data buf =
     res_bind (index msk (i + 1)) (\<lambda>m.
     res_bind (index data i) (\<lambda>d.
     if MAX_PACKET_NUMBER_BYTES - n + i < length buf
     then decode_long_loop is n msk data (buf[MAX_PACKET_NUMBER_BYTES - n + i := m XOR d])
     else Panic))"

definition Header_decode_long ::
  "u8 \<Rightarrow> bytes \<Rightarrow> bytes \<Rightarrow> (Header, 'x PacketParseError) res" where
  "Header_decode_long byte1 msk data =
     res_bind (index msk 0) (\<lambda>mask0.
     let byte1_low_bits = (byte1 XOR mask0) AND 0x0F;
         real_byte1 = byte1_low_bits OR (byte1 AND 0xF0);
         packet_number_len = (byte1_low_bits AND 0x03) + 1
     in if MAX_PACKET_NUMBER_BYTES < unat packet_number_len
        then Err (InvalidPacketNumberLength packet_number_len)
        else
          res_bind (decode_long_loop [0..<unat packet_number_len] (unat packet_number_len) msk data
              (replicate MAX_PACKET_NUMBER_BYTES 0)) (\<lambda>buf.
          Ok \<lparr>Header_byte1 = real_byte1, Header_packet_number_buf = buf,
              Header_packet_number_len = unat packet_number_len,
              Header_packet_number = from_be buf\<rparr>))"

definition Header_packet_number_bytes :: "Header \<Rightarrow> (bytes, 'e) res" where
  "Header_packet_number_bytes self =
     slice_from (Header_packet_number_buf self) (MAX_PACKET_NUMBER_BYTES - Header_packet_number_len self)"

definition Header_xor_nonce :: "Header \<Rightarrow> bytes \<Rightarrow> (bytes, 'e) res" where
  "Header_xor_nonce self iv =
     res_bind (indices (Header_packet_number_buf self) [0, 1, 2, 3]) (\<lambda>pn.
     res_bind (indices iv [8, 9, 10, 11]) (\<lambda>v.
     Ok (iv[8 := v ! 0 XOR pn ! 0, 9 := v ! 1 XOR pn ! 1,
            10 := v ! 2 XOR pn ! 2, 11 := v ! 3 XOR pn ! 3])))"

lemma decode_long_loop_eq:
  assumes "n \<le> 4" and "length msk = 5" and "n \<le> length data"
  shows "j \<le> n \<Longrightarrow> length buf = 4 \<Longrightarrow>
    (decode_long_loop [j..<n] n msk data buf :: (bytes, 'x PacketParseError) res) =
     Ok (take (4 - n + j) buf @ map2 (XOR) (drop (j + 1) (take (n + 1) msk)) (drop j (take n data)))"
proof (induction "n - j" arbitrary: j buf)
  case 0
  then show ?case
    using assms by simp
next
  case (Suc k)
  then have j: "j < n" "k = n - Suc j" by auto
  let ?x = "msk ! (j + 1) XOR data ! j"
  let ?buf = "buf[4 - n + j := ?x]"
  have "(decode_long_loop [j..<n] n msk data buf :: (bytes, 'x PacketParseError) res)
      = decode_long_loop [Suc j..<n] n msk data ?buf"
    using assms j Suc.prems by (simp add: upt_conv_Cons)
  also have "\<dots> = Ok (take (4 - n + Suc j) ?buf
      @ map2 (XOR) (drop (Suc j + 1) (take (n + 1) msk)) (drop (Suc j) (take n data)))"
    using Suc.hyps(1) [of "Suc j" ?buf] j Suc.prems by simp
  also have "take (4 - n + Suc j) ?buf = take (4 - n + j) buf @ [?x]"
    using assms j Suc.prems by (simp add: take_Suc_conv_app_nth)
  also have "drop (j + 1) (take (n + 1) msk)
      = msk ! (j + 1) # drop (Suc j + 1) (take (n + 1) msk)"
    using assms j Cons_nth_drop_Suc [of "j + 1" "take (n + 1) msk"] by simp
  moreover have "drop j (take n data) = data ! j # drop (Suc j) (take n data)"
    using assms j Cons_nth_drop_Suc [of j "take n data"] by simp
  ultimately show ?case by simp
qed

lemma unat_and_0x03: "unat (w AND 0x03 :: u8) = unat w mod 4"
proof -
  have "w AND 0x03 = w mod 4"
    using take_bit_eq_mask [of 2 w] by (simp add: mask_eq_exp_minus_1 take_bit_eq_mod)
  then show ?thesis
    by (simp add: unat_mod)
qed

lemma decode_long_pn_len: "unat ((w AND 0x03) + 1 :: u8) = unat w mod 4 + 1"
  using unat_and_0x03 [of w] by (simp add: unat_word_ariths)

lemma and_0x0F_0x03: "(w AND 0x0F) AND 0x03 = (w AND 0x03 :: u8)"
  by (simp add: and.assoc)

lemma Header_decode_long_buf:
  assumes "length msk = 5" and "4 \<le> length data"
    and n: "n = unat (((byte1 XOR msk ! 0) AND 0x03) + 1)"
  shows "(Header_decode_long byte1 msk data :: (Header, 'x PacketParseError) res) =
    (let buf = replicate (4 - n) 0 @ map2 (XOR) (drop 1 (take (n + 1) msk)) (take n data) in
     Ok \<lparr>Header_byte1 = ((byte1 XOR msk ! 0) AND 0x0F) OR (byte1 AND 0xF0),
         Header_packet_number_buf = buf, Header_packet_number_len = n,
         Header_packet_number = from_be buf\<rparr>)"
proof -
  have b: "0 < n" "n \<le> 4"
    by (simp_all add: n decode_long_pn_len)
  have "(decode_long_loop [0..<n] n msk data (replicate 4 0) :: (bytes, 'x PacketParseError) res)
      = Ok (replicate (4 - n) 0 @ map2 (XOR) (drop 1 (take (n + 1) msk)) (take n data))"
    using decode_long_loop_eq [of n msk data 0 "replicate 4 0"] assms b by simp
  with assms b show ?thesis
    by (simp add: Header_decode_long_def Let_def and_0x0F_0x03)
qed

lemma Header_decode_long_ok:
  assumes "length msk = 5" and "4 \<le> length data"
  shows "\<exists>h. (Header_decode_long byte1 msk data :: (Header, 'x PacketParseError) res) = Ok h
    \<and> length (Header_packet_number_buf h) = 4
    \<and> 0 < Header_packet_number_len h \<and> Header_packet_number_len h \<le> 4"
proof -
  let ?n = "unat (((byte1 XOR msk ! 0) AND 0x03) + 1)"
  have "0 < ?n" "?n \<le> 4"
    by (simp_all add: decode_long_pn_len)
  then show ?thesis
    using assms by (simp add: Header_decode_long_buf [OF assms refl] Let_def)
qed

text \<open>Header protection (RFC 9001, section 5.4.1) as the sender applies it.\<close>

definition protect_byte1 :: "u8 \<Rightarrow> bytes \<Rightarrow> u8" where
  "protect_byte1 byte1 msk = byte1 XOR (msk ! 0 AND 0x0F)"

definition protect_pn :: "bytes \<Rightarrow> bytes \<Rightarrow> bytes" where
  "protect_pn pn msk = map2 (XOR) pn (take (length pn) (drop 1 msk))"

lemma unprotect_low: "((byte1 XOR (m AND 0x0F)) XOR m) AND 0x0F = (byte1 AND 0x0F :: u8)"
  by (rule bit_word_eqI) (auto simp: bit_simps)

lemma unprotect_low2: "((byte1 XOR (m AND 0x0F)) XOR m) AND 0x03 = (byte1 AND 0x03 :: u8)"
  by (metis and_0x0F_0x03 unprotect_low)

lemma unprotect_high: "(byte1 XOR (m AND 0x0F)) AND 0xF0 = (byte1 AND 0xF0 :: u8)"
proof -
  have "(m AND 0x0F) AND 0xF0 = (0 :: u8)"
    by (simp add: and.assoc)
  then show ?thesis
    by (simp add: bit.conj_xor_distrib2)
qed

lemma nibbles: "(byte1 AND 0x0F) OR (byte1 AND 0xF0) = (byte1 :: u8)"
proof -
  have "(byte1 AND 0x0F) OR (byte1 AND 0xF0) = byte1 AND (0x0F OR 0xF0)"
    by (simp only: bit.conj_disj_distrib)
  also have "0x0F OR 0xF0 = (-1 :: u8)"
    by simp
  finally show ?thesis by simp
qed

lemma map2_xor_cancel:
  "length xs = length ys \<Longrightarrow> map2 (XOR) ys (map2 (XOR) xs ys) = (xs :: bytes)"
proof (induction xs ys rule: list_induct2)
  case (Cons x xs y ys)
  have "y XOR (x XOR y) = x"
    by (metis xor.assoc xor.commute xor.right_neutral xor_self_eq)
  with Cons.IH show ?case by simp
qed simp

lemma header_protection_round_trip:
  assumes "length msk = 5" and "length pn = unat (byte1 AND 0x03) + 1" and "3 \<le> length rest"
  shows "(Header_decode_long (protect_byte1 byte1 msk) msk (protect_pn pn msk @ rest)
      :: (Header, 'x PacketParseError) res) =
    Ok \<lparr>Header_byte1 = byte1, Header_packet_number_buf = replicate (4 - length pn) 0 @ pn,
        Header_packet_number_len = length pn, Header_packet_number = from_be pn\<rparr>"
proof -
  have n: "unat (((protect_byte1 byte1 msk XOR msk ! 0) AND 0x03) + 1) = length pn"
    using assms(2) by (simp add: protect_byte1_def unprotect_low2 decode_long_pn_len unat_and_0x03)
  have l: "length pn \<le> 4" "0 < length pn"
    using assms(2) by (simp_all add: unat_and_0x03)
  have lp: "length (protect_pn pn msk) = length pn"
    using assms(1) l by (simp add: protect_pn_def)
  have m: "drop 1 (take (length pn + 1) msk) = take (length pn) (drop 1 msk)"
    by (simp add: drop_take)
  have "map2 (XOR) (take (length pn) (drop 1 msk)) (protect_pn pn msk) = pn"
    unfolding protect_pn_def using assms(1) l by (intro map2_xor_cancel) simp
  with lp m have "map2 (XOR) (drop 1 (take (length pn + 1) msk))
      (take (length pn) (protect_pn pn msk @ rest)) = pn"
    by simp
  moreover have "((protect_byte1 byte1 msk XOR msk ! 0) AND 0x0F) OR (protect_byte1 byte1 msk AND 0xF0) = byte1"
    by (simp only: protect_byte1_def unprotect_low unprotect_high nibbles)
  moreover have "from_be (replicate (4 - length pn) 0 @ pn) = (from_be pn :: u32)"
    by (simp add: from_be_def)
  moreover have "4 \<le> length (protect_pn pn msk @ rest)"
    using assms(3) lp l(2) by (simp del: length_greater_0_conv)
  ultimately show ?thesis
    by (simp only: Header_decode_long_buf [OF assms(1) _ refl] n Let_def)
qed

text \<open>
  The OpenSSL calls of \<open>packet/hkdf.rs\<close> and \<open>packet/aes.rs\<close>. \<open>hkdf\<close> gets the mode, the salt (in
  extract mode), the key, the info and the output length; \<open>aes_128_ecb\<close> the key, the input and the
  length of the output buffer; \<open>aes_128_gcm\<close> the key, the nonce, the associated data (the
  concatenation of the updates), the ciphertext, the tag and the length of the buffer of the final
  call. The results are the bytes the calls write.
\<close>

datatype HkdfMode = EXTRACT_THEN_EXPAND | EXPAND_ONLY

record 'x openssl =
  hkdf :: "HkdfMode \<Rightarrow> bytes option \<Rightarrow> bytes \<Rightarrow> bytes \<Rightarrow> nat \<Rightarrow> (bytes, 'x) res"
  aes_128_ecb :: "bytes \<Rightarrow> bytes \<Rightarrow> nat \<Rightarrow> (bytes, 'x) res"
  aes_128_gcm :: "bytes \<Rightarrow> bytes \<Rightarrow> bytes \<Rightarrow> bytes \<Rightarrow> bytes \<Rightarrow> nat \<Rightarrow> (bytes, 'x) res"

text \<open>A fixed-size array, zero at first, whose front a call overwrites.\<close>

definition fill_array :: "nat \<Rightarrow> bytes \<Rightarrow> bytes" where
  "fill_array n out = take n (out @ replicate n 0)"

definition build_info_from_label :: "bytes \<Rightarrow> nat \<Rightarrow> (bytes, 'x) res" where
  "build_info_from_label label output_len =
     (if 256 \<le> 6 + length label mod 256 then Panic
      else
        let label_len = 6 + length label mod 256 in
        res_bind (slice_to label (label_len - 6)) (\<lambda>l.
        Ok (to_be 2 output_len @ [of_nat label_len] @ ascii ''tls13 '' @ l @ [0])))"

definition quic_hkdf_extract_expand ::
  "'x openssl \<Rightarrow> bytes \<Rightarrow> bytes \<Rightarrow> bytes \<Rightarrow> nat \<Rightarrow> (bytes, 'x) res" where
  "quic_hkdf_extract_expand ssl salt ikm label output_len =
     res_bind (build_info_from_label label output_len) (\<lambda>info.
     res_bind (hkdf ssl EXTRACT_THEN_EXPAND (Some salt) ikm info output_len) (\<lambda>out.
     Ok (fill_array output_len out)))"

definition quic_hkdf_expand :: "'x openssl \<Rightarrow> bytes \<Rightarrow> bytes \<Rightarrow> nat \<Rightarrow> (bytes, 'x) res" where
  "quic_hkdf_expand ssl prk label output_len =
     res_bind (build_info_from_label label output_len) (\<lambda>info.
     res_bind (hkdf ssl EXPAND_ONLY None prk info output_len) (\<lambda>out.
     Ok (fill_array output_len out)))"

definition aes_ecb_mask :: "'x openssl \<Rightarrow> bytes \<Rightarrow> bytes \<Rightarrow> (bytes, 'x) res" where
  "aes_ecb_mask ssl key sample =
     res_bind (aes_128_ecb ssl key sample 32) (\<lambda>out.
     indices (fill_array 32 out) [0..<5])"

definition aes_gcm_decrypt ::
  "'x openssl \<Rightarrow> bytes \<Rightarrow> bytes \<Rightarrow> bytes list \<Rightarrow> bytes \<Rightarrow> bytes \<Rightarrow> (bytes, 'x) res" where
  "aes_gcm_decrypt ssl key iv aad_vec ciphertext tag =
     aes_128_gcm ssl key iv (concat aad_vec) ciphertext tag 16"

text \<open>
  What distinguishes version 1 from version 2: the long packet type bits, the salt and the key
  derivation labels.
\<close>

record quic_version =
  packet_type_bits :: u8
  initial_salt :: bytes
  label_key :: bytes
  label_iv :: bytes
  label_hp :: bytes

definition quic_v1 :: quic_version where
  "quic_v1 = \<lparr>packet_type_bits = 0x00,
     initial_salt = [0x38, 0x76, 0x2c, 0xf7, 0xf5, 0x59, 0x34, 0xb3, 0x4d, 0x17, 0x9a, 0xe6, 0xa4,
       0xc8, 0x0c, 0xad, 0xcc, 0xbb, 0x7f, 0x0a],
     label_key = ascii ''quic key'', label_iv = ascii ''quic iv'', label_hp = ascii ''quic hp''\<rparr>"

definition quic_v2 :: quic_version where
  "quic_v2 = \<lparr>packet_type_bits = 0x10,
     initial_salt = [0x0d, 0xed, 0xe3, 0xde, 0xf7, 0x00, 0xa6, 0xdb, 0x81, 0x93, 0x81, 0xbe, 0x6e,
       0x26, 0x9d, 0xcb, 0xf9, 0xbd, 0x2e, 0xd9],
     label_key = ascii ''quicv2 key'', label_iv = ascii ''quicv2 iv'',
     label_hp = ascii ''quicv2 hp''\<rparr>"

record ClientSecrets =
  ClientSecrets_key :: bytes
  ClientSecrets_iv :: bytes
  ClientSecrets_hp :: bytes

definition ClientSecrets_new ::
  "'x openssl \<Rightarrow> quic_version \<Rightarrow> bytes \<Rightarrow> (ClientSecrets, 'x) res" where
  "ClientSecrets_new ssl ver cid =
     res_bind (quic_hkdf_extract_expand ssl (initial_salt ver) cid (ascii ''client in'') 32) (\<lambda>secret.
     res_bind (quic_hkdf_expand ssl secret (label_key ver) 16) (\<lambda>key.
     res_bind (quic_hkdf_expand ssl secret (label_iv ver) 12) (\<lambda>iv.
     res_bind (quic_hkdf_expand ssl secret (label_hp ver) 16) (\<lambda>hp.
     Ok \<lparr>ClientSecrets_key = key, ClientSecrets_iv = iv, ClientSecrets_hp = hp\<rparr>))))"

record InitialPacketData =
  InitialPacket_packet_number :: u32
  InitialPacket_payload :: bytes

text \<open>
  The first half of \<open>parse_client\<close> walks over the unprotected fields and gives the destination
  connection id, the offset of the packet number and the length field. The sums of an offset and a
  variable-length integer cannot overflow: an offset is at most \<open>isize::MAX\<close> and the integer is
  below \<open>2 ^ 62\<close>.
\<close>

definition parse_client_fields ::
  "u8 \<Rightarrow> bytes \<Rightarrow> (bytes \<times> nat \<times> u64, 'x PacketParseError) res" where
  "parse_client_fields type_bits data =
     res_bind (index data 0) (\<lambda>byte1.
     if byte1 AND 0x30 \<noteq> type_bits then Err InvalidLongPacketType
     else
       let offset = LONG_PACKET_FIXED_LEN in
       res_bind (slice_from data offset) (\<lambda>left.
       if left = [] then Err TooSmall
       else
         res_bind (index left 0) (\<lambda>l0.
         let dst_cid_len = unat l0 in
         if 20 < dst_cid_len then res_bind (index data 0) (\<lambda>d0. Err (InvalidConnectionIdLength d0))
         else
           let start = offset + 1; stop = start + dst_cid_len in
           if length data < stop then Err TooSmall
           else
             res_bind (slice data start stop) (\<lambda>dst_cid.
             let offset = stop in
             res_bind (slice_from data offset) (\<lambda>left.
             if left = [] then Err TooSmall
             else
               res_bind (index left 0) (\<lambda>l0.
               let src_cid_len = unat l0 in
               res_bind (if 0 < src_cid_len then
                           (let offset = offset + (1 + src_cid_len) in
                            if length data < offset then Err TooSmall else Ok offset)
                         else Ok (offset + 1)) (\<lambda>offset.
               res_bind (slice_from data offset) (\<lambda>left.
               res_bind (map_err (\<lambda>_. TooSmall) (VarInt_parse left)) (\<lambda>token_len.
               let start = offset + VarInt_encoded_len token_len in
               if length data < start + unat (VarInt_value token_len)
               then Err (InvalidTokenLength (VarInt_value token_len))
               else
                 let offset = start + unat (VarInt_value token_len) in
                 res_bind (slice_from data offset) (\<lambda>left.
                 res_bind (map_err (\<lambda>_. TooSmall) (VarInt_parse left)) (\<lambda>len.
                 let offset = offset + VarInt_encoded_len len in
                 if offset + unat (VarInt_value len) \<noteq> length data
                 then Err (InvalidLengthValue (VarInt_value len))
                 else Ok (dst_cid, offset, VarInt_value len))))))))))))"

definition InitialPacket_parse_with ::
  "'x openssl \<Rightarrow> quic_version \<Rightarrow> bytes \<Rightarrow> (InitialPacketData, 'x PacketParseError) res" where
  "InitialPacket_parse_with ssl ver data =
     res_bind (parse_client_fields (packet_type_bits ver) data) (\<lambda>(dst_cid, pn_offset, len).
     res_bind (index data 0) (\<lambda>byte1.
     res_bind (slice_from data pn_offset) (\<lambda>left.
     if length left < 20 then Err (InvalidLengthValue len)
     else
       res_bind (slice left 4 20) (\<lambda>sample.
       res_bind (map_err CryptoError (ClientSecrets_new ssl ver dst_cid)) (\<lambda>secrets.
       res_bind (map_err CryptoError (aes_ecb_mask ssl (ClientSecrets_hp secrets) sample)) (\<lambda>msk.
       res_bind (Header_decode_long byte1 msk left) (\<lambda>header.
       res_bind (Header_xor_nonce header (ClientSecrets_iv secrets)) (\<lambda>iv.
       res_bind (slice data 1 pn_offset) (\<lambda>hdr.
       res_bind (Header_packet_number_bytes header) (\<lambda>pn_bytes.
       let aad_vec = [[Header_byte1 header], hdr, pn_bytes];
           tag_start = length left - 16
       in
       res_bind (slice left (Header_packet_number_len header) tag_start) (\<lambda>ciphertext.
       res_bind (slice_from left tag_start) (\<lambda>tag.
       res_bind (map_err CryptoError
           (aes_gcm_decrypt ssl (ClientSecrets_key secrets) iv aad_vec ciphertext tag)) (\<lambda>payload.
       Ok \<lparr>InitialPacket_packet_number = Header_packet_number header,
           InitialPacket_payload = payload\<rparr>)))))))))))))"

datatype InitialPacket = V1 InitialPacketData | V2 InitialPacketData

definition InitialPacketV1_parse_client ::
  "'x openssl \<Rightarrow> bytes \<Rightarrow> (InitialPacketData, 'x PacketParseError) res" where
  "InitialPacketV1_parse_client ssl data = InitialPacket_parse_with ssl quic_v1 data"

definition InitialPacketV2_parse_client ::
  "'x openssl \<Rightarrow> bytes \<Rightarrow> (InitialPacketData, 'x PacketParseError) res" where
  "InitialPacketV2_parse_client ssl data = InitialPacket_parse_with ssl quic_v2 data"

definition InitialPacket_parse_client ::
  "'x openssl \<Rightarrow> bytes \<Rightarrow> (InitialPacket, 'x PacketParseError) res" where
  "InitialPacket_parse_client ssl data =
     (if length data < LONG_PACKET_FIXED_LEN then Err TooSmall
      else
        res_bind (index data 0) (\<lambda>byte1.
        if byte1 AND 0xC0 \<noteq> 0xC0 then Err NotLongHeader
        else
          res_bind (indices data [1..<5]) (\<lambda>bs.
          let version = from_be bs :: u32 in
          if version = 0x00000001 then
            res_bind (InitialPacketV1_parse_client ssl data) (\<lambda>p. Ok (V1 p))
          else if version = 0x6b3343cf then
            res_bind (InitialPacketV2_parse_client ssl data) (\<lambda>p. Ok (V2 p))
          else Err (UnknownVersion version))))"

fun InitialPacket_packet_number_of :: "InitialPacket \<Rightarrow> u32" where
  "InitialPacket_packet_number_of (V1 p) = InitialPacket_packet_number p"
| "InitialPacket_packet_number_of (V2 p) = InitialPacket_packet_number p"

fun InitialPacket_payload_of :: "InitialPacket \<Rightarrow> bytes" where
  "InitialPacket_payload_of (V1 p) = InitialPacket_payload p"
| "InitialPacket_payload_of (V2 p) = InitialPacket_payload p"

section \<open>The packet parser does not panic\<close>

lemma length_fill_array [simp]: "length (fill_array n out) = n"
  by (simp add: fill_array_def)

lemma parse_client_fields_ensures [ensures_rules]:
  assumes "5 \<le> length data"
    and "\<And>dst_cid pn_offset len. length dst_cid \<le> 20 \<Longrightarrow> 5 < pn_offset \<Longrightarrow>
      pn_offset + unat len = length data \<Longrightarrow> Q (dst_cid, pn_offset, len)"
  shows "ensures (parse_client_fields tb data) Q"
  using assms unfolding parse_client_fields_def Let_def
  by (auto intro!: ensures_rules)

text \<open>
  What is relied on of the OpenSSL bindings, as they document it: lengths are passed as a C \<open>int\<close>; a
  cipher is set up with a key of at least its key length and an initialisation vector of at least
  its length; the output of a block cipher update has room for the input and one more block, that of
  the final call for a block. Within these limits failures are errors and not panics.
\<close>

abbreviation (input) c_int_fits :: "bytes \<Rightarrow> bool" where
  "c_int_fits bs \<equiv> length bs < 2 ^ 31"

locale openssl_bindings =
  fixes ssl :: "'x openssl"
  assumes hkdf_returns: "pred_option (\<lambda>s. c_int_fits s) salt \<Longrightarrow> c_int_fits key \<Longrightarrow> c_int_fits info
      \<Longrightarrow> no_panic (hkdf ssl mode salt key info n)"
    and ecb_returns: "16 \<le> length key \<Longrightarrow> c_int_fits inp \<Longrightarrow> length inp + 16 \<le> n
      \<Longrightarrow> no_panic (aes_128_ecb ssl key inp n)"
    and gcm_returns: "16 \<le> length key \<Longrightarrow> 12 \<le> length iv \<Longrightarrow> c_int_fits aad \<Longrightarrow> c_int_fits ct
      \<Longrightarrow> c_int_fits tag \<Longrightarrow> 16 \<le> n \<Longrightarrow> no_panic (aes_128_gcm ssl key iv aad ct tag n)"

lemma build_info_from_label_ok:
  "length label < 250 \<Longrightarrow> build_info_from_label label n =
     Ok (to_be 2 n @ [of_nat (6 + length label)] @ ascii ''tls13 '' @ label @ [0])"
  by (simp add: build_info_from_label_def Let_def del: of_nat_add)

lemma label_lengths [simp]:
  "ver \<in> {quic_v1, quic_v2} \<Longrightarrow> length (label_key ver) < 250"
  "ver \<in> {quic_v1, quic_v2} \<Longrightarrow> length (label_iv ver) < 250"
  "ver \<in> {quic_v1, quic_v2} \<Longrightarrow> length (label_hp ver) < 250"
  by (auto simp: quic_v1_def quic_v2_def)

lemma ClientSecrets_new_ensures [ensures_rules]:
  assumes "openssl_bindings ssl" and "ver \<in> {quic_v1, quic_v2}" and "length cid \<le> 20"
    and "\<And>s. length (ClientSecrets_key s) = 16 \<Longrightarrow> length (ClientSecrets_iv s) = 12
      \<Longrightarrow> length (ClientSecrets_hp s) = 16 \<Longrightarrow> Q s"
  shows "ensures (ClientSecrets_new ssl ver cid) Q"
proof -
  have salt: "length (initial_salt ver) = 20" using assms(2) by (auto simp: quic_v1_def quic_v2_def)
  note returns = openssl_bindings.hkdf_returns [OF assms(1)]
  show ?thesis
    unfolding ClientSecrets_new_def quic_hkdf_extract_expand_def quic_hkdf_expand_def
    using assms(3,4) label_lengths [OF assms(2)] salt
    by (auto simp: build_info_from_label_ok intro!: ensuresI returns)
qed

lemma aes_ecb_mask_ensures [ensures_rules]:
  "openssl_bindings ssl \<Longrightarrow> length key = 16 \<Longrightarrow> length sample = 16 \<Longrightarrow> (\<And>msk. length msk = 5 \<Longrightarrow> Q msk)
    \<Longrightarrow> ensures (aes_ecb_mask ssl key sample) Q"
  by (auto simp: aes_ecb_mask_def intro!: ensuresI openssl_bindings.ecb_returns)

lemma aes_gcm_decrypt_ensures [ensures_rules]:
  "openssl_bindings ssl \<Longrightarrow> length key = 16 \<Longrightarrow> length iv = 12 \<Longrightarrow> c_int_fits (concat aad) \<Longrightarrow> c_int_fits ct
    \<Longrightarrow> c_int_fits tag \<Longrightarrow> (\<And>out. Q out) \<Longrightarrow> ensures (aes_gcm_decrypt ssl key iv aad ct tag) Q"
  by (auto simp: aes_gcm_decrypt_def intro!: ensuresI openssl_bindings.gcm_returns)

lemma Header_decode_long_ensures [ensures_rules]:
  assumes "length msk = 5" and "4 \<le> length data"
    and "\<And>h. length (Header_packet_number_buf h) = 4 \<Longrightarrow> Header_packet_number_len h \<le> 4 \<Longrightarrow> Q h"
  shows "ensures (Header_decode_long byte1 msk data) Q"
  using Header_decode_long_ok [OF assms(1,2)] assms(3) by (metis ensures_simps(1))

lemma Header_xor_nonce_ensures [ensures_rules]:
  "length (Header_packet_number_buf h) = 4 \<Longrightarrow> length iv = 12 \<Longrightarrow>
   (\<And>iv'. length iv' = 12 \<Longrightarrow> Q iv') \<Longrightarrow> ensures (Header_xor_nonce h iv) Q"
  by (simp add: Header_xor_nonce_def)

lemma InitialPacket_parse_with_ensures [ensures_rules]:
  assumes "openssl_bindings ssl" and "ver \<in> {quic_v1, quic_v2}" and "5 \<le> length data" and "length data \<le> 65535"
    and "\<And>p. Q p"
  shows "ensures (InitialPacket_parse_with ssl ver data) Q"
  unfolding InitialPacket_parse_with_def Let_def Header_packet_number_bytes_def
  using assms by (auto intro!: ensures_rules)

section \<open>The frame loop (\<open>consume_frames\<close>)\<close>

text \<open>
  The consumer is any implementation of the trait \<open>FrameConsume\<close>: \<open>recv\<close> gives its next state and
  its result. \<open>consume_frame\<close> is the body of the loop; it gives the next offset.
\<close>

definition consume_frame ::
  "('c \<Rightarrow> CryptoFrame \<Rightarrow> 'c \<times> (unit, FrameParseError) res) \<Rightarrow> bytes \<Rightarrow> nat \<Rightarrow> 'c
    \<Rightarrow> 'c \<times> (nat, FrameParseError) res" where
  "consume_frame recv payload offset c =
     (case read_var_int payload offset of
        Err e \<Rightarrow> (c, Err e)
      | Panic \<Rightarrow> (c, Panic)
      | Ok (frame_type, offset1) \<Rightarrow>
          let v = VarInt_value frame_type in
          if v = 0x00 \<or> v = 0x01 then (c, Ok offset1)
          else if v = 0x02 \<or> v = 0x03 then
            (c, res_bind (slice_from payload offset1) (\<lambda>left.
                res_bind (AckFrame_parse left (v = 0x03)) (\<lambda>ack.
                Ok (offset1 + AckFrame_encoded_len ack))))
          else if v = 0x06 then
            (case res_bind (slice_from payload offset1) CryptoFrame_parse of
               Err e \<Rightarrow> (c, Err e)
             | Panic \<Rightarrow> (c, Panic)
             | Ok crypto \<Rightarrow>
                 (case recv c crypto of
                    (c', r) \<Rightarrow> (c', res_bind r (\<lambda>_. Ok (offset1 + CryptoFrame_encoded_len crypto)))))
          else (c, Err (InvalidFrameType v)))"

lemma consume_frame_progress:
  assumes "consume_frame recv payload offset c = (c', Ok offset')"
  shows "offset < offset' \<and> offset' \<le> length payload"
  using assms unfolding consume_frame_def Let_def
  by (auto simp: res_simps split: res.splits prod.splits if_splits
      dest!: read_var_int_Ok AckFrame_parse_Ok CryptoFrame_parse_Ok(1))

function consume_frames_loop ::
  "('c \<Rightarrow> CryptoFrame \<Rightarrow> 'c \<times> (unit, FrameParseError) res) \<Rightarrow> bytes \<Rightarrow> nat \<Rightarrow> 'c
    \<Rightarrow> 'c \<times> (unit, FrameParseError) res" where
  "consume_frames_loop recv payload offset c =
     (if length payload \<le> offset then (c, Ok ())
      else
        case consume_frame recv payload offset c of
          (c', Ok offset') \<Rightarrow> consume_frames_loop recv payload offset' c'
        | (c', Err e) \<Rightarrow> (c', Err e)
        | (c', Panic) \<Rightarrow> (c', Panic))"
  by pat_completeness auto
termination
  by (relation "measure (\<lambda>(recv, payload, offset, c). length payload - offset)")
    (auto dest!: consume_frame_progress [OF sym])

declare consume_frames_loop.simps [simp del]

definition InitialPacket_consume_frames ::
  "('c \<Rightarrow> CryptoFrame \<Rightarrow> 'c \<times> (unit, FrameParseError) res) \<Rightarrow> InitialPacket \<Rightarrow> 'c
    \<Rightarrow> 'c \<times> (unit, FrameParseError) res" where
  "InitialPacket_consume_frames recv self consumer =
     consume_frames_loop recv (InitialPacket_payload_of self) 0 consumer"

text \<open>
  The parsing half of the loop body, independent of the consumer: the next offset and the CRYPTO
  frame read, if it was one.
\<close>

definition next_frame :: "bytes \<Rightarrow> nat \<Rightarrow> (CryptoFrame option \<times> nat, FrameParseError) res" where
  "next_frame payload offset =
     res_bind (read_var_int payload offset) (\<lambda>(frame_type, offset1).
     let v = VarInt_value frame_type in
     if v = 0x00 \<or> v = 0x01 then Ok (None, offset1)
     else if v = 0x02 \<or> v = 0x03 then
       res_bind (slice_from payload offset1) (\<lambda>left.
       res_bind (AckFrame_parse left (v = 0x03)) (\<lambda>ack. Ok (None, offset1 + AckFrame_encoded_len ack)))
     else if v = 0x06 then
       res_bind (slice_from payload offset1) (\<lambda>left.
       res_bind (CryptoFrame_parse left) (\<lambda>f. Ok (Some f, offset1 + CryptoFrame_encoded_len f)))
     else Err (InvalidFrameType v))"

lemma consume_frame_next:
  "consume_frame recv payload offset c =
    (case next_frame payload offset of
       Err e \<Rightarrow> (c, Err e)
     | Panic \<Rightarrow> (c, Panic)
     | Ok (None, offset') \<Rightarrow> (c, Ok offset')
     | Ok (Some f, offset') \<Rightarrow> (case recv c f of (c', r) \<Rightarrow> (c', res_bind r (\<lambda>_. Ok offset'))))"
proof (cases "read_var_int payload offset")
  case (Ok p)
  obtain t o1 where p: "p = (t, o1)" by (cases p)
  with Ok have "o1 \<le> length payload"
    using read_var_int_Ok by blast
  with Ok p show ?thesis
    by (cases "AckFrame_parse (drop o1 payload) (VarInt_value t = 3)"; cases "CryptoFrame_parse (drop o1 payload)")
      (simp_all add: consume_frame_def next_frame_def Let_def)
qed (simp_all add: consume_frame_def next_frame_def)

lemma read_var_int_ensures [ensures_rules]:
  "off \<le> length data \<Longrightarrow>
   (\<And>v off'. off < off' \<Longrightarrow> off' \<le> length data \<Longrightarrow> off' \<le> off + 8 \<Longrightarrow> Q (v, off')) \<Longrightarrow>
   ensures (read_var_int data off) Q"
  by (rule ensuresI) (auto simp: read_var_int_no_panic dest!: read_var_int_Ok)

lemma AckFrame_parse_ensures [ensures_rules]:
  "(\<And>f. AckFrame_encoded_len f \<le> length data \<Longrightarrow> Q f) \<Longrightarrow> ensures (AckFrame_parse data ecn) Q"
  by (rule ensuresI) (auto dest!: AckFrame_parse_Ok)

lemma CryptoFrame_parse_ensures [ensures_rules]:
  "(\<And>f. CryptoFrame_encoded_len f \<le> length data \<Longrightarrow> CryptoFrame_stream_offset f < 2 ^ 62 \<Longrightarrow> Q f)
   \<Longrightarrow> ensures (CryptoFrame_parse data) Q"
  by (rule ensuresI) (simp, metis CryptoFrame_parse_Ok(1,3))

lemma next_frame_ensures:
  assumes "offset \<le> length payload"
  shows "ensures (next_frame payload offset) (\<lambda>(f, offset'). offset < offset' \<and> offset' \<le> length payload)"
  using assms unfolding next_frame_def Let_def
  by (auto intro!: ensures_rules)

lemma consume_frames_loop_step:
  "consume_frames_loop recv payload offset c =
    (if length payload \<le> offset then (c, Ok ())
     else case next_frame payload offset of
       Err e \<Rightarrow> (c, Err e)
     | Panic \<Rightarrow> (c, Panic)
     | Ok (None, offset') \<Rightarrow> consume_frames_loop recv payload offset' c
     | Ok (Some f, offset') \<Rightarrow>
         (case recv c f of
            (c', Ok _) \<Rightarrow> consume_frames_loop recv payload offset' c'
          | (c', Err e) \<Rightarrow> (c', Err e)
          | (c', Panic) \<Rightarrow> (c', Panic)))"
  by (subst consume_frames_loop.simps)
    (auto simp: consume_frame_next split: res.splits prod.splits option.splits)

lemma consume_frames_cases:
  assumes "offset \<le> length payload"
  obtains (err) e where "next_frame payload offset = Err e"
  | (skip) offset' where "next_frame payload offset = Ok (None, offset')" "offset < offset'" "offset' \<le> length payload"
  | (crypto) f offset' where "next_frame payload offset = Ok (Some f, offset')" "offset < offset'" "offset' \<le> length payload"
  using next_frame_ensures [OF assms]
  by (cases "next_frame payload offset") (auto, metis option.exhaust)

locale frame_consumer =
  fixes recv :: "'c \<Rightarrow> CryptoFrame \<Rightarrow> 'c \<times> (unit, FrameParseError) res" and inv :: "'c \<Rightarrow> bool"
  assumes recv_inv: "inv c \<Longrightarrow> inv (fst (recv c f))"
    and recv_no_panic: "inv c \<Longrightarrow> no_panic (snd (recv c f))"
begin

lemma loop_safe:
  "inv c \<Longrightarrow> inv (fst (consume_frames_loop recv payload offset c))
     \<and> no_panic (snd (consume_frames_loop recv payload offset c))"
proof (induction "length payload - offset" arbitrary: offset c rule: less_induct)
  case (less offset c)
  show ?case
  proof (cases "length payload \<le> offset")
    case True
    then show ?thesis using less.prems by (simp add: consume_frames_loop_step [of _ _ offset])
  next
    case False
    then have "offset \<le> length payload" by simp
    then show ?thesis
    proof (cases rule: consume_frames_cases)
      case (err e)
      then show ?thesis using less.prems by (simp add: consume_frames_loop_step [of _ _ offset])
    next
      case (skip offset')
      then show ?thesis
        using less.hyps [OF _ less.prems, of offset'] less.prems by (simp add: consume_frames_loop_step [of _ _ offset])
    next
      case (crypto f offset')
      then show ?thesis
        using less.hyps [OF _ recv_inv [OF less.prems], of offset' f] less.prems 
          recv_inv [OF less.prems, of f] recv_no_panic [OF less.prems, of f]
        by (auto simp: consume_frames_loop_step [of _ _ offset] split: prod.split res.split)
    qed
  qed
qed

end

section \<open>Frames on the wire\<close>

text \<open>
  The frames a client may send in an Initial packet, as RFC 9000, section 19, lays them out. An
  integer is its size exponent and its value; the type of a frame is an integer of any size too.
\<close>

type_synonym wire_int = "nat \<times> nat"

datatype wire_body =
    PADDING
  | PING
  | ACK wire_int wire_int nat wire_int "(wire_int \<times> wire_int) list" "(wire_int \<times> wire_int \<times> wire_int) option"
  | CRYPTO wire_int nat bytes

type_synonym wire_frame = "nat \<times> wire_body"

fun wire_int_ok :: "wire_int \<Rightarrow> bool" where
  "wire_int_ok (k, v) \<longleftrightarrow> k < 4 \<and> v < 2 ^ (8 * 2 ^ k - 2)"

fun encode_int :: "wire_int \<Rightarrow> bytes" where
  "encode_int (k, v) = varint_encode k v"

fun body_type :: "wire_body \<Rightarrow> nat" where
  "body_type PADDING = 0x00"
| "body_type PING = 0x01"
| "body_type (ACK largest delay count_size first ranges ecn) = (if ecn = None then 0x02 else 0x03)"
| "body_type (CRYPTO off len_size data) = 0x06"

definition encode_range :: "wire_int \<times> wire_int \<Rightarrow> bytes" where
  "encode_range r = encode_int (fst r) @ encode_int (snd r)"

definition encode_ecn :: "(wire_int \<times> wire_int \<times> wire_int) option \<Rightarrow> bytes" where
  "encode_ecn ecn = (case ecn of None \<Rightarrow> [] | Some (a, b, c) \<Rightarrow> encode_int a @ encode_int b @ encode_int c)"

fun encode_body :: "wire_body \<Rightarrow> bytes" where
  "encode_body PADDING = []"
| "encode_body PING = []"
| "encode_body (ACK largest delay count_size first ranges ecn) =
     encode_int largest @ encode_int delay @ encode_int (count_size, length ranges) @ encode_int first
       @ concat (map encode_range ranges) @ encode_ecn ecn"
| "encode_body (CRYPTO off len_size data) = encode_int off @ encode_int (len_size, length data) @ data"

fun wire_body_ok :: "wire_body \<Rightarrow> bool" where
  "wire_body_ok PADDING = True"
| "wire_body_ok PING = True"
| "wire_body_ok (ACK largest delay count_size first ranges ecn) \<longleftrightarrow>
     wire_int_ok largest \<and> wire_int_ok delay \<and> wire_int_ok (count_size, length ranges) \<and> wire_int_ok first
     \<and> list_all (\<lambda>(g, l). wire_int_ok g \<and> wire_int_ok l) ranges
     \<and> pred_option (\<lambda>(a, b, c). wire_int_ok a \<and> wire_int_ok b \<and> wire_int_ok c) ecn"
| "wire_body_ok (CRYPTO off len_size data) \<longleftrightarrow> wire_int_ok off \<and> wire_int_ok (len_size, length data)"

definition encode_frame :: "wire_frame \<Rightarrow> bytes" where
  "encode_frame f = encode_int (fst f, body_type (snd f)) @ encode_body (snd f)"

definition wire_frame_ok :: "wire_frame \<Rightarrow> bool" where
  "wire_frame_ok f \<longleftrightarrow> wire_int_ok (fst f, body_type (snd f)) \<and> wire_body_ok (snd f)"

fun body_crypto :: "wire_body \<Rightarrow> CryptoFrame option" where
  "body_crypto (CRYPTO off len_size data) =
     Some \<lparr>CryptoFrame_stream_offset = snd off, CryptoFrame_data = data,
           CryptoFrame_encoded_len = 2 ^ fst off + 2 ^ len_size + length data\<rparr>"
| "body_crypto b = None"

definition crypto_frames :: "wire_frame list \<Rightarrow> CryptoFrame list" where
  "crypto_frames fs = List.map_filter (\<lambda>f. body_crypto (snd f)) fs"

text \<open>The delivery of a list of frames to a consumer that stops at the first error; \<open>r\<close> comes last.\<close>

fun deliver ::
  "('c \<Rightarrow> CryptoFrame \<Rightarrow> 'c \<times> (unit, FrameParseError) res) \<Rightarrow> 'c
    \<Rightarrow> CryptoFrame list \<Rightarrow> (unit, FrameParseError) res \<Rightarrow> 'c \<times> (unit, FrameParseError) res" where
  "deliver recv c [] r = (c, r)"
| "deliver recv c (f # fs) r =
     (case recv c f of (c', Ok _) \<Rightarrow> deliver recv c' fs r | (c', Err e) \<Rightarrow> (c', Err e) | (c', Panic) \<Rightarrow> (c', Panic))"

text \<open>The bytes at an offset, and reading an integer there.\<close>

definition rest_at :: "bytes \<Rightarrow> nat \<Rightarrow> bytes \<Rightarrow> bool" where
  "rest_at data off bs \<longleftrightarrow> off \<le> length data \<and> drop off data = bs"

lemma rest_at_step: "rest_at data off (a @ b) \<Longrightarrow> n = length a \<Longrightarrow> rest_at data (off + n) b"
proof -
  assume *: "rest_at data off (a @ b)" "n = length a"
  then have "length data - off = length a + length b" by (metis length_append length_drop rest_at_def)
  moreover have "drop (off + n) data = b"
    using * by (metis add.commute append_eq_conv_conj drop_drop rest_at_def)
  ultimately show ?thesis using * by (auto simp: rest_at_def)
qed

definition parsed_int :: "wire_int \<Rightarrow> VarInt" where
  "parsed_int i = \<lparr>VarInt_value = of_nat (snd i), VarInt_encoded_len = 2 ^ fst i\<rparr>"

lemma parsed_int_value: "wire_int_ok i \<Longrightarrow> unat (VarInt_value (parsed_int i)) = snd i"
  using varint_value_u64(2) [of "fst i" "snd i"] by (cases i) (simp add: parsed_int_def)

lemma length_encode_int [simp]: "length (encode_int i) = 2 ^ fst i"
  by (cases i) simp

lemma VarInt_parse_wire: "wire_int_ok i \<Longrightarrow> VarInt_parse (encode_int i @ rest) = Ok (parsed_int i)"
  by (cases i) (simp add: VarInt_parse_encode parsed_int_def)

lemma read_var_int_wire:
  assumes "wire_int_ok i" and "rest_at data off (encode_int i @ rest)"
  shows "read_var_int data off = Ok (parsed_int i, off + 2 ^ fst i)" "rest_at data (off + 2 ^ fst i) rest"
  using assms rest_at_step [OF assms(2)] VarInt_parse_wire [OF assms(1), of rest]
  by (simp_all add: read_var_int_def rest_at_def parsed_int_def)

lemma AckRange_parse_wire:
  assumes "wire_int_ok g" "wire_int_ok l"
  shows "AckRange_parse (encode_range (g, l) @ rest) =
    Ok \<lparr>AckRange_gap = parsed_int g, AckRange_length = parsed_int l, AckRange_encoded_len = 2 ^ fst g + 2 ^ fst l\<rparr>"
  using VarInt_parse_wire [OF assms(1), of "encode_int l @ rest"] VarInt_parse_wire [OF assms(2), of rest]
  by (simp add: AckRange_parse_def encode_range_def Let_def parsed_int_def)

lemma EcnCounts_parse_wire:
  assumes "wire_int_ok a" "wire_int_ok b" "wire_int_ok c"
  shows "\<exists>counts. EcnCounts_parse (encode_int a @ encode_int b @ encode_int c @ rest) = Ok counts
    \<and> EcnCounts_encoded_len counts = 2 ^ fst a + 2 ^ fst b + 2 ^ fst c"
proof -
  let ?d = "encode_int a @ encode_int b @ encode_int c @ rest"
  have r0: "rest_at ?d 0 ?d" by (simp add: rest_at_def)
  note a = read_var_int_wire [OF assms(1) r0, unfolded add_0]
  note b = read_var_int_wire [OF assms(2) a(2)]
  note c = read_var_int_wire [OF assms(3) b(2)]
  show ?thesis by (simp add: EcnCounts_parse_def a(1) b(1) c(1))
qed

lemma ack_ranges_loop_wire:
  assumes "list_all (\<lambda>(g, l). wire_int_ok g \<and> wire_int_ok l) ranges"
    and "rest_at data off (concat (map encode_range ranges) @ rest)"
  shows "\<exists>rs. ack_ranges_loop (length ranges) data off acc
      = Ok (rs, off + length (concat (map encode_range ranges)))"
  using assms
proof (induction ranges arbitrary: off acc)
  case (Cons r ranges)
  obtain g l where r: "r = (g, l)" by (cases r)
  have at: "rest_at data off (encode_range r @ concat (map encode_range ranges) @ rest)"
    using Cons.prems(2) by simp
  have len: "length (encode_range r) = 2 ^ fst g + 2 ^ fst l" by (simp add: r encode_range_def)
  note after = rest_at_step [OF at len [symmetric]]
  have "slice_from data off = (Ok (encode_range r @ concat (map encode_range ranges) @ rest) :: (bytes, FrameParseError) res)"
    using at by (simp add: rest_at_def)
  then show ?case
    using Cons.IH [OF _ after] Cons.prems(1)
      AckRange_parse_wire [of g l "concat (map encode_range ranges) @ rest"] len
    by (simp add: r add.assoc)
qed simp

lemma AckFrame_parse_wire:
  assumes "wire_body_ok (ACK largest delay count_size first ranges ecn)"
  shows "\<exists>ack. AckFrame_parse (encode_body (ACK largest delay count_size first ranges ecn) @ rest) (ecn \<noteq> None) = Ok ack
    \<and> AckFrame_encoded_len ack = length (encode_body (ACK largest delay count_size first ranges ecn))"
proof -
  let ?count = "(count_size, length ranges)"
  let ?ranges = "concat (map encode_range ranges)"
  define data where "data = encode_body (ACK largest delay count_size first ranges ecn) @ rest"
  have "rest_at data 0 (encode_int largest @ encode_int delay @ encode_int ?count @ encode_int first @ ?ranges @ encode_ecn ecn @ rest)"
    by (simp add: rest_at_def data_def)
  note at = this
  have ok: "wire_int_ok largest" "wire_int_ok delay" "wire_int_ok ?count" "wire_int_ok first"
    "list_all (\<lambda>(g, l). wire_int_ok g \<and> wire_int_ok l) ranges"
    "pred_option (\<lambda>(a, b, c). wire_int_ok a \<and> wire_int_ok b \<and> wire_int_ok c) ecn"
    using assms by simp_all
  note 1 = read_var_int_wire [OF ok(1) at, unfolded add_0]
  note 2 = read_var_int_wire [OF ok(2) 1(2)]
  note 3 = read_var_int_wire [OF ok(3) 2(2), unfolded fst_conv]
  note 4 = read_var_int_wire [OF ok(4) 3(2)]
  let ?off = "2 ^ fst largest + 2 ^ fst delay + 2 ^ count_size + 2 ^ fst first"
  obtain rs where rs: "ack_ranges_loop (length ranges) data ?off [] = Ok (rs, ?off + length ?ranges)"
    using ack_ranges_loop_wire [OF ok(5) 4(2)] by blast
  note at5 = rest_at_step [OF 4(2) refl]
  have count: "unat (VarInt_value (parsed_int ?count)) = length ranges"
    using parsed_int_value [OF ok(3)] by simp
  note parse = AckFrame_parse_def [of data] 1(1) 2(1) 3(1) 4(1)
    count rs
  show ?thesis
  proof (cases ecn)
    case None
    then show ?thesis unfolding data_def [symmetric] by (simp add: parse encode_ecn_def)
  next
    case (Some e)
    obtain a b c where e: "e = (a, b, c)" by (cases e)
    obtain counts where counts: "EcnCounts_parse (encode_int a @ encode_int b @ encode_int c @ rest) = Ok counts"
        "EcnCounts_encoded_len counts = 2 ^ fst a + 2 ^ fst b + 2 ^ fst c"
      using EcnCounts_parse_wire [of a b c rest] ok(6) by (auto simp: Some e)
    have "slice_from data (?off + length ?ranges)
        = (Ok (encode_int a @ encode_int b @ encode_int c @ rest) :: (bytes, FrameParseError) res)"
      using at5 by (simp add: rest_at_def encode_ecn_def Some e)
    then show ?thesis
      using Some e counts unfolding data_def [symmetric] by (simp add: parse encode_ecn_def)
  qed
qed

lemma next_frame_wire:
  assumes "wire_frame_ok f" and "rest_at payload off (encode_frame f @ rest)"
  shows "next_frame payload off = Ok (body_crypto (snd f), off + length (encode_frame f))"
proof -
  obtain k b where f: "f = (k, b)" by (cases f)
  let ?t = "(k, body_type b)"
  have ok: "wire_int_ok ?t" "wire_body_ok b" using assms(1) by (simp_all add: wire_frame_ok_def f)
  have "rest_at payload off (encode_int ?t @ encode_body b @ rest)"
    using assms(2) by (simp add: encode_frame_def f)
  note t = read_var_int_wire [OF ok(1) this]
  have v: "VarInt_value (parsed_int ?t) = of_nat (body_type b)" by (simp add: parsed_int_def)
  have left: "slice_from payload (off + 2 ^ fst ?t) = (Ok (encode_body b @ rest) :: (bytes, FrameParseError) res)"
    using t(2) by (simp add: rest_at_def)
  have len: "length (encode_frame f) = 2 ^ k + length (encode_body b)" by (simp add: encode_frame_def f)
  show ?thesis
  proof (cases b)
    case (ACK largest delay count_size first ranges ecn)
    obtain ack where ack: "AckFrame_parse (encode_body b @ rest) (ecn \<noteq> None) = Ok ack"
        "AckFrame_encoded_len ack = length (encode_body b)"
      using AckFrame_parse_wire [OF ok(2) [unfolded ACK], of rest] unfolding ACK by blast
    have "(VarInt_value (parsed_int ?t) = 0x03) = (ecn \<noteq> None)"
      by (cases ecn) (simp_all add: parsed_int_def ACK)
    then show ?thesis
      using ack left t(1) v len by (simp add: next_frame_def Let_def f ACK split: if_splits del: encode_body.simps)
  next
    case (CRYPTO o' len_size data)
    obtain ko vo where o': "o' = (ko, vo)" by (cases o')
    have "CryptoFrame_parse (encode_body b @ rest) = Ok \<lparr>CryptoFrame_stream_offset = vo, CryptoFrame_data = data,
        CryptoFrame_encoded_len = 2 ^ ko + 2 ^ len_size + length data\<rparr>"
      using CryptoFrame_parse_encode [of ko vo len_size data rest] ok(2) by (simp add: CRYPTO o')
    then show ?thesis
      using left t(1) v len by (simp add: next_frame_def Let_def f CRYPTO o')
  qed (use t(1) v len in \<open>simp_all add: next_frame_def Let_def f\<close>)
qed

lemma consume_frames_loop_wire:
  assumes "\<forall>f\<in>set fs. wire_frame_ok f" and "rest_at payload off (concat (map encode_frame fs) @ rest)"
    and "\<And>c off. rest_at payload off rest \<Longrightarrow> consume_frames_loop recv payload off c = (c, r)"
  shows "consume_frames_loop recv payload off c = deliver recv c (crypto_frames fs) r"
  using assms(1,2)
proof (induction fs arbitrary: off c)
  case Nil
  then show ?case using assms(3) by (simp add: crypto_frames_def map_filter_simps)
next
  case (Cons f fs)
  have at: "rest_at payload off (encode_frame f @ concat (map encode_frame fs) @ rest)"
    using Cons.prems(2) by simp
  note at' = rest_at_step [OF at refl]
  have "0 < length (encode_frame f)" by (simp add: encode_frame_def)
  moreover have "off + length (encode_frame f) \<le> length payload" using at' by (simp add: rest_at_def)
  ultimately have "off < length payload" by linarith
  then show ?case
    using next_frame_wire [OF _ at] Cons.IH [OF _ at'] Cons.prems(1)
    by (subst consume_frames_loop_step)
      (auto simp: crypto_frames_def map_filter_simps split: option.split res.split prod.split)
qed

section \<open>Sealed packets\<close>

text \<open>
  A client's Initial packet as RFC 9000 and RFC 9001 lay it out: the long header in the clear, then
  the packet number, the ciphertext and the tag, with header protection applied.
\<close>

definition initial_header ::
  "u8 \<Rightarrow> bytes \<Rightarrow> bytes \<Rightarrow> bytes \<Rightarrow> nat \<Rightarrow> bytes \<Rightarrow> nat \<Rightarrow> nat \<Rightarrow> bytes" where
  "initial_header byte1 version dcid scid kt token kl body_len =
     byte1 # version @ of_nat (length dcid) # dcid @ of_nat (length scid) # scid
       @ varint_encode kt (length token) @ token @ varint_encode kl body_len"

definition packet_nonce :: "bytes \<Rightarrow> bytes \<Rightarrow> bytes" where
  "packet_nonce iv pn = map2 (XOR) iv (replicate (12 - length pn) 0 @ pn)"

lemma parse_client_fields_initial_header:
  assumes "length version = 4" and "byte1 AND 0x30 = tb" and "length dcid \<le> 20" and "length scid < 256"
    and "kt < 4" and "length token < 2 ^ (8 * 2 ^ kt - 2)"
    and "kl < 4" and "length body < 2 ^ (8 * 2 ^ kl - 2)"
  shows "parse_client_fields tb (initial_header byte1 version dcid scid kt token kl (length body) @ body)
    = Ok (dcid, length (initial_header byte1 version dcid scid kt token kl (length body)),
        of_nat (length body))"
proof -
  obtain v0 v1 v2 v3 where v: "version = [v0, v1, v2, v3]"
    using assms(1) by (auto simp: numeral_eq_Suc length_Suc_conv)
  have e62: "(2::nat) ^ (8 * 2 ^ k - 2) \<le> 2 ^ 62" if "k < 4" for k
  proof -
    have "(2::nat) ^ k \<le> 2 ^ 3"
      using that by (intro power_increasing) auto
    then show ?thesis
      by (intro power_increasing) auto
  qed
  have t: "unat (of_nat (length token) :: u64) = length token"
    using assms(6) e62 [OF assms(5)] by (simp add: unat_of_nat)
  have b: "unat (of_nat (length body) :: u64) = length body"
    using assms(8) e62 [OF assms(7)] by (simp add: unat_of_nat)
  have c: "unat (of_nat (length dcid) :: u8) = length dcid" "unat (of_nat (length scid) :: u8) = length scid"
    using assms(3,4) by (simp_all add: unat_of_nat)
  let ?tail = "varint_encode kl (length body) @ body"
  let ?d = "initial_header byte1 version dcid scid kt token kl (length body) @ body"
  have "drop (7 + (length dcid + length scid)) ?d = varint_encode kt (length token) @ token @ ?tail"
    "drop (7 + (length dcid + (length scid + (2 ^ kt + length token)))) ?d = ?tail"
    by (simp_all add: initial_header_def v drop_Cons')
  then show ?thesis
    using assms(2-4)
    by (cases "scid = []") (simp_all add: parse_client_fields_def initial_header_def v Let_def c t b
        VarInt_parse_encode [OF assms(5,6)] VarInt_parse_encode [OF assms(7,8)] nth_append add.assoc)
qed

lemma Header_xor_nonce_packet_nonce:
  assumes iv: "length iv = 12" and pn: "length pn \<le> 4"
    and h: "Header_packet_number_buf h = replicate (4 - length pn) 0 @ pn"
  shows "Header_xor_nonce h iv = Ok (packet_nonce iv pn)"
proof -
  obtain i0 i1 i2 i3 i4 i5 i6 i7 i8 i9 i10 i11 where i: "iv = [i0, i1, i2, i3, i4, i5, i6, i7, i8, i9, i10, i11]"
    using iv by (auto simp: numeral_eq_Suc length_Suc_conv)
  define buf where "buf = replicate (4 - length pn) 0 @ pn"
  have "replicate (12 - length pn) 0 @ pn = replicate 8 0 @ buf"
    using pn by (simp add: buf_def flip: append_assoc replicate_add)
  moreover have "length buf = 4"
    using pn by (simp add: buf_def)
  then obtain b0 b1 b2 b3 where "buf = [b0, b1, b2, b3]"
    by (auto simp: numeral_eq_Suc length_Suc_conv)
  ultimately show ?thesis
    using h by (simp add: Header_xor_nonce_def packet_nonce_def i buf_def numeral_eq_Suc)
qed

lemma protect_byte1_high: "protect_byte1 byte1 msk AND 0xF0 = byte1 AND 0xF0"
  by (simp only: protect_byte1_def unprotect_high)

lemma and_0xF0: "w AND 0x30 = (w AND 0xF0) AND 0x30" "w AND 0xC0 = (w AND 0xF0) AND (0xC0 :: u8)"
  by (simp_all add: and.assoc)

lemma InitialPacket_parse_with_sealed:
  assumes ver: "length version = 4"
    and byte1: "byte1 AND 0xF0 = 0xC0 OR packet_type_bits ver" "packet_type_bits ver \<in> {0x00, 0x10}"
    and pn: "length pn = unat (byte1 AND 0x03) + 1"
    and sizes: "length dcid \<le> 20" "length scid < 256"
    and kt: "kt < 4" "length token < 2 ^ (8 * 2 ^ kt - 2)"
    and kl: "kl < 4" "length (pn @ ct @ tag) < 2 ^ (8 * 2 ^ kl - 2)"
    and tag: "length tag = 16" "20 \<le> length (pn @ ct @ tag)"
    and secrets: "ClientSecrets_new ssl ver dcid = Ok secrets"
    and msk: "aes_ecb_mask ssl (ClientSecrets_hp secrets)
        (take 16 (drop (4 - length pn) (ct @ tag))) = Ok msk"
    and open_ok: "aes_128_gcm ssl (ClientSecrets_key secrets) (packet_nonce (ClientSecrets_iv secrets) pn)
        (initial_header byte1 version dcid scid kt token kl (length (pn @ ct @ tag)) @ pn) ct tag 16 = Ok payload"
  shows "InitialPacket_parse_with ssl ver
      (initial_header (protect_byte1 byte1 msk) version dcid scid kt token kl (length (pn @ ct @ tag))
        @ protect_pn pn msk @ ct @ tag) =
    Ok \<lparr>InitialPacket_packet_number = from_be pn, InitialPacket_payload = payload\<rparr>"
proof -
  have m5: "length msk = 5"
    using msk by (auto simp: aes_ecb_mask_def res_simps)
  have iv: "length (ClientSecrets_iv secrets) = 12"
    using secrets by (auto simp: ClientSecrets_new_def quic_hkdf_expand_def res_simps)
  have l: "0 < length pn" "length pn \<le> 4"
    using pn by (simp_all add: unat_and_0x03)
  have lp: "length (protect_pn pn msk) = length pn"
    using m5 l by (simp add: protect_pn_def)
  define body where "body = protect_pn pn msk @ ct @ tag"
  have lb: "length (pn @ ct @ tag) = length body"
    by (simp add: body_def lp)
  have tb: "protect_byte1 byte1 msk AND 0x30 = packet_type_bits ver"
    using byte1 by (auto simp: and_0xF0(1) [of "protect_byte1 byte1 msk"] protect_byte1_high)
  note fields = parse_client_fields_initial_header
    [OF ver tb sizes kt kl(1) kl(2) [unfolded lb], folded lb, unfolded lb]
  have sample: "take 16 (drop (4 - length pn) (ct @ tag)) = take 16 (drop 4 body)"
    using l by (simp add: body_def lp)
  have dec: "Header_decode_long (protect_byte1 byte1 msk) msk body =
    (Ok \<lparr>Header_byte1 = byte1, Header_packet_number_buf = replicate (4 - length pn) 0 @ pn,
        Header_packet_number_len = length pn, Header_packet_number = from_be pn\<rparr> :: (Header, 'a PacketParseError) res)"
    unfolding body_def using tag by (intro header_protection_round_trip [OF m5 pn]) simp
  let ?hdr = "\<lambda>b. initial_header b version dcid scid kt token kl (length body)"
  have l20: "\<not> length body < 20"
    using tag(2) lb by simp
  define H where "H = tl (?hdr byte1)"
  have hdr: "?hdr b = b # H" for b
    by (simp add: H_def initial_header_def)
  have parts: "take (length body - (16 + length pn)) (drop (length pn) body) = ct"
    "drop (length body - 16) body = tag"
    using tag(1) by (simp_all add: body_def lp)
  note nonce = Header_xor_nonce_packet_nonce [OF iv l(2)]
  show ?thesis
    unfolding body_def [symmetric] lb InitialPacket_parse_with_def fields
    using l20 l secrets msk [unfolded sample] open_ok [unfolded lb]
    by (simp add: hdr dec nonce parts Header_packet_number_bytes_def aes_gcm_decrypt_def Let_def)
qed

lemma InitialPacket_parse_client_with:
  assumes "(vno, ver, mk) \<in> {(0x00000001, quic_v1, V1), (0x6b3343cf, quic_v2, V2)}"
    and "byte1 AND 0xC0 = 0xC0"
  shows "InitialPacket_parse_client ssl (byte1 # to_be 4 vno @ rest) =
    res_bind (InitialPacket_parse_with ssl ver (byte1 # to_be 4 vno @ rest)) (\<lambda>p. Ok (mk p))"
proof -
  have "from_be (to_be 4 vno) = (of_nat vno :: u32)"
    using assms(1) by (auto simp: from_be_def be_nat_to_be)
  moreover have "indices (byte1 # to_be 4 vno @ rest) [1..<5] = Ok (to_be 4 vno)"
    by (simp del: indices.simps upt.simps)
  ultimately show ?thesis
    using assms by (auto simp: InitialPacket_parse_client_def InitialPacketV1_parse_client_def
        InitialPacketV2_parse_client_def Let_def simp del: indices.simps)
qed

text \<open>
  The sender of RFC 9001 and RFC 9369. Its primitives are the two halves of HKDF with SHA-256, one
  block of AES-128, and AES-128-GCM, which gives the ciphertext and the tag. The constants of the two
  versions are those of RFC 9001, section 5.2 and RFC 9369, section 3; a salt is written as one number.
\<close>

record rfc_primitives =
  hkdf_extract :: "bytes \<Rightarrow> bytes \<Rightarrow> bytes"
  hkdf_expand :: "bytes \<Rightarrow> bytes \<Rightarrow> nat \<Rightarrow> bytes"
  aes_ecb :: "bytes \<Rightarrow> bytes \<Rightarrow> bytes"
  gcm_seal :: "bytes \<Rightarrow> bytes \<Rightarrow> bytes \<Rightarrow> bytes \<Rightarrow> bytes \<times> bytes"

datatype rfc_version = QUIC_v1 | QUIC_v2

fun rfc_version_number :: "rfc_version \<Rightarrow> nat" where
  "rfc_version_number QUIC_v1 = 0x00000001"
| "rfc_version_number QUIC_v2 = 0x6b3343cf"

fun rfc_initial_type :: "rfc_version \<Rightarrow> nat" where
  "rfc_initial_type QUIC_v1 = 0"
| "rfc_initial_type QUIC_v2 = 1"

fun rfc_initial_salt :: "rfc_version \<Rightarrow> nat" where
  "rfc_initial_salt QUIC_v1 = 0x38762cf7f55934b34d179ae6a4c80cadccbb7f0a"
| "rfc_initial_salt QUIC_v2 = 0x0dede3def700a6db819381be6e269dcbf9bd2ed9"

fun rfc_label :: "rfc_version \<Rightarrow> string \<Rightarrow> bytes" where
  "rfc_label QUIC_v1 s = ascii (''quic '' @ s)"
| "rfc_label QUIC_v2 s = ascii (''quicv2 '' @ s)"

text \<open>HKDF-Expand-Label (RFC 8446, section 7.1) with an empty context.\<close>

definition expand_label :: "rfc_primitives \<Rightarrow> bytes \<Rightarrow> bytes \<Rightarrow> nat \<Rightarrow> bytes" where
  "expand_label P secret label n =
     (let full = ascii ''tls13 '' @ label
      in hkdf_expand P secret (to_be 2 n @ of_nat (length full) # full @ [0]) n)"

definition client_initial_secret :: "rfc_primitives \<Rightarrow> rfc_version \<Rightarrow> bytes \<Rightarrow> bytes" where
  "client_initial_secret P v dcid =
     expand_label P (hkdf_extract P (to_be 20 (rfc_initial_salt v)) dcid) (ascii ''client in'') 32"

text \<open>A client's Initial packet: its fields, the sizes of the two length fields and the reserved bits.\<close>

record client_initial =
  CI_dcid :: bytes
  CI_scid :: bytes
  CI_token_size :: nat
  CI_token :: bytes
  CI_length_size :: nat
  CI_reserved :: nat
  CI_packet_number :: bytes
  CI_payload :: bytes

definition client_initial_ok :: "client_initial \<Rightarrow> bool" where
  "client_initial_ok p \<longleftrightarrow>
     length (CI_dcid p) \<le> 20 \<and> length (CI_scid p) < 256
     \<and> wire_int_ok (CI_token_size p, length (CI_token p))
     \<and> wire_int_ok (CI_length_size p, length (CI_packet_number p) + length (CI_payload p) + 16)
     \<and> CI_reserved p < 4 \<and> length (CI_packet_number p) \<in> {1, 2, 3, 4}
     \<and> 4 \<le> length (CI_packet_number p) + length (CI_payload p)"

definition seal_initial :: "rfc_primitives \<Rightarrow> rfc_version \<Rightarrow> client_initial \<Rightarrow> bytes" where
  "seal_initial P v p =
     (let secret = client_initial_secret P v (CI_dcid p);
          key = expand_label P secret (rfc_label v ''key'') 16;
          iv = expand_label P secret (rfc_label v ''iv'') 12;
          hp = expand_label P secret (rfc_label v ''hp'') 16;
          pn = CI_packet_number p;
          byte1 = of_nat (0xC0 + 16 * rfc_initial_type v + 4 * CI_reserved p + (length pn - 1));
          header = (\<lambda>b. initial_header b (to_be 4 (rfc_version_number v)) (CI_dcid p) (CI_scid p)
                     (CI_token_size p) (CI_token p) (CI_length_size p) (length pn + length (CI_payload p) + 16));
          (ct, tag) = gcm_seal P key (packet_nonce iv pn) (header byte1 @ pn) (CI_payload p);
          msk = aes_ecb P hp (take 16 (drop (4 - length pn) (ct @ tag)))
      in header (protect_byte1 byte1 msk) @ protect_pn pn msk @ ct @ tag)"

text \<open>That OpenSSL computes the primitives, for the lengths the code uses.\<close>

locale openssl_computes =
  fixes ssl :: "'x openssl" and P :: rfc_primitives
  assumes extract_expand: "n \<le> 8160 \<Longrightarrow>
      hkdf ssl EXTRACT_THEN_EXPAND (Some salt) key info n = Ok (hkdf_expand P (hkdf_extract P salt key) info n)"
    and expand: "n \<le> 8160 \<Longrightarrow> hkdf ssl EXPAND_ONLY None key info n = Ok (hkdf_expand P key info n)"
    and expand_length: "n \<le> 8160 \<Longrightarrow> length (hkdf_expand P key info n) = n"
    and ecb: "length key = 16 \<Longrightarrow> length block = 16 \<Longrightarrow> 32 \<le> n \<Longrightarrow>
      aes_128_ecb ssl key block n = Ok (aes_ecb P key block)"
    and ecb_length: "length key = 16 \<Longrightarrow> length block = 16 \<Longrightarrow> length (aes_ecb P key block) = 16"
    and gcm: "length key = 16 \<Longrightarrow> length iv = 12 \<Longrightarrow> gcm_seal P key iv aad text = (ct, tag) \<Longrightarrow> 16 \<le> n \<Longrightarrow>
      aes_128_gcm ssl key iv aad ct tag n = Ok text"
    and gcm_length: "length key = 16 \<Longrightarrow> length iv = 12 \<Longrightarrow> gcm_seal P key iv aad text = (ct, tag) \<Longrightarrow>
      length ct = length text \<and> length tag = 16"
begin

lemma expand_label_code:
  assumes "length label < 250" and "n \<le> 8160"
  shows "quic_hkdf_expand ssl secret label n = Ok (expand_label P secret label n)"
    "quic_hkdf_extract_expand ssl salt ikm label n = Ok (expand_label P (hkdf_extract P salt ikm) label n)"
    "length (expand_label P secret label n) = n"
  using assms expand_length [OF assms(2)]
  by (simp_all add: quic_hkdf_expand_def quic_hkdf_extract_expand_def build_info_from_label_ok expand
      extract_expand expand_label_def fill_array_def add.commute)

end

fun coded_version :: "rfc_version \<Rightarrow> quic_version" where
  "coded_version QUIC_v1 = quic_v1"
| "coded_version QUIC_v2 = quic_v2"

fun coded_packet :: "rfc_version \<Rightarrow> InitialPacketData \<Rightarrow> InitialPacket" where
  "coded_packet QUIC_v1 = V1"
| "coded_packet QUIC_v2 = V2"

lemma coded_constants:
  "initial_salt (coded_version v) = to_be 20 (rfc_initial_salt v)"
  "label_key (coded_version v) = rfc_label v ''key''" "label_iv (coded_version v) = rfc_label v ''iv''"
  "label_hp (coded_version v) = rfc_label v ''hp''"
  "packet_type_bits (coded_version v) = of_nat (16 * rfc_initial_type v)"
proof -
  have "be_nat (initial_salt (coded_version v)) = rfc_initial_salt v" "length (initial_salt (coded_version v)) = 20"
    by (cases v; simp add: quic_v1_def quic_v2_def)+
  then show "initial_salt (coded_version v) = to_be 20 (rfc_initial_salt v)"
    using to_be_be_nat [of "initial_salt (coded_version v)"] by simp
qed (cases v; simp add: quic_v1_def quic_v2_def)+

lemma rfc_label_length [simp]:
  "length s < 10 \<Longrightarrow> length (rfc_label v s) < 250"
  by (cases v) simp_all

lemma rfc_byte1:
  assumes "n \<in> {1, 2, 3, 4}" and "r < 4"
    and "byte1 = (of_nat (0xC0 + 16 * rfc_initial_type v + 4 * r + (n - 1)) :: u8)"
  shows "byte1 AND 0xF0 = 0xC0 OR packet_type_bits (coded_version v)"
    and "n = unat (byte1 AND 0x03) + 1"
proof -
  have "r \<in> {0, 1, 2, 3}" using assms(2) by auto
  then show "byte1 AND 0xF0 = 0xC0 OR packet_type_bits (coded_version v)" "n = unat (byte1 AND 0x03) + 1"
    using assms(1) unfolding assms(3) by (cases v; auto simp: quic_v1_def quic_v2_def)+
qed

lemma protect_first_bytes:
  "length msk = 16 \<Longrightarrow> protect_byte1 b (take 5 msk) = protect_byte1 b msk"
  "length pn \<le> 4 \<Longrightarrow> protect_pn pn (take 5 msk) = protect_pn pn msk"
  by (simp_all add: protect_byte1_def protect_pn_def drop_take min_def)

context openssl_computes
begin

lemma client_secrets_rfc:
  "ClientSecrets_new ssl (coded_version v) dcid =
     (let secret = client_initial_secret P v dcid in
      Ok \<lparr>ClientSecrets_key = expand_label P secret (rfc_label v ''key'') 16,
          ClientSecrets_iv = expand_label P secret (rfc_label v ''iv'') 12,
          ClientSecrets_hp = expand_label P secret (rfc_label v ''hp'') 16\<rparr>)"
  by (simp add: ClientSecrets_new_def coded_constants expand_label_code client_initial_secret_def Let_def)

lemma mask_rfc:
  assumes "length key = 16" and "length block = 16"
  shows "aes_ecb_mask ssl key block = Ok (take 5 (aes_ecb P key block))"
proof -
  have l: "length (aes_ecb P key block) = 16" using ecb_length [OF assms] .
  have "fill_array 32 (aes_ecb P key block) = aes_ecb P key block @ replicate 16 0"
    using l by (simp add: fill_array_def)
  then show ?thesis
    using l by (simp add: aes_ecb_mask_def ecb [OF assms] del: upt.simps indices.simps)
qed

lemma seal_opened:
  assumes "client_initial_ok p"
  shows "InitialPacket_parse_client ssl (seal_initial P v p) =
    Ok (coded_packet v \<lparr>InitialPacket_packet_number = from_be (CI_packet_number p),
                        InitialPacket_payload = CI_payload p\<rparr>)"
proof -
  let ?pn = "CI_packet_number p" and ?text = "CI_payload p"
  define secret where "secret = client_initial_secret P v (CI_dcid p)"
  define key where "key = expand_label P secret (rfc_label v ''key'') 16"
  define iv where "iv = expand_label P secret (rfc_label v ''iv'') 12"
  define hp where "hp = expand_label P secret (rfc_label v ''hp'') 16"
  define byte1 :: u8 where "byte1 = of_nat (0xC0 + 16 * rfc_initial_type v + 4 * CI_reserved p + (length ?pn - 1))"
  define header where "header = (\<lambda>b. initial_header b (to_be 4 (rfc_version_number v)) (CI_dcid p) (CI_scid p)
      (CI_token_size p) (CI_token p) (CI_length_size p) (length ?pn + length ?text + 16))"
  obtain ct tag where sealed: "gcm_seal P key (packet_nonce iv ?pn) (header byte1 @ ?pn) ?text = (ct, tag)"
    by fastforce
  define sample where "sample = take 16 (drop (4 - length ?pn) (ct @ tag))"
  define msk where "msk = aes_ecb P hp sample"
  have pn: "length ?pn \<in> {1, 2, 3, 4}" "length ?pn \<le> 4" and r: "CI_reserved p < 4"
    using assms by (auto simp: client_initial_ok_def)
  have keys: "length key = 16" "length iv = 12" "length hp = 16"
    by (simp_all add: key_def iv_def hp_def expand_label_code(3))
  have nonce: "length (packet_nonce iv ?pn) = 12" using keys(2) pn(2) by (simp add: packet_nonce_def)
  have ct: "length ct = length ?text" "length tag = 16" using gcm_length [OF keys(1) nonce sealed] by auto
  have sample: "length sample = 16"
    using ct pn assms by (auto simp: sample_def client_initial_ok_def)
  have m16: "length msk = 16" unfolding msk_def using ecb_length [OF keys(3) sample] .
  have len: "length ?pn + length ?text + 16 = length (?pn @ ct @ tag)" using ct by simp
  have version: "(rfc_version_number v, coded_version v, coded_packet v)
      \<in> {(0x00000001, quic_v1, V1), (0x6b3343cf, quic_v2, V2)}" by (cases v) simp_all
  note b1 = rfc_byte1 [OF pn(1) r byte1_def]
  have tb: "packet_type_bits (coded_version v) \<in> {0x00, 0x10}" by (cases v) (simp_all add: quic_v1_def quic_v2_def)
  have c0: "protect_byte1 byte1 (take 5 msk) AND 0xC0 = 0xC0"
    using b1(1) tb by (auto simp: and_0xF0(2) [of "protect_byte1 byte1 (take 5 msk)"] protect_byte1_high)
  have "InitialPacket_parse_with ssl (coded_version v)
      (header (protect_byte1 byte1 (take 5 msk)) @ protect_pn ?pn (take 5 msk) @ ct @ tag) =
    Ok \<lparr>InitialPacket_packet_number = from_be ?pn, InitialPacket_payload = ?text\<rparr>"
    unfolding header_def len
  proof (rule InitialPacket_parse_with_sealed [where ?byte1.0 = byte1])
    show "ClientSecrets_new ssl (coded_version v) (CI_dcid p)
        = Ok \<lparr>ClientSecrets_key = key, ClientSecrets_iv = iv, ClientSecrets_hp = hp\<rparr>"
      by (simp add: client_secrets_rfc key_def iv_def hp_def secret_def Let_def)
  next
    show "aes_ecb_mask ssl (ClientSecrets_hp \<lparr>ClientSecrets_key = key, ClientSecrets_iv = iv, ClientSecrets_hp = hp\<rparr>)
        (take 16 (drop (4 - length ?pn) (ct @ tag))) = Ok (take 5 msk)"
      using mask_rfc [OF keys(3) sample] by (simp add: msk_def sample_def)
  next
    show "aes_128_gcm ssl (ClientSecrets_key \<lparr>ClientSecrets_key = key, ClientSecrets_iv = iv, ClientSecrets_hp = hp\<rparr>)
        (packet_nonce (ClientSecrets_iv \<lparr>ClientSecrets_key = key, ClientSecrets_iv = iv, ClientSecrets_hp = hp\<rparr>) ?pn)
        (initial_header byte1 (to_be 4 (rfc_version_number v)) (CI_dcid p) (CI_scid p) (CI_token_size p) (CI_token p)
          (CI_length_size p) (length (?pn @ ct @ tag)) @ ?pn) ct tag 16 = Ok ?text"
      using gcm [OF keys(1) nonce sealed, of 16] by (simp add: header_def ct add.assoc)
  qed (use assms b1 tb ct in \<open>auto simp: client_initial_ok_def\<close>)
  moreover obtain fields where "\<And>b. header b = b # to_be 4 (rfc_version_number v) @ fields"
    by (simp add: header_def initial_header_def)
  ultimately have "InitialPacket_parse_client ssl
      (header (protect_byte1 byte1 (take 5 msk)) @ protect_pn ?pn (take 5 msk) @ ct @ tag) =
    Ok (coded_packet v \<lparr>InitialPacket_packet_number = from_be ?pn, InitialPacket_payload = ?text\<rparr>)"
    using InitialPacket_parse_client_with [OF version c0, of ssl "fields @ protect_pn ?pn (take 5 msk) @ ct @ tag"]
    by simp
  moreover have "seal_initial P v p = header (protect_byte1 byte1 msk) @ protect_pn ?pn msk @ ct @ tag"
    unfolding seal_initial_def Let_def secret_def [symmetric] key_def [symmetric] iv_def [symmetric]
      hp_def [symmetric] byte1_def [symmetric]
    by (simp only: sealed [unfolded header_def] prod.case header_def msk_def sample_def)
  ultimately show ?thesis
    using m16 pn(2) by (simp add: protect_first_bytes)
qed

end

text \<open>Both contracts hold of a toy cipher suite: keys by concatenation, encryption by exclusive or.\<close>

definition example_primitives :: rfc_primitives where
  "example_primitives = \<lparr>hkdf_extract = (\<lambda>salt ikm. ikm @ salt),
     hkdf_expand = (\<lambda>prk info n. take n (prk @ info @ replicate n 0)),
     aes_ecb = (\<lambda>key block. map2 (XOR) key block),
     gcm_seal = (\<lambda>key iv aad pt. (map (\<lambda>b. b XOR 0x55) pt, replicate 16 0))\<rparr>"

definition example_openssl :: "unit openssl" where
  "example_openssl = \<lparr>
     hkdf = (\<lambda>m salt key info n.
       Ok (take n ((case salt of Some s \<Rightarrow> key @ s | None \<Rightarrow> key) @ info @ replicate n 0))),
     aes_128_ecb = (\<lambda>key block n. Ok (map2 (XOR) key block)),
     aes_128_gcm = (\<lambda>key iv aad ct tag n. Ok (map (\<lambda>b. b XOR 0x55) ct))\<rparr>"

interpretation example_bindings: openssl_bindings example_openssl
  by unfold_locales (simp_all add: example_openssl_def)

interpretation example_computes: openssl_computes example_openssl example_primitives
  by unfold_locales (auto simp: example_openssl_def example_primitives_def o_def xor.assoc)

definition example_initial :: client_initial where
  "example_initial = \<lparr>CI_dcid = [1, 2, 3, 4], CI_scid = [9], CI_token_size = 0, CI_token = [],
     CI_length_size = 1, CI_reserved = 0, CI_packet_number = [0, 2], CI_payload = [4, 0, 0, 1, 0]\<rparr>"

section \<open>The properties\<close>

text \<open>
  C2. A client Initial packet that a sender lays out and protects as RFC 9000, RFC 9001 and RFC 9369
  say is opened by \<open>InitialPacket::parse_client\<close>: for both versions, any connection ids, token,
  reserved bits, packet number length and sizes of the length fields, the packet number and the
  payload of the sender come out. The sender derives its keys with the salts, labels and packet
  types of the RFCs, and OpenSSL is anything that computes the primitives.
\<close>

theorem initial_packet_round_trip:
  assumes "openssl_computes ssl P" and "client_initial_ok p"
  shows "InitialPacket_parse_client ssl (seal_initial P v p) =
    Ok ((case v of QUIC_v1 \<Rightarrow> V1 | QUIC_v2 \<Rightarrow> V2)
          \<lparr>InitialPacket_packet_number = from_be (CI_packet_number p), InitialPacket_payload = CI_payload p\<rparr>)"
  using openssl_computes.seal_opened [OF assms, of v] by (cases v) simp_all

theorem initial_packet_round_trip_witness:
  "InitialPacket_parse_client example_openssl (seal_initial example_primitives QUIC_v2 example_initial) =
   Ok (V2 \<lparr>InitialPacket_packet_number = 2, InitialPacket_payload = [4, 0, 0, 1, 0]\<rparr>)"
proof -
  have "client_initial_ok example_initial"
    by (simp add: client_initial_ok_def example_initial_def)
  from initial_packet_round_trip [OF example_computes.openssl_computes_axioms this, of QUIC_v2] show ?thesis
    by (simp add: example_initial_def from_be_def)
qed

text \<open>
  C17. No datagram makes \<open>InitialPacket::parse_client\<close> panic. OpenSSL's bindings panic on short keys,
  initialisation vectors and output buffers; what the parser passes them is always long enough.
\<close>

theorem initial_packet_parse_no_panic:
  assumes "openssl_bindings ssl" and "length data \<le> 65535"
  shows "no_panic (InitialPacket_parse_client ssl data)"
  unfolding no_panic_ensures InitialPacket_parse_client_def InitialPacketV1_parse_client_def
    InitialPacketV2_parse_client_def Let_def
  using assms by (auto intro!: ensures_rules)

theorem initial_packet_parse_no_panic_witness:
  "no_panic (InitialPacket_parse_client example_openssl [0xC0, 0x00, 0x00, 0x00, 0x01, 0xFF])"
  by (rule initial_packet_parse_no_panic [OF example_bindings.openssl_bindings_axioms]) simp

text \<open>
  C12. \<open>consume_frames\<close> on the frames of a client. For a payload that is the encoding of any list of
  PADDING, PING, ACK and CRYPTO frames, with integers of any size, the consumer gets the stream offset
  and data of each CRYPTO frame once and in order, and nothing after the first one it refuses; its
  error is the result, else success. When a frame of another type follows the list, its type is
  reported after the CRYPTO frames before it are delivered.
\<close>

theorem consume_frames_delivers_in_order:
  assumes "\<forall>f\<in>set fs. wire_frame_ok f"
    and "pred_option (\<lambda>t. wire_int_ok t \<and> snd t \<notin> {0x00, 0x01, 0x02, 0x03, 0x06}) bad"
    and "InitialPacket_payload_of packet =
      concat (map encode_frame fs) @ (case bad of None \<Rightarrow> [] | Some t \<Rightarrow> encode_int t @ trailing)"
  shows "InitialPacket_consume_frames recv packet c =
    deliver recv c (crypto_frames fs)
      (case bad of None \<Rightarrow> Ok () | Some t \<Rightarrow> Err (InvalidFrameType (of_nat (snd t))))"
proof -
  let ?payload = "InitialPacket_payload_of packet"
  let ?rest = "case bad of None \<Rightarrow> [] | Some t \<Rightarrow> encode_int t @ trailing"
  let ?r = "case bad of None \<Rightarrow> Ok () | Some t \<Rightarrow> Err (InvalidFrameType (of_nat (snd t)))"
  have stop: "consume_frames_loop recv ?payload off c = (c, ?r)" if "rest_at ?payload off ?rest" for c off
  proof (cases bad)
    case None
    then show ?thesis
      using that by (simp add: consume_frames_loop_step [of _ _ off] rest_at_def)
  next
    case (Some t)
    have t: "wire_int_ok t" "snd t \<notin> {0x00, 0x01, 0x02, 0x03, 0x06}" using assms(2) Some by simp_all
    have at: "rest_at ?payload off (encode_int t @ trailing)" using that Some by simp
    note read = read_var_int_wire [OF t(1) at]
    have "off < length ?payload"
      using read(2) zero_less_power [of "2 :: nat" "fst t"] unfolding rest_at_def by linarith
    moreover have "VarInt_value (parsed_int t) \<noteq> n" if "n \<in> {0x00, 0x01, 0x02, 0x03, 0x06}" for n
      using parsed_int_value [OF t(1)] t(2) that by auto
    ultimately show ?thesis
      using read(1) Some
      by (simp add: consume_frames_loop_step [of _ _ off] next_frame_def Let_def parsed_int_def)
  qed
  have "rest_at ?payload 0 (concat (map encode_frame fs) @ ?rest)"
    using assms(3) by (simp add: rest_at_def)
  then show ?thesis
    unfolding InitialPacket_consume_frames_def
    by (intro consume_frames_loop_wire [OF assms(1) _ stop])
qed

theorem consume_frames_delivers_in_order_witness:
  "InitialPacket_consume_frames (\<lambda>fs f. (fs @ [(CryptoFrame_stream_offset f, CryptoFrame_data f)], Ok ()))
     (V1 \<lparr>InitialPacket_packet_number = 0,
           InitialPacket_payload = concat (map encode_frame
             [(0, CRYPTO (0, 3) 0 [7, 8]), (0, PADDING),
              (0, ACK (0, 5) (0, 1) 0 (0, 2) [((0, 1), (1, 300))] None), (0, CRYPTO (1, 0) 0 [1, 2, 3])])
             @ encode_int (0, 0x1C) @ [0]\<rparr>) []
   = ([(3, [7, 8]), (0, [1, 2, 3])], Err (InvalidFrameType 0x1C))"
  using consume_frames_delivers_in_order [of
      "[(0, CRYPTO (0, 3) 0 [7, 8]), (0, PADDING), (0, ACK (0, 5) (0, 1) 0 (0, 2) [((0, 1), (1, 300))] None),
        (0, CRYPTO (1, 0) 0 [1, 2, 3])]" "Some (0, 0x1C)" _ "[0]"
      "\<lambda>fs f. (fs @ [(CryptoFrame_stream_offset f, CryptoFrame_data f)], Ok ())" "[]"]
  by (simp add: wire_frame_ok_def crypto_frames_def map_filter_simps)

end
