(* ===== verification/Tls.thy ===== *)
theory Tls
  imports Rust_Prelude
begin

text \<open>
  TLS messages as the proxy inspects them (\<open>g3-codec/src/tls\<close>): records, handshake messages and
  their reassembly from record fragments, the ClientHello message and its extensions. Every parser
  is shown not to panic on any bytes; records, the ClientHello and the extension list are shown to
  invert a reference encoder.
\<close>

record RawVersion =
  RawVersion_major :: u8
  RawVersion_minor :: u8

definition RawVersion_is_tlcp :: "RawVersion \<Rightarrow> bool" where
  "RawVersion_is_tlcp self \<longleftrightarrow> RawVersion_major self = 1 \<and> RawVersion_minor self = 1"

text \<open>The versions both parsers let through: TLCP 1.1, SSL 3.0, TLS 1.0, 1.1 and 1.2/1.3.\<close>

definition known_version :: "u8 \<Rightarrow> u8 \<Rightarrow> bool" where
  "known_version major minor \<longleftrightarrow>
     (major, minor) = (1, 1) \<or> (major, minor) = (3, 0) \<or> (major, minor) = (3, 1) \<or>
     (major, minor) = (3, 2) \<or> (major, minor) = (3, 3)"

section \<open>Extensions (\<open>extension.rs\<close>)\<close>

datatype ExtensionType =
    ServerName
  | MaxFragmentLength
  | StatusRequest
  | SupportedGroups
  | SignatureAlgorithms
  | UseSrtp
  | Ext_Heartbeat
  | ApplicationLayerProtocolNegotiation
  | SignedCertificateTimestamp
  | ClientCertificateType
  | ServerCertificateType
  | Padding
  | PreSharedKey
  | EarlyData
  | SupportedVersions
  | Cookie
  | PskKeyExchangeModes
  | CertificateAuthorities
  | OidFilters
  | PostHandshakeAuth
  | SignatureAlgorithmsCert
  | KeyShare
  | Unknown u16

definition ExtensionType_from :: "u16 \<Rightarrow> ExtensionType" where
  "ExtensionType_from value =
     (if value = 0 then ServerName
      else if value = 1 then MaxFragmentLength
      else if value = 5 then StatusRequest
      else if value = 10 then SupportedGroups
      else if value = 13 then SignatureAlgorithms
      else if value = 14 then UseSrtp
      else if value = 15 then Ext_Heartbeat
      else if value = 16 then ApplicationLayerProtocolNegotiation
      else if value = 18 then SignedCertificateTimestamp
      else if value = 19 then ClientCertificateType
      else if value = 20 then ServerCertificateType
      else if value = 21 then Padding
      else if value = 41 then PreSharedKey
      else if value = 42 then EarlyData
      else if value = 43 then SupportedVersions
      else if value = 44 then Cookie
      else if value = 45 then PskKeyExchangeModes
      else if value = 47 then CertificateAuthorities
      else if value = 48 then OidFilters
      else if value = 49 then PostHandshakeAuth
      else if value = 50 then SignatureAlgorithmsCert
      else if value = 51 then KeyShare
      else Unknown value)"

datatype ExtensionParseError = Ext_NotEnoughData | Ext_InvalidLength

record Extension =
  Extension_ext_type :: ExtensionType
  Extension_ext_len :: u16
  Extension_ext_data :: "bytes option"

abbreviation (input) Extension_HEADER_LEN :: nat where
  "Extension_HEADER_LEN \<equiv> 4"

definition Extension_parse :: "bytes \<Rightarrow> (Extension, ExtensionParseError) res" where
  "Extension_parse data =
     (if length data < Extension_HEADER_LEN then Err Ext_NotEnoughData
      else
        res_bind (indices data [0..<2]) (\<lambda>t.
        res_bind (indices data [2..<4]) (\<lambda>l.
        let ext_type = from_be t :: u16; ext_len = from_be l :: u16 in
        if ext_len = 0 then
          Ok \<lparr>Extension_ext_type = ExtensionType_from ext_type, Extension_ext_len = ext_len,
              Extension_ext_data = None\<rparr>
        else
          let start = Extension_HEADER_LEN; stop = start + unat ext_len in
          if length data < stop then Err Ext_InvalidLength
          else
            res_bind (slice data start stop) (\<lambda>d.
            Ok \<lparr>Extension_ext_type = ExtensionType_from ext_type, Extension_ext_len = ext_len,
                Extension_ext_data = Some d\<rparr>))))"

function get_ext_loop ::
  "bytes \<Rightarrow> ExtensionType \<Rightarrow> nat \<Rightarrow> (bytes option, ExtensionParseError) res" where
  "get_ext_loop full_data ext_type offset =
     (if offset < length full_data then
        res_bind (slice_from full_data offset) (\<lambda>left.
        res_bind (Extension_parse left) (\<lambda>ext.
        if Extension_ext_type ext = ext_type then Ok (Extension_ext_data ext)
        else get_ext_loop full_data ext_type
               (offset + (Extension_HEADER_LEN + unat (Extension_ext_len ext)))))
      else Ok None)"
  by pat_completeness auto
termination
  by (relation "measure (\<lambda>(full_data, ext_type, offset). length full_data - offset)") auto

declare get_ext_loop.simps [simp del]

definition ExtensionList_get_ext ::
  "bytes \<Rightarrow> ExtensionType \<Rightarrow> (bytes option, ExtensionParseError) res" where
  "ExtensionList_get_ext full_data ext_type = get_ext_loop full_data ext_type 0"

record ExtensionIter =
  ExtensionIter_data :: bytes
  ExtensionIter_offset :: nat

definition ExtensionIter_new :: "bytes \<Rightarrow> ExtensionIter" where
  "ExtensionIter_new data = \<lparr>ExtensionIter_data = data, ExtensionIter_offset = 0\<rparr>"

text \<open>\<open>next\<close>: \<open>None\<close> at the end, otherwise the parse outcome; an error leaves the offset.\<close>

definition ExtensionIter_next ::
  "ExtensionIter \<Rightarrow> ExtensionIter \<times> (Extension, ExtensionParseError) res option" where
  "ExtensionIter_next self =
     (if ExtensionIter_offset self < length (ExtensionIter_data self) then
        (case res_bind (slice_from (ExtensionIter_data self) (ExtensionIter_offset self)) Extension_parse of
           Ok ext \<Rightarrow>
             (self\<lparr>ExtensionIter_offset := ExtensionIter_offset self
                 + (Extension_HEADER_LEN + unat (Extension_ext_len ext))\<rparr>, Some (Ok ext))
         | Err e \<Rightarrow> (self, Some (Err e))
         | Panic \<Rightarrow> (self, Some Panic))
      else (self, None))"

section \<open>Handshake messages (\<open>handshake/mod.rs\<close>)\<close>

abbreviation (input) HandshakeType_ClientHello :: u8 where
  "HandshakeType_ClientHello \<equiv> 1"

record HandshakeHeader =
  HandshakeHeader_msg_type :: u8
  HandshakeHeader_msg_length :: u32

abbreviation (input) HandshakeHeader_SIZE :: nat where
  "HandshakeHeader_SIZE \<equiv> 4"

text \<open>The error \<open>()\<close> stands for the \<open>None\<close> of \<open>try_parse\<close>.\<close>

definition HandshakeHeader_try_parse :: "bytes \<Rightarrow> (HandshakeHeader, unit) res" where
  "HandshakeHeader_try_parse data =
     (if length data < HandshakeHeader_SIZE then Err ()
      else
        res_bind (index data 0) (\<lambda>t.
        res_bind (indices data [1..<4]) (\<lambda>l.
        Ok \<lparr>HandshakeHeader_msg_type = t, HandshakeHeader_msg_length = from_be (0 # l)\<rparr>)))"

definition HandshakeHeader_encoded_cap :: "HandshakeHeader \<Rightarrow> nat" where
  "HandshakeHeader_encoded_cap self = HandshakeHeader_SIZE + unat (HandshakeHeader_msg_length self)"

record HandshakeMessage =
  HandshakeMessage_header :: HandshakeHeader
  HandshakeMessage_msg_data :: bytes

definition HandshakeMessage_try_parse_fragment :: "bytes \<Rightarrow> (HandshakeMessage, unit) res" where
  "HandshakeMessage_try_parse_fragment data =
     res_bind (HandshakeHeader_try_parse data) (\<lambda>header.
     let cap = HandshakeHeader_encoded_cap header in
     if cap \<le> length data then
       res_bind (slice_to data cap) (\<lambda>d.
       Ok \<lparr>HandshakeMessage_header = header, HandshakeMessage_msg_data = d\<rparr>)
     else Err ())"

definition HandshakeMessage_encoded_len :: "HandshakeMessage \<Rightarrow> nat" where
  "HandshakeMessage_encoded_len self = length (HandshakeMessage_msg_data self)"

section \<open>ClientHello (\<open>handshake/client_hello.rs\<close>)\<close>

datatype ClientHelloParseError =
    CH_InvalidContentType u8
  | CH_InvalidFragmentLength
  | CH_InvalidMessageType u8
  | CH_InvalidMessageLength
  | CH_InvalidCipherSuitesLength
  | CH_UnsupportedVersion RawVersion

record ClientHello =
  ClientHello_legacy_version :: RawVersion
  ClientHello_cipher_suites :: bytes
  ClientHello_compression_methods :: "bytes option"
  ClientHello_extensions :: "bytes option"

text \<open>The macro \<open>ensure_min!\<close>.\<close>

definition ensure_min :: "bytes \<Rightarrow> nat \<Rightarrow> (unit, ClientHelloParseError) res" where
  "ensure_min buf m = (if length buf < m then Err CH_InvalidMessageLength else Ok ())"

text \<open>The tail of \<open>parse_msg_data\<close>: compression methods and extensions from an offset on.\<close>

definition parse_msg_extensions ::
  "bytes \<Rightarrow> nat \<Rightarrow> RawVersion \<Rightarrow> bytes \<Rightarrow> bytes option \<Rightarrow> (ClientHello, ClientHelloParseError) res" where
  "parse_msg_extensions data offset legacy_version cipher_suites compression_methods =
     (if length data \<le> offset then
        Ok \<lparr>ClientHello_legacy_version = legacy_version, ClientHello_cipher_suites = cipher_suites,
            ClientHello_compression_methods = compression_methods, ClientHello_extensions = None\<rparr>
      else
        res_bind (slice_from data offset) (\<lambda>left.
        res_bind (ensure_min left 2) (\<lambda>_.
        res_bind (indices left [0..<2]) (\<lambda>l.
        let extensions_len = unat (from_be l :: u16) in
        res_bind
          (if 0 < extensions_len then
             res_bind (ensure_min left (2 + extensions_len)) (\<lambda>_.
             let start = offset + 2; stop = start + extensions_len in
             res_bind (slice data start stop) (\<lambda>d. Ok (Some d, stop)))
           else Ok (None, offset + 2)) (\<lambda>(extensions, offset).
        if offset < length data then Err CH_InvalidMessageLength
        else
          Ok \<lparr>ClientHello_legacy_version = legacy_version, ClientHello_cipher_suites = cipher_suites,
              ClientHello_compression_methods = compression_methods,
              ClientHello_extensions = extensions\<rparr>)))))"

definition parse_msg_compression ::
  "bytes \<Rightarrow> nat \<Rightarrow> RawVersion \<Rightarrow> bytes \<Rightarrow> (ClientHello, ClientHelloParseError) res" where
  "parse_msg_compression data offset legacy_version cipher_suites =
     res_bind (slice_from data offset) (\<lambda>left.
     if left = [] then Err CH_InvalidMessageLength
     else
       res_bind (index left 0) (\<lambda>l0.
       let compression_methods_len = unat l0 in
       res_bind
         (if 0 < compression_methods_len then
            res_bind (ensure_min left (1 + compression_methods_len)) (\<lambda>_.
            let start = offset + 1; stop = start + compression_methods_len in
            res_bind (slice data start stop) (\<lambda>d. Ok (Some d, stop)))
          else Ok (None, offset + 1)) (\<lambda>(compression_methods, offset).
       parse_msg_extensions data offset legacy_version cipher_suites compression_methods)))"

definition ClientHello_parse_msg_data :: "bytes \<Rightarrow> (ClientHello, ClientHelloParseError) res" where
  "ClientHello_parse_msg_data data =
     res_bind (ensure_min data 2) (\<lambda>_.
     res_bind (index data 0) (\<lambda>major.
     res_bind (index data 1) (\<lambda>minor.
     let legacy_version = \<lparr>RawVersion_major = major, RawVersion_minor = minor\<rparr> in
     if \<not> known_version major minor then Err (CH_UnsupportedVersion legacy_version)
     else
       let offset = 2 in
       res_bind (slice_from data offset) (\<lambda>left.
       res_bind (ensure_min left 32) (\<lambda>_.
       let offset = offset + 32 in
       res_bind (slice_from data offset) (\<lambda>left.
       if left = [] then Err CH_InvalidMessageLength
       else
         res_bind (index left 0) (\<lambda>l0.
         let session_id_len = unat l0 in
         res_bind (ensure_min left (1 + session_id_len)) (\<lambda>_.
         let offset = offset + (1 + session_id_len) in
         res_bind (slice_from data offset) (\<lambda>left.
         res_bind (ensure_min left 2) (\<lambda>_.
         res_bind (indices left [0..<2]) (\<lambda>l.
         let cipher_suites_len = unat (from_be l :: u16) in
         if cipher_suites_len = 0 \<or> odd cipher_suites_len then Err CH_InvalidCipherSuitesLength
         else
           res_bind (ensure_min left (2 + cipher_suites_len)) (\<lambda>_.
           let start = offset + 2; stop = start + cipher_suites_len in
           res_bind (slice data start stop) (\<lambda>cipher_suites.
           parse_msg_compression data stop legacy_version cipher_suites)))))))))))))"

definition ClientHello_parse_fragment ::
  "HandshakeHeader \<Rightarrow> bytes \<Rightarrow> (ClientHello, ClientHelloParseError) res" where
  "ClientHello_parse_fragment handshake_header data =
     (if HandshakeHeader_msg_type handshake_header \<noteq> HandshakeType_ClientHello
      then Err (CH_InvalidMessageType (HandshakeHeader_msg_type handshake_header))
      else
        let expected_data_len = unat (HandshakeHeader_msg_length handshake_header) + HandshakeHeader_SIZE in
        if length data < expected_data_len then Err CH_InvalidMessageLength
        else res_bind (slice_from data HandshakeHeader_SIZE) ClientHello_parse_msg_data)"

definition HandshakeMessage_parse_client_hello ::
  "HandshakeMessage \<Rightarrow> (ClientHello, ClientHelloParseError) res" where
  "HandshakeMessage_parse_client_hello self =
     ClientHello_parse_fragment (HandshakeMessage_header self) (HandshakeMessage_msg_data self)"

definition ClientHello_get_ext ::
  "ClientHello \<Rightarrow> ExtensionType \<Rightarrow> (bytes option, ExtensionParseError) res" where
  "ClientHello_get_ext self ext_type =
     (case ClientHello_extensions self of
        None \<Rightarrow> Ok None
      | Some data \<Rightarrow> ExtensionList_get_ext data ext_type)"

definition ClientHello_ext_iter :: "ClientHello \<Rightarrow> ExtensionIter" where
  "ClientHello_ext_iter self =
     (case ClientHello_extensions self of
        Some data \<Rightarrow> ExtensionIter_new data
      | None \<Rightarrow> ExtensionIter_new [])"

section \<open>Reassembly of handshake messages (\<open>HandshakeCoalescer\<close>)\<close>

datatype HandshakeCoalesceError = HC_InvalidContentType u8 | TooLargeMessageSize u32

record HandshakeCoalescer =
  HandshakeCoalescer_max_message_size :: u32
  HandshakeCoalescer_header :: "HandshakeHeader option"
  HandshakeCoalescer_buf :: bytes

definition HandshakeCoalescer_new :: "u32 \<Rightarrow> HandshakeCoalescer" where
  "HandshakeCoalescer_new max_message_size =
     \<lparr>HandshakeCoalescer_max_message_size = max_message_size, HandshakeCoalescer_header = None,
      HandshakeCoalescer_buf = []\<rparr>"

definition HandshakeCoalescer_default :: HandshakeCoalescer where
  "HandshakeCoalescer_default = HandshakeCoalescer_new (2 ^ 14)"

definition HandshakeCoalescer_extend :: "HandshakeCoalescer \<Rightarrow> bytes \<Rightarrow> HandshakeCoalescer" where
  "HandshakeCoalescer_extend self data =
     self\<lparr>HandshakeCoalescer_buf := HandshakeCoalescer_buf self @ data\<rparr>"

definition add_first_fragment ::
  "HandshakeCoalescer \<Rightarrow> bytes \<Rightarrow> HandshakeCoalescer \<times> (nat, HandshakeCoalesceError) res" where
  "add_first_fragment self data =
     (case HandshakeHeader_try_parse data of
        Ok hdr \<Rightarrow>
          if HandshakeCoalescer_max_message_size self < HandshakeHeader_msg_length hdr
          then (self, Err (TooLargeMessageSize (HandshakeHeader_msg_length hdr)))
          else
            let cap = HandshakeHeader_encoded_cap hdr;
                self = self\<lparr>HandshakeCoalescer_header := Some hdr\<rparr>
            in
            if length data \<le> cap then (HandshakeCoalescer_extend self data, Ok (length data))
            else
              (case slice_to data cap of
                 Ok d \<Rightarrow> (HandshakeCoalescer_extend self d, Ok cap)
               | Err e \<Rightarrow> (self, Err e)
               | Panic \<Rightarrow> (self, Panic))
      | Err _ \<Rightarrow> (HandshakeCoalescer_extend self data, Ok (length data))
      | Panic \<Rightarrow> (self, Panic))"

definition coalesce_fragment ::
  "HandshakeCoalescer \<Rightarrow> bytes \<Rightarrow> HandshakeCoalescer \<times> (nat, HandshakeCoalesceError) res" where
  "coalesce_fragment self data =
     (if HandshakeCoalescer_buf self = [] then add_first_fragment self data
      else
        case HandshakeCoalescer_header self of
          Some hdr \<Rightarrow>
            (case usize_sub (HandshakeHeader_encoded_cap hdr) (length (HandshakeCoalescer_buf self)) of
               Ok needed \<Rightarrow>
                 if length data \<le> needed then (HandshakeCoalescer_extend self data, Ok (length data))
                 else
                   (case slice_to data needed of
                      Ok d \<Rightarrow> (HandshakeCoalescer_extend self d, Ok needed)
                    | Err e \<Rightarrow> (self, Err e)
                    | Panic \<Rightarrow> (self, Panic))
             | Err e \<Rightarrow> (self, Err e)
             | Panic \<Rightarrow> (self, Panic))
        | None \<Rightarrow>
            let self = HandshakeCoalescer_extend self data in
            (case HandshakeHeader_try_parse (HandshakeCoalescer_buf self) of
               Ok hdr \<Rightarrow>
                 if HandshakeCoalescer_max_message_size self < HandshakeHeader_msg_length hdr
                 then (self, Err (TooLargeMessageSize (HandshakeHeader_msg_length hdr)))
                 else
                   let cap = HandshakeHeader_encoded_cap hdr;
                       self = self\<lparr>HandshakeCoalescer_header := Some hdr\<rparr>
                   in
                   if length (HandshakeCoalescer_buf self) < cap then (self, Ok (length data))
                   else
                     let self = self\<lparr>HandshakeCoalescer_buf := vec_resize (HandshakeCoalescer_buf self) cap\<rparr>
                     in (self, res_bind (usize_sub (length (HandshakeCoalescer_buf self)) cap) (\<lambda>d.
                               usize_sub (length data) d))
             | Err _ \<Rightarrow> (self, Ok (length data))
             | Panic \<Rightarrow> (self, Panic)))"

definition HandshakeCoalescer_is_empty :: "HandshakeCoalescer \<Rightarrow> bool" where
  "HandshakeCoalescer_is_empty self \<longleftrightarrow> HandshakeCoalescer_buf self = []"

definition HandshakeCoalescer_parse_client_hello ::
  "HandshakeCoalescer \<Rightarrow> (ClientHello option, ClientHelloParseError) res" where
  "HandshakeCoalescer_parse_client_hello self =
     (case HandshakeCoalescer_header self of
        None \<Rightarrow> Ok None
      | Some hdr \<Rightarrow>
          if HandshakeHeader_msg_type hdr \<noteq> HandshakeType_ClientHello
          then Err (CH_InvalidMessageType (HandshakeHeader_msg_type hdr))
          else if HandshakeHeader_encoded_cap hdr = length (HandshakeCoalescer_buf self) then
            res_bind (slice_from (HandshakeCoalescer_buf self) HandshakeHeader_SIZE) (\<lambda>d.
            res_bind (ClientHello_parse_msg_data d) (\<lambda>ch. Ok (Some ch)))
          else Ok None)"

section \<open>Records (\<open>record.rs\<close>)\<close>

datatype ContentType =
    Invalid
  | ChangeCipherSpec
  | Alert
  | Handshake
  | ApplicationData
  | Heartbeat

fun ContentType_as_u8 :: "ContentType \<Rightarrow> u8" where
  "ContentType_as_u8 Invalid = 0"
| "ContentType_as_u8 ChangeCipherSpec = 20"
| "ContentType_as_u8 Alert = 21"
| "ContentType_as_u8 Handshake = 22"
| "ContentType_as_u8 ApplicationData = 23"
| "ContentType_as_u8 Heartbeat = 24"

definition ContentType_try_from :: "u8 \<Rightarrow> ContentType option" where
  "ContentType_try_from value =
     (if value = 20 then Some ChangeCipherSpec
      else if value = 21 then Some Alert
      else if value = 22 then Some Handshake
      else if value = 23 then Some ApplicationData
      else if value = 24 then Some Heartbeat
      else None)"

datatype RecordParseError =
    NeedMoreData nat
  | UnsupportedVersion RawVersion
  | InvalidContentType u8
  | FragmentLengthExceeded

record RecordHeader =
  RecordHeader_version :: RawVersion
  RecordHeader_content_type :: ContentType
  RecordHeader_fragment_size :: u16

abbreviation (input) RecordHeader_SIZE :: nat where
  "RecordHeader_SIZE \<equiv> 5"

definition RecordHeader_parse :: "bytes \<Rightarrow> (RecordHeader, RecordParseError) res" where
  "RecordHeader_parse data =
     res_bind (index data 0) (\<lambda>d0.
     case ContentType_try_from d0 of
       None \<Rightarrow> Err (InvalidContentType d0)
     | Some content_type \<Rightarrow>
         res_bind (index data 1) (\<lambda>major.
         res_bind (index data 2) (\<lambda>minor.
         let version = \<lparr>RawVersion_major = major, RawVersion_minor = minor\<rparr> in
         if \<not> known_version major minor then Err (UnsupportedVersion version)
         else
           res_bind (indices data [3..<5]) (\<lambda>l.
           Ok \<lparr>RecordHeader_version = version, RecordHeader_content_type = content_type,
               RecordHeader_fragment_size = from_be l\<rparr>))))"

record Record =
  Record_header :: RecordHeader
  Record_fragment :: bytes
  Record_consume_offset :: nat

definition Record_parse :: "bytes \<Rightarrow> (Record, RecordParseError) res" where
  "Record_parse data =
     (if length data < RecordHeader_SIZE then Err (NeedMoreData (RecordHeader_SIZE - length data))
      else
        res_bind (RecordHeader_parse data) (\<lambda>header.
        if 2 ^ 14 < RecordHeader_fragment_size header then Err FragmentLengthExceeded
        else
          let start = RecordHeader_SIZE; stop = start + unat (RecordHeader_fragment_size header) in
          if length data < stop then Err (NeedMoreData (stop - length data))
          else
            res_bind (slice data start stop) (\<lambda>d.
            Ok \<lparr>Record_header = header, Record_fragment = d, Record_consume_offset = 0\<rparr>)))"

definition Record_encoded_len :: "Record \<Rightarrow> nat" where
  "Record_encoded_len self = RecordHeader_SIZE + length (Record_fragment self)"

definition Record_consume_done :: "Record \<Rightarrow> bool" where
  "Record_consume_done self \<longleftrightarrow> length (Record_fragment self) \<le> Record_consume_offset self"

definition Record_consume_handshake ::
  "Record \<Rightarrow> HandshakeCoalescer
    \<Rightarrow> (Record \<times> HandshakeCoalescer) \<times> (HandshakeMessage option, HandshakeCoalesceError) res" where
  "Record_consume_handshake self coalescer =
     (if RecordHeader_content_type (Record_header self) \<noteq> Handshake then
        ((self, coalescer), Err (HC_InvalidContentType
           (ContentType_as_u8 (RecordHeader_content_type (Record_header self)))))
      else if Record_consume_done self then ((self, coalescer), Ok None)
      else
        case slice_from (Record_fragment self) (Record_consume_offset self) of
          Err e \<Rightarrow> ((self, coalescer), Err e)
        | Panic \<Rightarrow> ((self, coalescer), Panic)
        | Ok fragment \<Rightarrow>
            (case (if HandshakeCoalescer_is_empty coalescer
                   then HandshakeMessage_try_parse_fragment fragment else Err ()) of
               Ok msg \<Rightarrow>
                 ((self\<lparr>Record_consume_offset := Record_consume_offset self
                      + HandshakeMessage_encoded_len msg\<rparr>, coalescer), Ok (Some msg))
             | Panic \<Rightarrow> ((self, coalescer), Panic)
             | Err _ \<Rightarrow>
                 (case coalesce_fragment coalescer fragment of
                    (coalescer, Ok n) \<Rightarrow>
                      ((self\<lparr>Record_consume_offset := Record_consume_offset self + n\<rparr>, coalescer), Ok None)
                  | (coalescer, Err e) \<Rightarrow> ((self, coalescer), Err e)
                  | (coalescer, Panic) \<Rightarrow> ((self, coalescer), Panic))))"

section \<open>Extension lists\<close>

lemma Extension_parse_ensures [ensures_rules]:
  "(\<And>ext. 4 + unat (Extension_ext_len ext) \<le> length data \<Longrightarrow> Q ext) \<Longrightarrow> ensures (Extension_parse data) Q"
  by (auto simp: Extension_parse_def Let_def)

lemma get_ext_loop_no_panic: "no_panic (get_ext_loop full_data ext_type offset)"
proof (induction full_data ext_type offset rule: get_ext_loop.induct)
  case (1 full_data ext_type offset)
  show ?case
  proof (cases "offset < length full_data")
    case True
    have "ensures (Extension_parse (drop offset full_data)) (\<lambda>_. True)"
      by (rule ensures_rules) simp
    with True show ?thesis
      by (cases "Extension_parse (drop offset full_data)")
        (auto simp: get_ext_loop.simps [of _ _ offset] intro!: 1)
  qed (simp add: get_ext_loop.simps [of _ _ offset])
qed

text \<open>The wire format of a list of extensions (RFC 8446, section 4.2).\<close>

definition encode_extension :: "u16 \<times> bytes \<Rightarrow> bytes" where
  "encode_extension e = to_be 2 (unat (fst e)) @ to_be 2 (length (snd e)) @ snd e"

definition encode_extensions :: "(u16 \<times> bytes) list \<Rightarrow> bytes" where
  "encode_extensions es = concat (map encode_extension es)"

text \<open>The code keeps an empty field as \<open>None\<close>.\<close>

definition nonempty :: "bytes \<Rightarrow> bytes option" where
  "nonempty d = (if d = [] then None else Some d)"

lemma Extension_parse_encode:
  assumes "length (snd e) < 65536"
  shows "Extension_parse (encode_extension e @ rest) =
    Ok \<lparr>Extension_ext_type = ExtensionType_from (fst e), Extension_ext_len = of_nat (length (snd e)),
        Extension_ext_data = nonempty (snd e)\<rparr>"
proof -
  have t: "unat (fst e) < 256 ^ 2"
    using unsigned_less [of "fst e"] by simp
  have l: "(of_nat (length (snd e)) :: u16) = 0 \<longleftrightarrow> snd e = []" "unat (of_nat (length (snd e)) :: u16) = length (snd e)"
    using assms by (simp_all add: word_unat_eq_iff unat_of_nat)
  show ?thesis
    using assms l t from_be_to_be [of 2 "unat (fst e)", where 'w = 16]
      from_be_to_be [of 2 "length (snd e)", where 'w = 16]
    by (cases "snd e = []") (simp_all add: Extension_parse_def encode_extension_def nonempty_def Let_def)
qed

lemma length_encode_extension [simp]: "length (encode_extension e) = 4 + length (snd e)"
  by (simp add: encode_extension_def)

lemma get_ext_loop_encoded:
  assumes "\<And>e. e \<in> set es \<Longrightarrow> length (snd e) < 65536"
  shows "get_ext_loop (pre @ encode_extensions es) ty (length pre) =
    Ok (case find (\<lambda>e. ExtensionType_from (fst e) = ty) es of
          None \<Rightarrow> None | Some e \<Rightarrow> nonempty (snd e))"
  using assms
proof (induction es arbitrary: pre)
  case Nil
  show ?case by (simp add: get_ext_loop.simps encode_extensions_def)
next
  case (Cons e es)
  let ?d = "pre @ encode_extensions (e # es)"
  have p: "Extension_parse (drop (length pre) ?d) =
    Ok \<lparr>Extension_ext_type = ExtensionType_from (fst e), Extension_ext_len = of_nat (length (snd e)),
        Extension_ext_data = nonempty (snd e)\<rparr>"
    using Extension_parse_encode [of e] Cons.prems by (simp add: encode_extensions_def)
  have l: "unat (of_nat (length (snd e)) :: u16) = length (snd e)"
    using Cons.prems by (simp add: unat_of_nat)
  have "get_ext_loop ?d ty (length pre + (4 + length (snd e))) =
     Ok (case find (\<lambda>e. ExtensionType_from (fst e) = ty) es of
          None \<Rightarrow> None | Some e \<Rightarrow> nonempty (snd e))"
    using Cons.IH [of "pre @ encode_extension e"] Cons.prems by (simp add: encode_extensions_def)
  moreover have "length pre < length ?d"
    by (simp add: encode_extensions_def)
  ultimately show ?case
    using p l by (simp add: get_ext_loop.simps [of _ _ "length pre"])
qed

section \<open>ClientHello\<close>

lemma ensure_min_ensures [simp]: "ensures (ensure_min buf n) Q \<longleftrightarrow> (n \<le> length buf \<longrightarrow> Q ())"
  by (auto simp: ensure_min_def)

lemma ensure_min_ok [simp]: "n \<le> length buf \<Longrightarrow> ensure_min buf n = Ok ()"
  by (simp add: ensure_min_def)

lemma parse_msg_extensions_ensures [ensures_rules]:
  assumes "\<And>ch. Q ch"
  shows "ensures (parse_msg_extensions data offset v cs cm) Q"
  unfolding parse_msg_extensions_def Let_def using assms by auto

lemma parse_msg_compression_ensures [ensures_rules]:
  assumes "offset \<le> length data" and "\<And>ch. Q ch"
  shows "ensures (parse_msg_compression data offset v cs) Q"
  unfolding parse_msg_compression_def Let_def using assms
  by (auto intro!: ensures_rules)

lemma ClientHello_parse_msg_data_ensures [ensures_rules]:
  assumes "\<And>ch. Q ch"
  shows "ensures (ClientHello_parse_msg_data data) Q"
  unfolding ClientHello_parse_msg_data_def Let_def using assms
  by (auto intro!: ensures_rules)

definition encode_client_hello ::
  "RawVersion \<Rightarrow> bytes \<Rightarrow> bytes \<Rightarrow> bytes \<Rightarrow> bytes \<Rightarrow> bytes option \<Rightarrow> bytes" where
  "encode_client_hello v random session_id cipher_suites compression extensions =
     [RawVersion_major v, RawVersion_minor v] @ random
       @ of_nat (length session_id) # session_id
       @ to_be 2 (length cipher_suites) @ cipher_suites
       @ of_nat (length compression) # compression
       @ (case extensions of None \<Rightarrow> [] | Some e \<Rightarrow> to_be 2 (length e) @ e)"

lemma parse_msg_extensions_encoded:
  assumes "\<And>e. extensions = Some e \<Longrightarrow> length e < 65536"
  shows "parse_msg_extensions (pre @ (case extensions of None \<Rightarrow> [] | Some e \<Rightarrow> to_be 2 (length e) @ e))
      (length pre) v cs cm =
    Ok \<lparr>ClientHello_legacy_version = v, ClientHello_cipher_suites = cs,
        ClientHello_compression_methods = cm,
        ClientHello_extensions = Option.bind extensions nonempty\<rparr>"
proof (cases extensions)
  case None
  then show ?thesis by (simp add: parse_msg_extensions_def)
next
  case (Some e)
  then have "length e < 65536"
    using assms by simp
  then have "unat (from_be (to_be 2 (length e)) :: u16) = length e"
    by (simp add: from_be_to_be unat_of_nat)
  with Some show ?thesis
    by (auto simp: parse_msg_extensions_def Let_def nonempty_def)
qed

lemma parse_msg_compression_encoded:
  assumes "length compression < 256" and "\<And>e. extensions = Some e \<Longrightarrow> length e < 65536"
  shows "parse_msg_compression (pre @ of_nat (length compression) # compression
        @ (case extensions of None \<Rightarrow> [] | Some e \<Rightarrow> to_be 2 (length e) @ e)) (length pre) v cs =
    Ok \<lparr>ClientHello_legacy_version = v, ClientHello_cipher_suites = cs,
        ClientHello_compression_methods = nonempty compression,
        ClientHello_extensions = Option.bind extensions nonempty\<rparr>"
proof -
  have u: "unat (of_nat (length compression) :: u8) = length compression"
    using assms(1) by (simp add: unat_of_nat)
  show ?thesis
    using u parse_msg_extensions_encoded [OF assms(2), of _
        "pre @ of_nat (length compression) # compression" v cs "nonempty compression"]
    by (cases "compression = []") (simp_all add: parse_msg_compression_def Let_def nonempty_def)
qed


lemma ClientHello_parse_msg_data_encoded:
  assumes ver: "known_version (RawVersion_major v) (RawVersion_minor v)"
    and sizes: "length random = 32" "length session_id < 256" "length compression < 256"
    and cs: "cipher_suites \<noteq> []" "even (length cipher_suites)" "length cipher_suites < 65536"
    and ext: "\<And>e. extensions = Some e \<Longrightarrow> length e < 65536"
  shows "ClientHello_parse_msg_data
      (encode_client_hello v random session_id cipher_suites compression extensions) =
    Ok \<lparr>ClientHello_legacy_version = v, ClientHello_cipher_suites = cipher_suites,
        ClientHello_compression_methods = nonempty compression,
        ClientHello_extensions = Option.bind extensions nonempty\<rparr>"
proof -
  have v: "\<lparr>RawVersion_major = RawVersion_major v, RawVersion_minor = RawVersion_minor v\<rparr> = v"
    by (cases v) simp
  have u: "unat (of_nat (length session_id) :: u8) = length session_id"
    using sizes by (simp add: unat_of_nat)
  have c: "unat (from_be (to_be 2 (length cipher_suites)) :: u16) = length cipher_suites"
    using cs by (simp add: from_be_to_be unat_of_nat)
  let ?pre = "[RawVersion_major v, RawVersion_minor v] @ random @ of_nat (length session_id) # session_id
       @ to_be 2 (length cipher_suites) @ cipher_suites"
  have "length ?pre = 37 + (length session_id + length cipher_suites)"
    using sizes by simp
  with parse_msg_compression_encoded [OF sizes(3) ext, of extensions ?pre v cipher_suites]
  show ?thesis
    using ver cs sizes(1)
    by (simp add: ClientHello_parse_msg_data_def encode_client_hello_def Let_def u c v drop_Cons'
        add.assoc)
qed

section \<open>Reassembly\<close>

definition stream_header :: "bytes \<Rightarrow> HandshakeHeader" where
  "stream_header s = \<lparr>HandshakeHeader_msg_type = s ! 0,
     HandshakeHeader_msg_length = from_be (0 # take 3 (drop 1 s))\<rparr>"

lemma HandshakeHeader_try_parse_eq:
  "HandshakeHeader_try_parse s = (if length s < 4 then Err () else Ok (stream_header s))"
  by (cases s) (simp_all add: HandshakeHeader_try_parse_def stream_header_def)

lemma stream_header_append: "4 \<le> length s \<Longrightarrow> stream_header (s @ t) = stream_header s"
  by (cases s) (simp_all add: stream_header_def)

lemma stream_header_take: "4 \<le> n \<Longrightarrow> stream_header (take n s) = stream_header s"
  by (simp add: stream_header_def drop_take min_def)

text \<open>What the coalescer keeps of the bytes of a stream: the first message, once its header is in.\<close>

definition first_message :: "bytes \<Rightarrow> bytes" where
  "first_message s = (if length s < 4 then s else take (HandshakeHeader_encoded_cap (stream_header s)) s)"

definition first_header :: "bytes \<Rightarrow> HandshakeHeader option" where
  "first_header s = (if length s < 4 then None else Some (stream_header s))"

definition message_fits :: "u32 \<Rightarrow> bytes \<Rightarrow> bool" where
  "message_fits m s \<longleftrightarrow> length s < 4 \<or> HandshakeHeader_msg_length (stream_header s) \<le> m"

lemma encoded_cap_ge: "4 \<le> HandshakeHeader_encoded_cap h"
  by (simp add: HandshakeHeader_encoded_cap_def)

text \<open>The coalescer after the bytes \<open>s\<close> of one message stream, all accepted.\<close>

definition coalesced :: "u32 \<Rightarrow> bytes \<Rightarrow> HandshakeCoalescer" where
  "coalesced m s = \<lparr>HandshakeCoalescer_max_message_size = m,
     HandshakeCoalescer_header = first_header s, HandshakeCoalescer_buf = first_message s\<rparr>"

lemma first_message_Nil: "first_message s = [] \<longleftrightarrow> s = []"
  using encoded_cap_ge [of "stream_header s"] by (auto simp: first_message_def)

lemma first_message_append:
  assumes "4 \<le> length s"
  shows "first_message (s @ t) =
    first_message s @ take (HandshakeHeader_encoded_cap (stream_header s) - length (first_message s)) t"
  using assms by (auto simp: first_message_def stream_header_append min_def)

text \<open>
  One fragment: the state moves from the stream \<open>s\<close> to \<open>s @ data\<close>. The number of bytes reported
  as consumed is the bytes kept, except when the fragment completes the four byte header, where it
  is the length of the fragment.
\<close>

lemma coalesce_fragment_step:
  assumes "message_fits m s"
  shows "coalesce_fragment (coalesced m s) data =
    (if message_fits m (s @ data) then
       (coalesced m (s @ data),
        Ok (if s \<noteq> [] \<and> length s < 4 then length data
            else length (first_message (s @ data)) - length (first_message s)))
     else
       ((coalesced m s)\<lparr>HandshakeCoalescer_buf := (if s = [] then [] else s @ data)\<rparr>,
        Err (TooLargeMessageSize (HandshakeHeader_msg_length (stream_header (s @ data))))))"
proof -
  consider (empty) "s = []" | (short) "s \<noteq> []" "length s < 4" | (known) "4 \<le> length s"
    by (meson not_le)
  then show ?thesis
  proof cases
    case empty
    then show ?thesis
      by (auto simp: coalesce_fragment_def add_first_fragment_def coalesced_def first_message_def
          first_header_def HandshakeHeader_try_parse_eq message_fits_def Let_def
          HandshakeCoalescer_extend_def not_less not_le)
  next
    case short
    have "take (HandshakeHeader_encoded_cap (stream_header s)) s = s" 
      using short encoded_cap_ge [of "stream_header s"] by simp
    then show ?thesis
      using short
      by (auto simp: coalesce_fragment_def coalesced_def first_message_def
          first_header_def HandshakeHeader_try_parse_eq message_fits_def Let_def usize_sub_def vec_resize_def
          HandshakeCoalescer_extend_def not_less not_le)
  next
    case known
    then have "s \<noteq> []" by auto
    let ?c = "HandshakeHeader_encoded_cap (stream_header s)"
    have "length (first_message s) \<le> ?c"
      using known by (simp add: first_message_def)
    then show ?thesis
      using known assms \<open>s \<noteq> []\<close> first_message_Nil [of s]
      by (auto simp: coalesce_fragment_def coalesced_def first_message_append
          first_header_def HandshakeHeader_try_parse_eq message_fits_def Let_def usize_sub_def
          stream_header_append HandshakeCoalescer_extend_def not_less not_le)
  qed
qed


primrec coalesce_all ::
  "HandshakeCoalescer \<Rightarrow> bytes list \<Rightarrow> HandshakeCoalescer \<times> (unit, HandshakeCoalesceError) res" where
  "coalesce_all c [] = (c, Ok ())"
| "coalesce_all c (f # fs) =
     (case coalesce_fragment c f of
        (c', Ok _) \<Rightarrow> coalesce_all c' fs
      | (c', Err e) \<Rightarrow> (c', Err e)
      | (c', Panic) \<Rightarrow> (c', Panic))"

lemma message_fits_appendD: "message_fits m (s @ t) \<Longrightarrow> message_fits m s"
  using stream_header_append [of s t] by (cases "length s < 4") (auto simp: message_fits_def)

lemma coalesce_all_coalesced:
  "message_fits m (s @ concat fs) \<Longrightarrow>
   coalesce_all (coalesced m s) fs = (coalesced m (s @ concat fs), Ok ())"
proof (induction fs arbitrary: s)
  case Nil
  then show ?case by simp
next
  case (Cons f fs)
  then have "message_fits m (s @ f)" "message_fits m s"
    using message_fits_appendD [of m "s @ f" "concat fs"] message_fits_appendD [of m s f] by auto
  then show ?case
    using Cons by (simp add: coalesce_fragment_step)
qed

lemma coalesced_Nil: "HandshakeCoalescer_new m = coalesced m []"
  by (simp add: HandshakeCoalescer_new_def coalesced_def first_message_def first_header_def)

text \<open>A handshake message on the wire (RFC 8446, section 4).\<close>

definition encode_handshake :: "u8 \<Rightarrow> bytes \<Rightarrow> bytes" where
  "encode_handshake msg_type body = msg_type # to_be 3 (length body) @ body"

lemma stream_header_encode:
  assumes "length body < 2 ^ 24"
  shows "stream_header (encode_handshake t body @ rest) =
    \<lparr>HandshakeHeader_msg_type = t, HandshakeHeader_msg_length = of_nat (length body)\<rparr>"
    and "HandshakeHeader_encoded_cap (stream_header (encode_handshake t body @ rest)) = 4 + length body"
proof -
  have "(from_be (0 # to_be 3 (length body)) :: u32) = of_nat (length body)"
    using assms by (simp add: from_be_def be_nat_to_be)
  then show h: "stream_header (encode_handshake t body @ rest) =
    \<lparr>HandshakeHeader_msg_type = t, HandshakeHeader_msg_length = of_nat (length body)\<rparr>"
    by (simp add: stream_header_def encode_handshake_def)
  have "length body < 2 ^ 32"
    using assms by simp
  then show "HandshakeHeader_encoded_cap (stream_header (encode_handshake t body @ rest)) = 4 + length body"
    unfolding h by (simp add: HandshakeHeader_encoded_cap_def unat_of_nat)
qed

lemma first_message_encode:
  "length body < 2 ^ 24 \<Longrightarrow> first_message (encode_handshake t body @ rest) = encode_handshake t body"
  using stream_header_encode(2) [of body t rest]
  by (simp add: first_message_def) (simp add: encode_handshake_def)

lemma coalesced_parse_client_hello:
  assumes "length body < 2 ^ 24"
  shows "HandshakeCoalescer_parse_client_hello (coalesced m (encode_handshake 1 body @ rest)) =
    res_bind (ClientHello_parse_msg_data body) (\<lambda>ch. Ok (Some ch))"
proof -
  let ?s = "encode_handshake 1 body @ rest"
  have f: "first_header ?s = Some (stream_header ?s)"
    by (simp add: first_header_def encode_handshake_def)
  have "drop 4 (encode_handshake 1 body) = body" "length (encode_handshake 1 body) = 4 + length body"
    by (simp_all add: encode_handshake_def drop_Cons')
  then show ?thesis
    unfolding HandshakeCoalescer_parse_client_hello_def coalesced_def
    using stream_header_encode [OF assms, of 1 rest] first_message_encode [OF assms, of 1 rest]
    by (simp add: f)
qed

lemma message_fits_encode:
  assumes "length body < 2 ^ 24" and "length body \<le> unat m"
  shows "message_fits m (encode_handshake t body @ rest)"
  using assms by (simp add: message_fits_def stream_header_encode word_le_nat_alt unat_of_nat)

section \<open>Records\<close>

lemma RecordHeader_parse_ensures [ensures_rules]:
  "5 \<le> length data \<Longrightarrow> (\<And>h. Q h) \<Longrightarrow> ensures (RecordHeader_parse data) Q"
  by (auto simp: RecordHeader_parse_def Let_def split: option.splits)

lemma Record_parse_ensures [ensures_rules]:
  "(\<And>r. Record_consume_offset r = 0 \<Longrightarrow> Record_encoded_len r \<le> length data \<Longrightarrow> length (Record_fragment r) \<le> 2 ^ 14 \<Longrightarrow> Q r)
   \<Longrightarrow> ensures (Record_parse data) Q"
  unfolding Record_parse_def Let_def Record_encoded_len_def
  by (auto simp: not_less word_le_nat_alt intro!: ensures_rules)


definition encode_record :: "ContentType \<Rightarrow> RawVersion \<Rightarrow> bytes \<Rightarrow> bytes" where
  "encode_record ct v fragment =
     [ContentType_as_u8 ct, RawVersion_major v, RawVersion_minor v] @ to_be 2 (length fragment) @ fragment"

lemma ContentType_try_from_as_u8: "ct \<noteq> Invalid \<Longrightarrow> ContentType_try_from (ContentType_as_u8 ct) = Some ct"
  by (cases ct) (simp_all add: ContentType_try_from_def)

lemma RecordHeader_parse_encoded:
  assumes "ct \<noteq> Invalid" and "known_version (RawVersion_major v) (RawVersion_minor v)" and "n < 65536"
  shows "RecordHeader_parse ([ContentType_as_u8 ct, RawVersion_major v, RawVersion_minor v] @ to_be 2 n @ rest) =
    Ok \<lparr>RecordHeader_version = v, RecordHeader_content_type = ct, RecordHeader_fragment_size = of_nat n\<rparr>"
proof -
  have "\<lparr>RawVersion_major = RawVersion_major v, RawVersion_minor = RawVersion_minor v\<rparr> = v"
    by (cases v) simp
  then show ?thesis
    using assms by (simp add: RecordHeader_parse_def ContentType_try_from_as_u8 from_be_to_be)
qed

lemma Record_parse_take:
  assumes "ct \<noteq> Invalid" and "known_version (RawVersion_major v) (RawVersion_minor v)"
    and "length fragment \<le> 2 ^ 14" and "k \<le> length fragment"
  shows "Record_parse ([ContentType_as_u8 ct, RawVersion_major v, RawVersion_minor v]
      @ to_be 2 (length fragment) @ take k fragment @ rest) =
    (if k + length rest < length fragment then Err (NeedMoreData (length fragment - k - length rest))
     else Ok \<lparr>Record_header = \<lparr>RecordHeader_version = v, RecordHeader_content_type = ct,
            RecordHeader_fragment_size = of_nat (length fragment)\<rparr>,
          Record_fragment = take (length fragment) (take k fragment @ rest), Record_consume_offset = 0\<rparr>)"
proof -
  have u: "unat (of_nat (length fragment) :: u16) = length fragment"
    using assms(3) by (simp add: unat_of_nat)
  then have le: "\<not> (2 ^ 14 :: u16) < of_nat (length fragment)"
    using assms(3) by (simp add: word_less_nat_alt)
  show ?thesis
    using RecordHeader_parse_encoded [OF assms(1,2), of "length fragment" "take k fragment @ rest"] assms(3,4) u le
    by (simp add: Record_parse_def Let_def)
qed

section \<open>No input makes the parsers panic\<close>

text \<open>
  The coalescer's invariant: a known header has a buffer that does not exceed the message. It
  holds also after an error, where the coalescer may still be used.
\<close>

definition coalescer_wf :: "HandshakeCoalescer \<Rightarrow> bool" where
  "coalescer_wf c = (case HandshakeCoalescer_header c of
     None \<Rightarrow> True
   | Some hdr \<Rightarrow> length (HandshakeCoalescer_buf c) \<le> HandshakeHeader_encoded_cap hdr)"

lemma add_first_fragment_wf:
  assumes "HandshakeCoalescer_buf c = []" and "coalescer_wf c"
  shows "coalescer_wf (fst (add_first_fragment c data)) \<and> no_panic (snd (add_first_fragment c data))"
  using assms
  by (simp add: add_first_fragment_def HandshakeHeader_try_parse_eq HandshakeCoalescer_extend_def
      coalescer_wf_def HandshakeHeader_encoded_cap_def Let_def split: option.split)

lemma coalesce_fragment_wf:
  assumes "coalescer_wf c"
  shows "coalescer_wf (fst (coalesce_fragment c data)) \<and> no_panic (snd (coalesce_fragment c data))"
proof (cases "HandshakeCoalescer_buf c = []")
  case True
  with assms show ?thesis
    by (simp add: coalesce_fragment_def add_first_fragment_wf)
next
  case False
  show ?thesis
  proof (cases "HandshakeCoalescer_header c")
    case None
    with False show ?thesis
      by (simp add: coalesce_fragment_def HandshakeHeader_try_parse_eq HandshakeCoalescer_extend_def
          coalescer_wf_def usize_sub_def Let_def)
  next
    case (Some hdr)
    with False assms show ?thesis
      by (auto simp: coalesce_fragment_def HandshakeCoalescer_extend_def coalescer_wf_def usize_sub_def)
  qed
qed

lemma HandshakeMessage_try_parse_fragment_eq:
  "HandshakeMessage_try_parse_fragment s =
    (if length s < 4 \<or> length s < HandshakeHeader_encoded_cap (stream_header s) then Err ()
     else Ok \<lparr>HandshakeMessage_header = stream_header s,
       HandshakeMessage_msg_data = take (HandshakeHeader_encoded_cap (stream_header s)) s\<rparr>)"
  by (auto simp: HandshakeMessage_try_parse_fragment_def HandshakeHeader_try_parse_eq Let_def not_le)

lemma Record_consume_handshake_wf:
  assumes wf: "coalescer_wf c"
  shows "coalescer_wf (snd (fst (Record_consume_handshake r c)))
    \<and> no_panic (snd (Record_consume_handshake r c))"
proof (cases "RecordHeader_content_type (Record_header r) = Handshake \<and> \<not> Record_consume_done r")
  case False
  with wf show ?thesis by (auto simp: Record_consume_handshake_def)
next
  case True
  let ?f = "drop (Record_consume_offset r) (Record_fragment r)"
  let ?m = "if HandshakeCoalescer_is_empty c then HandshakeMessage_try_parse_fragment ?f else Err ()"
  have o: "Record_consume_offset r \<le> length (Record_fragment r)"
    using True by (simp add: Record_consume_done_def)
  show ?thesis
  proof (cases ?m)
    case (Ok msg)
    with True o wf show ?thesis by (simp add: Record_consume_handshake_def)
  next
    case (Err u)
    obtain c' out where cf: "coalesce_fragment c ?f = (c', out)" by fastforce
    with coalesce_fragment_wf [OF wf, of ?f] have "coalescer_wf c'" "no_panic out"
      by simp_all
    with True o Err cf show ?thesis
      by (cases out) (simp_all add: Record_consume_handshake_def)
  next
    case Panic
    then show ?thesis by (auto simp: HandshakeMessage_try_parse_fragment_eq split: if_splits)
  qed
qed

section \<open>The properties\<close>

text \<open>
  C1. However a ClientHello handshake message is cut into fragments, and whatever follows it, the
  coalescer accepts every fragment and then parses the message into exactly the fields the client
  encoded, as long as the message is within the size limit.
\<close>

theorem client_hello_reassembly:
  assumes ver: "known_version (RawVersion_major v) (RawVersion_minor v)"
    and sizes: "length random = 32" "length session_id < 256" "length compression < 256"
    and cs: "cipher_suites \<noteq> []" "even (length cipher_suites)" "length cipher_suites < 65536"
    and ext: "\<And>e. extensions = Some e \<Longrightarrow> length e < 65536"
    and body: "body = encode_client_hello v random session_id cipher_suites compression extensions"
    and limit: "length body \<le> unat max_message_size" "length body < 2 ^ 24"
    and fragments: "concat fragments = encode_handshake 1 body @ rest"
  shows "\<exists>c. coalesce_all (HandshakeCoalescer_new max_message_size) fragments = (c, Ok ())
    \<and> HandshakeCoalescer_parse_client_hello c =
      Ok (Some \<lparr>ClientHello_legacy_version = v, ClientHello_cipher_suites = cipher_suites,
        ClientHello_compression_methods = nonempty compression,
        ClientHello_extensions = Option.bind extensions nonempty\<rparr>)"
proof -
  have "message_fits max_message_size ([] @ concat fragments)"
    using message_fits_encode [OF limit(2,1)] fragments by simp
  then have "coalesce_all (HandshakeCoalescer_new max_message_size) fragments =
      (coalesced max_message_size (encode_handshake 1 body @ rest), Ok ())"
    using coalesce_all_coalesced fragments by (fastforce simp: coalesced_Nil)
  moreover note coalesced_parse_client_hello [OF limit(2), of max_message_size rest]
  ultimately show ?thesis
    using ClientHello_parse_msg_data_encoded [OF ver sizes cs ext, of extensions]
    by (simp add: body)
qed

theorem client_hello_reassembly_witness:
  "\<exists>c. coalesce_all (HandshakeCoalescer_new 0x4000)
      [take 2 (encode_handshake 1 (encode_client_hello \<lparr>RawVersion_major = 3, RawVersion_minor = 3\<rparr>
          (replicate 32 7) [] [0x13, 0x01] [0] (Some []))),
       drop 2 (encode_handshake 1 (encode_client_hello \<lparr>RawVersion_major = 3, RawVersion_minor = 3\<rparr>
          (replicate 32 7) [] [0x13, 0x01] [0] (Some [])))] = (c, Ok ())
    \<and> HandshakeCoalescer_parse_client_hello c =
      Ok (Some \<lparr>ClientHello_legacy_version = \<lparr>RawVersion_major = 3, RawVersion_minor = 3\<rparr>,
        ClientHello_cipher_suites = [0x13, 0x01], ClientHello_compression_methods = nonempty [0],
        ClientHello_extensions = Option.bind (Some []) nonempty\<rparr>)"
  by (rule client_hello_reassembly [OF _ _ _ _ _ _ _ _ refl, where random = "replicate 32 7"
        and session_id = "[]" and rest = "[]"])
    (simp_all add: known_version_def encode_client_hello_def)

text \<open>
  C21. \<open>ExtensionList::get_ext\<close> on a well-formed list gives the data of the first extension of the
  type asked for, \<open>None\<close> when its data is empty or no extension has the type.
\<close>

theorem get_ext_first_match:
  assumes "\<And>e. e \<in> set es \<Longrightarrow> length (snd e) < 65536"
  shows "ExtensionList_get_ext (encode_extensions es) ty =
    Ok (case find (\<lambda>e. ExtensionType_from (fst e) = ty) es of
          None \<Rightarrow> None | Some e \<Rightarrow> nonempty (snd e))"
  using get_ext_loop_encoded [OF assms, of es "[]" ty] by (simp add: ExtensionList_get_ext_def)

theorem get_ext_first_match_witness:
  "ExtensionList_get_ext (encode_extensions [(10, [0, 2]), (0, [1, 2, 3]), (0, [9])]) ServerName
    = Ok (Some [1, 2, 3])"
proof -
  have "length (snd e) < 65536" if "e \<in> set [(10 :: u16, [0, 2]), (0, [1, 2, 3]), (0, [9 :: u8])]" for e
    using that by auto
  then show ?thesis
    using get_ext_first_match [of "[(10, [0, 2]), (0, [1, 2, 3]), (0, [9])]" ServerName]
    by (simp add: ExtensionType_from_def nonempty_def)
qed

text \<open>
  C22. \<open>Record::parse\<close> on the first \<open>k\<close> fragment bytes of a record, followed by any bytes, either
  gives the record, with exactly its fragment, or asks for exactly the missing number of bytes.
\<close>

theorem record_parse_incremental:
  assumes "ct \<noteq> Invalid" and "known_version (RawVersion_major v) (RawVersion_minor v)"
    and "length fragment \<le> 2 ^ 14" and "k < length fragment"
  shows "Record_parse (encode_record ct v fragment @ rest) =
      Ok \<lparr>Record_header = \<lparr>RecordHeader_version = v, RecordHeader_content_type = ct,
            RecordHeader_fragment_size = of_nat (length fragment)\<rparr>,
          Record_fragment = fragment, Record_consume_offset = 0\<rparr>
    \<and> Record_parse (take (5 + k) (encode_record ct v fragment)) = Err (NeedMoreData (length fragment - k))"
  using Record_parse_take [OF assms(1-3) order.refl, of rest]
    Record_parse_take [OF assms(1-3) less_imp_le [OF assms(4)], of "[]"] assms(4)
  by (simp add: encode_record_def take_Cons')

theorem record_parse_incremental_witness:
  "Record_parse (take (5 + 1) (encode_record Handshake \<lparr>RawVersion_major = 3, RawVersion_minor = 1\<rparr> [1, 0, 0, 0]))
    = Err (NeedMoreData 3)"
  using record_parse_incremental [of Handshake "\<lparr>RawVersion_major = 3, RawVersion_minor = 1\<rparr>" "[1, 0, 0, 0]" 1 "[]"]
  by (simp add: known_version_def)

text \<open>
  C23. No bytes make the TLS parsers panic: a record, the handshake messages consumed from a record
  into a coalescer, a ClientHello fragment, and the search for an extension. The coalescer's
  invariant (a buffer within the announced message) is established by \<open>new\<close> and kept by every call.
\<close>

theorem tls_parsers_no_panic:
  assumes "coalescer_wf c"
  shows "no_panic (Record_parse data) \<and> no_panic (ClientHello_parse_fragment hdr data)
    \<and> no_panic (ExtensionList_get_ext data ty)
    \<and> coalescer_wf (HandshakeCoalescer_new m)
    \<and> coalescer_wf (snd (fst (Record_consume_handshake r c)))
    \<and> no_panic (snd (Record_consume_handshake r c))
    \<and> no_panic (HandshakeCoalescer_parse_client_hello c)"
proof (intro conjI)
  show "no_panic (Record_parse data)"
    unfolding no_panic_ensures by (rule ensures_rules) simp
  show "no_panic (ClientHello_parse_fragment hdr data)"
    unfolding no_panic_ensures ClientHello_parse_fragment_def Let_def
    by (auto intro!: ensures_rules)
  show "no_panic (ExtensionList_get_ext data ty)"
    by (simp add: ExtensionList_get_ext_def get_ext_loop_no_panic)
  show "coalescer_wf (HandshakeCoalescer_new m)"
    by (simp add: coalescer_wf_def HandshakeCoalescer_new_def)
  have "4 \<le> length (HandshakeCoalescer_buf c)"
    if "HandshakeHeader_encoded_cap h = length (HandshakeCoalescer_buf c)" for h
    using encoded_cap_ge [of h] that by simp
  then show "no_panic (HandshakeCoalescer_parse_client_hello c)"
    by (auto simp: no_panic_ensures HandshakeCoalescer_parse_client_hello_def
        split: option.splits intro!: ensures_rules)
qed (use Record_consume_handshake_wf [OF assms] in simp_all)

theorem tls_parsers_no_panic_witness:
  "no_panic (HandshakeCoalescer_parse_client_hello
     (HandshakeCoalescer_new 0x4000\<lparr>HandshakeCoalescer_buf := [1, 0, 0, 0],
        HandshakeCoalescer_header := Some \<lparr>HandshakeHeader_msg_type = 1, HandshakeHeader_msg_length = 0\<rparr>\<rparr>))"
  using tls_parsers_no_panic [of "HandshakeCoalescer_new 0x4000\<lparr>HandshakeCoalescer_buf := [1, 0, 0, 0],
        HandshakeCoalescer_header := Some \<lparr>HandshakeHeader_msg_type = 1, HandshakeHeader_msg_length = 0\<rparr>\<rparr>"]
  by (simp add: coalescer_wf_def HandshakeHeader_encoded_cap_def)

text \<open>
  C24. A message that arrives in two fragments, with bytes of the following messages after it in the
  second: wherever it is cut, the coalescer keeps exactly the message, and when the cut is after the
  four byte header it reports the rest of the message as consumed. When the cut is inside the header
  it reports the whole fragment as consumed, so the bytes of the following messages are lost.
\<close>

theorem coalesce_split_header_loses_bytes:
  assumes "msg = encode_handshake t body" and "length body < 2 ^ 24" and "length body \<le> unat max_message_size"
    and "0 < n" and "n < length msg"
  shows "\<exists>c c'. coalesce_fragment (HandshakeCoalescer_new max_message_size) (take n msg) = (c, Ok n)
    \<and> coalesce_fragment c (drop n msg @ next_messages) =
        (c', Ok (if n < 4 then length (drop n msg) + length next_messages else length (drop n msg)))
    \<and> HandshakeCoalescer_buf c' = msg"
proof -
  let ?m = max_message_size
  have fits: "message_fits ?m (msg @ r)" for r
    unfolding assms(1) by (rule message_fits_encode [OF assms(2,3)])
  have len: "length msg = 4 + length body" by (simp add: assms(1) encode_handshake_def)
  have cut: "first_message (take n msg) = take n msg" "message_fits ?m (take n msg)"
  proof -
    have cap: "HandshakeHeader_encoded_cap (stream_header msg) = 4 + length body"
      using stream_header_encode(2) [OF assms(2), of t "[]"] by (simp add: assms(1))
    show "first_message (take n msg) = take n msg"
      using assms(5) len by (simp add: first_message_def stream_header_take cap)
    show "message_fits ?m (take n msg)"
      using fits [of "[]"] stream_header_take [of n msg] by (cases "4 \<le> n") (auto simp: message_fits_def)
  qed
  have ne: "take n msg \<noteq> []" using assms(4) len by auto
  have whole: "first_message (msg @ next_messages) = msg"
    unfolding assms(1) by (rule first_message_encode [OF assms(2)])
  have "coalesce_fragment (HandshakeCoalescer_new ?m) (take n msg) = (coalesced ?m (take n msg), Ok n)"
    using coalesce_fragment_step [of ?m "[]" "take n msg"] cut assms(5)
    by (simp add: coalesced_Nil message_fits_def first_message_Nil [of "[]", simplified])
  moreover have "coalesce_fragment (coalesced ?m (take n msg)) (drop n msg @ next_messages) =
      (coalesced ?m (msg @ next_messages),
       Ok (if n < 4 then length (drop n msg) + length next_messages else length (drop n msg)))"
    using coalesce_fragment_step [OF cut(2), of "drop n msg @ next_messages"] fits [of next_messages] ne assms(5)
    by (simp add: cut(1) whole flip: append_assoc)
  ultimately show ?thesis by (simp add: coalesced_def whole)
qed

theorem coalesce_split_header_loses_bytes_witness:
  "\<exists>c c'. coalesce_fragment (HandshakeCoalescer_new 0x4000) [1, 0] = (c, Ok 2)
    \<and> coalesce_fragment c [0, 1, 9, 14, 0, 0, 0] = (c', Ok 7) \<and> HandshakeCoalescer_buf c' = [1, 0, 0, 1, 9]"
proof -
  have msg: "[1, 0, 0, 1, 9] = encode_handshake 1 [9]" by (simp add: encode_handshake_def to_be_numeral)
  have seven: "(7 :: nat) = Suc (Suc (Suc (Suc (Suc (Suc (Suc 0))))))" by simp
  from coalesce_split_header_loses_bytes [OF msg, of "0x4000" 2 "[14, 0, 0, 0]"] show ?thesis
    unfolding seven by simp
qed

end
