(* ===== verification/Quic_Handshake.thy ===== *)
theory Quic_Handshake
  imports Quic_Packet Tls
begin

text \<open>
  The coalescer of CRYPTO frames (\<open>g3-codec/src/quic/message/handshake.rs\<close>): frames may arrive out
  of order, overlap and repeat; the coalescer rebuilds the first handshake message of the CRYPTO
  stream. Shown: no sequence of frames makes it panic, and frames that cover the message, in any
  order after the header, rebuild exactly the message.
\<close>

section \<open>Fragments\<close>

datatype Fragment = Fragment (Fragment_offset: nat) (Fragment_length: nat)

datatype Ordering = Less | Equal | Greater

fun cmp_usize :: "nat \<Rightarrow> nat \<Rightarrow> Ordering" where
  "cmp_usize a b = (if a < b then Less else if a = b then Equal else Greater)"

definition Fragment_cmp :: "Fragment \<Rightarrow> Fragment \<Rightarrow> Ordering" where
  "Fragment_cmp self other =
     (case cmp_usize (Fragment_offset self) (Fragment_offset other) of
        Greater \<Rightarrow> Greater
      | Less \<Rightarrow> Less
      | Equal \<Rightarrow> cmp_usize (Fragment_length self) (Fragment_length other))"

instantiation Fragment :: linorder
begin

definition less_eq_Fragment :: "Fragment \<Rightarrow> Fragment \<Rightarrow> bool" where
  "f \<le> g \<longleftrightarrow> Fragment_cmp f g \<noteq> Greater"

definition less_Fragment :: "Fragment \<Rightarrow> Fragment \<Rightarrow> bool" where
  "f < g \<longleftrightarrow> Fragment_cmp f g = Less"

instance
  by standard
    (auto simp: less_eq_Fragment_def less_Fragment_def Fragment_cmp_def Fragment.expand
      split: Ordering.splits if_splits)

end

text \<open>A \<open>BTreeSet\<close> as its elements in ascending order.\<close>

primrec btree_insert :: "'a::linorder \<Rightarrow> 'a list \<Rightarrow> 'a list" where
  "btree_insert x [] = [x]"
| "btree_insert x (y # ys) =
     (if x < y then x # y # ys else if x = y then y # ys else y # btree_insert x ys)"

lemma set_btree_insert [simp]: "set (btree_insert x ys) = insert x (set ys)"
  by (induction ys) auto

lemma sorted_btree_insert: "sorted ys \<Longrightarrow> sorted (btree_insert x ys)"
  by (induction ys) auto

lemma sorted_fragments_offset: "sorted (f # fs) \<Longrightarrow> g \<in> set fs \<Longrightarrow> Fragment_offset f \<le> Fragment_offset g"
  by (auto simp: less_eq_Fragment_def Fragment_cmp_def split: Ordering.splits if_splits)

section \<open>The coalescer\<close>

record QuicCoalescer =
  QuicCoalescer_max_message_size :: u32
  QuicCoalescer_header :: "HandshakeHeader option"
  QuicCoalescer_buf :: bytes
  QuicCoalescer_unfilled_offset :: nat
  QuicCoalescer_expected_length :: nat
  QuicCoalescer_fragment_set :: "Fragment list"

definition QuicCoalescer_new :: "u32 \<Rightarrow> QuicCoalescer" where
  "QuicCoalescer_new max_message_size =
     \<lparr>QuicCoalescer_max_message_size = max_message_size, QuicCoalescer_header = None,
      QuicCoalescer_buf = [], QuicCoalescer_unfilled_offset = 0, QuicCoalescer_expected_length = 0,
      QuicCoalescer_fragment_set = []\<rparr>"

definition QuicCoalescer_default :: QuicCoalescer where
  "QuicCoalescer_default = QuicCoalescer_new (2 ^ 14)"

definition QuicCoalescer_finished :: "QuicCoalescer \<Rightarrow> bool" where
  "QuicCoalescer_finished self \<longleftrightarrow>
     0 < QuicCoalescer_expected_length self
     \<and> QuicCoalescer_expected_length self = QuicCoalescer_unfilled_offset self"

definition QuicCoalescer_parse_client_hello ::
  "QuicCoalescer \<Rightarrow> (ClientHello option, ClientHelloParseError) res" where
  "QuicCoalescer_parse_client_hello self =
     (case QuicCoalescer_header self of
        None \<Rightarrow> Ok None
      | Some hdr \<Rightarrow>
          if HandshakeHeader_msg_type hdr \<noteq> HandshakeType_ClientHello
          then Err (CH_InvalidMessageType (HandshakeHeader_msg_type hdr))
          else if QuicCoalescer_finished self then
            res_bind (slice_from (QuicCoalescer_buf self) HandshakeHeader_SIZE) (\<lambda>d.
            res_bind (ClientHello_parse_msg_data d) (\<lambda>ch. Ok (Some ch)))
          else Ok None)"

text \<open>The copy into \<open>&mut buf[start..start + data.len()]\<close>.\<close>

definition copy_into :: "bytes \<Rightarrow> nat \<Rightarrow> bytes \<Rightarrow> (bytes, 'e) res" where
  "copy_into buf start data =
     res_bind (slice buf start (start + length data)) (\<lambda>_.
     Ok (take start buf @ data @ drop (start + length data) buf))"

text \<open>The loop over the ordered fragments that extends the filled prefix.\<close>

primrec fill_fragments :: "Fragment list \<Rightarrow> nat \<Rightarrow> nat" where
  "fill_fragments [] unfilled_offset = unfilled_offset"
| "fill_fragments (fragment # fs) unfilled_offset =
     (if unfilled_offset < Fragment_offset fragment then unfilled_offset
      else
        let fragment_end = Fragment_offset fragment + Fragment_length fragment in
        fill_fragments fs
          (if unfilled_offset < fragment_end then fragment_end else unfilled_offset))"

text \<open>The first branch of \<open>recv_crypto\<close> up to the header: write or extend the buffer.\<close>

definition recv_in_order :: "QuicCoalescer \<Rightarrow> nat \<Rightarrow> bytes \<Rightarrow> (QuicCoalescer, FrameParseError) res" where
  "recv_in_order self stream_offset data =
     (let frame_stream_end = stream_offset + length data in
      if frame_stream_end < length (QuicCoalescer_buf self) then
        res_bind (copy_into (QuicCoalescer_buf self) stream_offset data) (\<lambda>buf.
        let self = self\<lparr>QuicCoalescer_buf := buf\<rparr> in
        if QuicCoalescer_unfilled_offset self < frame_stream_end then
          let self = self\<lparr>QuicCoalescer_unfilled_offset := frame_stream_end\<rparr> in
          if QuicCoalescer_fragment_set self \<noteq> [] then
            let self = self\<lparr>QuicCoalescer_unfilled_offset :=
                  fill_fragments (QuicCoalescer_fragment_set self) (QuicCoalescer_unfilled_offset self)\<rparr>
            in Ok (self\<lparr>QuicCoalescer_fragment_set :=
                  filter (\<lambda>v. QuicCoalescer_unfilled_offset self < Fragment_offset v)
                    (QuicCoalescer_fragment_set self)\<rparr>)
          else Ok self
        else Ok self)
      else
        let buf = vec_resize (QuicCoalescer_buf self) stream_offset @ data in
        Ok (self\<lparr>QuicCoalescer_buf := buf, QuicCoalescer_unfilled_offset := length buf\<rparr>))"

text \<open>The header check that follows it while the message length is unknown.\<close>

definition recv_header :: "QuicCoalescer \<Rightarrow> QuicCoalescer \<times> (unit, FrameParseError) res" where
  "recv_header self =
     (if QuicCoalescer_expected_length self = 0 then
        (case slice_to (QuicCoalescer_buf self) (QuicCoalescer_unfilled_offset self) of
           Err e \<Rightarrow> (self, Err e)
         | Panic \<Rightarrow> (self, Panic)
         | Ok filled \<Rightarrow>
             (case HandshakeHeader_try_parse filled of
                Ok header \<Rightarrow>
                  if QuicCoalescer_max_message_size self < HandshakeHeader_msg_length header then
                    (self, Err (MalformedFrame ''too large message length for TLS handshake''))
                  else
                    let expected_length = unat (HandshakeHeader_msg_length header) + HandshakeHeader_SIZE in
                    (self\<lparr>QuicCoalescer_expected_length := expected_length,
                          QuicCoalescer_header := Some header,
                          QuicCoalescer_buf := vec_resize (QuicCoalescer_buf self) expected_length\<rparr>, Ok ())
              | Err _ \<Rightarrow> (self, Ok ())
              | Panic \<Rightarrow> (self, Panic)))
      else (self, Ok ()))"

definition recv_crypto ::
  "QuicCoalescer \<Rightarrow> CryptoFrame \<Rightarrow> QuicCoalescer \<times> (unit, FrameParseError) res" where
  "recv_crypto self frame =
     (let stream_offset = CryptoFrame_stream_offset frame;
          data = CryptoFrame_data frame;
          frame_stream_end = stream_offset + length data
      in
      if stream_offset \<le> QuicCoalescer_unfilled_offset self then
        if 0 < QuicCoalescer_expected_length self \<and> QuicCoalescer_expected_length self < frame_stream_end
        then (self, Err (MalformedFrame ''more data than expected in crypto frame''))
        else
          (case recv_in_order self stream_offset data of
             Ok self \<Rightarrow> recv_header self
           | Err e \<Rightarrow> (self, Err e)
           | Panic \<Rightarrow> (self, Panic))
      else if QuicCoalescer_expected_length self = 0 then
        (self, Err (OutOfOrderFrame ''handshake header missing when receiving from crypto frame''))
      else if QuicCoalescer_expected_length self < stream_offset then
        (self, Err (MalformedFrame ''too big stream offset value in crypto frame''))
      else if QuicCoalescer_expected_length self < frame_stream_end then
        (self, Err (MalformedFrame ''more data than expected in crypto frame''))
      else
        (case copy_into (QuicCoalescer_buf self) stream_offset data of
           Ok buf \<Rightarrow>
             (self\<lparr>QuicCoalescer_buf := buf,
                   QuicCoalescer_fragment_set :=
                     btree_insert (Fragment stream_offset (length data)) (QuicCoalescer_fragment_set self)\<rparr>,
              Ok ())
         | Err e \<Rightarrow> (self, Err e)
         | Panic \<Rightarrow> (self, Panic)))"

section \<open>No frame makes the coalescer panic\<close>

definition quic_wf :: "QuicCoalescer \<Rightarrow> bool" where
  "quic_wf c \<longleftrightarrow>
     (if QuicCoalescer_expected_length c = 0
      then length (QuicCoalescer_buf c) = QuicCoalescer_unfilled_offset c
        \<and> QuicCoalescer_fragment_set c = []
      else length (QuicCoalescer_buf c) = QuicCoalescer_expected_length c)
     \<and> (QuicCoalescer_header c \<noteq> None \<longrightarrow> 4 \<le> QuicCoalescer_expected_length c)"

lemma quic_wf_new: "quic_wf (QuicCoalescer_new m)"
  by (simp add: quic_wf_def QuicCoalescer_new_def)

lemma copy_into_ok:
  "start + length data \<le> length buf \<Longrightarrow>
   copy_into buf start data = Ok (take start buf @ data @ drop (start + length data) buf)"
  by (simp add: copy_into_def)

lemma recv_header_wf:
  "quic_wf c \<Longrightarrow> quic_wf (fst (recv_header c)) \<and> no_panic (snd (recv_header c))"
  by (auto simp: recv_header_def quic_wf_def HandshakeHeader_try_parse_eq Let_def)

lemma recv_in_order_wf:
  assumes "quic_wf c" and "so \<le> QuicCoalescer_unfilled_offset c"
    and "0 < QuicCoalescer_expected_length c \<Longrightarrow> so + length data \<le> QuicCoalescer_expected_length c"
  shows "ensures (recv_in_order c so data) quic_wf"
  using assms by (auto simp: recv_in_order_def quic_wf_def copy_into_def Let_def split: if_splits)

lemma recv_crypto_wf:
  assumes wf: "quic_wf c"
  shows "quic_wf (fst (recv_crypto c f)) \<and> no_panic (snd (recv_crypto c f))"
proof (cases "CryptoFrame_stream_offset f \<le> QuicCoalescer_unfilled_offset c")
  case True
  let ?r = "recv_in_order c (CryptoFrame_stream_offset f) (CryptoFrame_data f)"
  show ?thesis
  proof (cases "0 < QuicCoalescer_expected_length c
      \<and> QuicCoalescer_expected_length c < CryptoFrame_stream_offset f + length (CryptoFrame_data f)")
    case False
    then have "ensures ?r quic_wf"
      by (intro recv_in_order_wf [OF wf True]) simp
    with True False wf show ?thesis
      by (cases ?r) (auto simp: recv_crypto_def recv_header_wf Let_def)
  qed (use True wf in \<open>simp add: recv_crypto_def\<close>)
next
  case False
  with wf show ?thesis
    by (auto simp: recv_crypto_def Let_def quic_wf_def copy_into_ok)
qed

interpretation quic_coalescer: frame_consumer recv_crypto quic_wf
  by unfold_locales (simp_all add: recv_crypto_wf)

section \<open>Frames of one message\<close>

definition frame_end :: "CryptoFrame \<Rightarrow> nat" where
  "frame_end f = CryptoFrame_stream_offset f + length (CryptoFrame_data f)"

text \<open>A frame that carries bytes of the message \<open>msg\<close> at its offset.\<close>

definition frame_of :: "bytes \<Rightarrow> CryptoFrame \<Rightarrow> bool" where
  "frame_of msg f \<longleftrightarrow> frame_end f \<le> length msg
     \<and> CryptoFrame_data f = take (length (CryptoFrame_data f)) (drop (CryptoFrame_stream_offset f) msg)"

lemma frame_of_nth:
  assumes "frame_of msg f" and "i < length (CryptoFrame_data f)"
  shows "CryptoFrame_data f ! i = msg ! (CryptoFrame_stream_offset f + i)"
proof -
  let ?so = "CryptoFrame_stream_offset f" and ?d = "CryptoFrame_data f"
  have le: "?so + length ?d \<le> length msg" and "?d ! i = take (length ?d) (drop ?so msg) ! i"
    using assms(1) by (simp_all add: frame_of_def frame_end_def)
  note this(2)
  also have "take (length ?d) (drop ?so msg) ! i = msg ! (?so + i)"
    using le assms(2) by simp
  finally show ?thesis .
qed

definition frame_range :: "CryptoFrame \<Rightarrow> nat set" where
  "frame_range f = {CryptoFrame_stream_offset f ..< frame_end f}"

definition fragment_range :: "Fragment \<Rightarrow> nat set" where
  "fragment_range g = {Fragment_offset g ..< Fragment_offset g + Fragment_length g}"

text \<open>The stream positions the coalescer knows to be filled.\<close>

definition filled :: "QuicCoalescer \<Rightarrow> nat set" where
  "filled c = {..< QuicCoalescer_unfilled_offset c}
     \<union> (\<Union>g \<in> set (QuicCoalescer_fragment_set c). fragment_range g)"

definition assembling :: "bytes \<Rightarrow> QuicCoalescer \<Rightarrow> bool" where
  "assembling msg c \<longleftrightarrow>
     4 \<le> length msg
     \<and> QuicCoalescer_header c = Some (stream_header msg)
     \<and> QuicCoalescer_expected_length c = length msg
     \<and> length (QuicCoalescer_buf c) = length msg
     \<and> QuicCoalescer_unfilled_offset c \<le> length msg
     \<and> sorted (QuicCoalescer_fragment_set c)
     \<and> (QuicCoalescer_unfilled_offset c < length msg \<longrightarrow>
          (\<forall>g \<in> set (QuicCoalescer_fragment_set c). QuicCoalescer_unfilled_offset c < Fragment_offset g))
     \<and> (\<forall>g \<in> set (QuicCoalescer_fragment_set c). Fragment_offset g + Fragment_length g \<le> length msg)
     \<and> (\<forall>p \<in> filled c. QuicCoalescer_buf c ! p = msg ! p)"

lemma fill_fragments_props:
  assumes "sorted fs" and "\<And>g. g \<in> set fs \<Longrightarrow> Fragment_offset g + Fragment_length g \<le> n" and "u \<le> n"
  shows "u \<le> fill_fragments fs u \<and> fill_fragments fs u \<le> n
    \<and> {..< fill_fragments fs u} \<subseteq> {..< u} \<union> (\<Union>g \<in> set fs. fragment_range g)
    \<and> (\<forall>g \<in> set fs. Fragment_offset g \<le> fill_fragments fs u \<longrightarrow> fragment_range g \<subseteq> {..< fill_fragments fs u})"
  using assms
proof (induction fs arbitrary: u)
  case Nil
  then show ?case by simp
next
  case (Cons f fs)
  show ?case
  proof (cases "u < Fragment_offset f")
    case True
    then have "u < Fragment_offset g" if "g \<in> set (f # fs)" for g
      using sorted_fragments_offset [OF Cons.prems(1)] that by fastforce
    with True Cons.prems(3) show ?thesis by fastforce
  next
    case False
    let ?u = "max u (Fragment_offset f + Fragment_length f)"
    have "?u \<le> n"
      using Cons.prems by simp
    then have IH: "?u \<le> fill_fragments fs ?u \<and> fill_fragments fs ?u \<le> n
      \<and> {..< fill_fragments fs ?u} \<subseteq> {..< ?u} \<union> (\<Union>g \<in> set fs. fragment_range g)
      \<and> (\<forall>g \<in> set fs. Fragment_offset g \<le> fill_fragments fs ?u \<longrightarrow>
           fragment_range g \<subseteq> {..< fill_fragments fs ?u})"
      using Cons.prems by (intro Cons.IH) auto
    moreover have "fill_fragments (f # fs) u = fill_fragments fs ?u"
      using False by (simp add: Let_def max_def)
    moreover have "{..< ?u} \<subseteq> {..< u} \<union> fragment_range f"
      using False by (auto simp: fragment_range_def)
    moreover have "fragment_range f \<subseteq> {..< fill_fragments fs ?u}"
      using IH by (auto simp: fragment_range_def)
    ultimately show ?thesis by auto
  qed
qed


lemma nth_copy:
  assumes "so + length data \<le> length buf" and "p < length buf"
  shows "(take so buf @ data @ drop (so + length data) buf) ! p =
    (if so \<le> p \<and> p < so + length data then data ! (p - so) else buf ! p)"
  using assms by (auto simp: nth_append min_def)

lemma frame_copy_agrees:
  assumes "frame_of msg f" and "length buf = length msg"
    and "p < length msg" and "p \<in> frame_range f \<or> buf ! p = msg ! p"
  shows "(take (CryptoFrame_stream_offset f) buf @ CryptoFrame_data f
      @ drop (CryptoFrame_stream_offset f + length (CryptoFrame_data f)) buf) ! p = msg ! p"
proof -
  have "CryptoFrame_data f ! (p - CryptoFrame_stream_offset f) = msg ! p"
    if "CryptoFrame_stream_offset f \<le> p" "p < CryptoFrame_stream_offset f + length (CryptoFrame_data f)"
    using frame_of_nth [OF assms(1), of "p - CryptoFrame_stream_offset f"] that by simp
  then show ?thesis
    using assms by (subst nth_copy) (auto simp: frame_of_def frame_end_def frame_range_def)
qed

lemma filled_bound: "assembling msg c \<Longrightarrow> p \<in> filled c \<Longrightarrow> p < length msg"
  by (fastforce simp: assembling_def filled_def fragment_range_def)

lemma recv_header_known: "0 < QuicCoalescer_expected_length c \<Longrightarrow> recv_header c = (c, Ok ())"
  by (simp add: recv_header_def)

text \<open>A step that copies the frame's data and only claims old positions and the frame's.\<close>

lemma assembling_copy:
  assumes c: "assembling msg c" and f: "frame_of msg f"
    and same: "QuicCoalescer_header c' = QuicCoalescer_header c"
      "QuicCoalescer_expected_length c' = QuicCoalescer_expected_length c"
    and buf: "QuicCoalescer_buf c' = take (CryptoFrame_stream_offset f) (QuicCoalescer_buf c)
      @ CryptoFrame_data f @ drop (frame_end f) (QuicCoalescer_buf c)"
    and u: "QuicCoalescer_unfilled_offset c' \<le> length msg"
    and frags: "sorted (QuicCoalescer_fragment_set c')"
      "\<And>g. g \<in> set (QuicCoalescer_fragment_set c') \<Longrightarrow> Fragment_offset g + Fragment_length g \<le> length msg"
      "\<And>g. g \<in> set (QuicCoalescer_fragment_set c') \<Longrightarrow> QuicCoalescer_unfilled_offset c' < length msg \<Longrightarrow>
         QuicCoalescer_unfilled_offset c' < Fragment_offset g"
    and filled: "filled c' \<subseteq> filled c \<union> frame_range f"
  shows "assembling msg c'"
proof -
  have l: "length (QuicCoalescer_buf c) = length msg" and le: "frame_end f \<le> length msg"
    using c f by (simp_all add: assembling_def frame_of_def)
  have "QuicCoalescer_buf c' ! p = msg ! p" if "p \<in> filled c'" for p
  proof -
    have "p < length msg"
      using that filled filled_bound [OF c] le by (auto simp: frame_range_def)
    moreover have "p \<in> frame_range f \<or> QuicCoalescer_buf c ! p = msg ! p"
      using that filled c by (auto simp: assembling_def)
    ultimately show ?thesis
      using frame_copy_agrees [OF f l] by (simp add: buf frame_end_def)
  qed
  moreover have "length (QuicCoalescer_buf c') = length msg"
    using l le by (simp add: buf frame_end_def)
  ultimately show ?thesis
    using c same u frags by (auto simp: assembling_def)
qed

text \<open>A frame beyond the filled prefix is stored and recorded as a fragment.\<close>

lemma recv_crypto_out_of_order:
  assumes c: "assembling msg c" and f: "frame_of msg f"
    and off: "QuicCoalescer_unfilled_offset c < CryptoFrame_stream_offset f"
  shows "\<exists>c'. recv_crypto c f = (c', Ok ()) \<and> assembling msg c' \<and> filled c \<union> frame_range f \<subseteq> filled c'"
proof -
  let ?so = "CryptoFrame_stream_offset f" and ?d = "CryptoFrame_data f"
  define c' where "c' = c\<lparr>QuicCoalescer_buf := take ?so (QuicCoalescer_buf c) @ ?d
        @ drop (frame_end f) (QuicCoalescer_buf c),
     QuicCoalescer_fragment_set :=
       btree_insert (Fragment ?so (length ?d)) (QuicCoalescer_fragment_set c)\<rparr>"
  have le: "?so + length ?d \<le> length msg"
    using f by (simp add: frame_of_def frame_end_def)
  have "msg \<noteq> []" using off le by auto
  then have "recv_crypto c f = (c', Ok ())"
    using off le c by (simp add: recv_crypto_def copy_into_ok c'_def frame_end_def assembling_def Let_def)
  moreover have fl: "filled c' = filled c \<union> frame_range f"
    by (auto simp: filled_def c'_def fragment_range_def frame_range_def frame_end_def)
  moreover have "assembling msg c'"
    by (rule assembling_copy [OF c f])
      (use c off le fl in \<open>auto simp: c'_def assembling_def sorted_btree_insert\<close>)
  ultimately show ?thesis by auto
qed

text \<open>A frame that touches the filled prefix extends it, also over the fragments it reaches.\<close>

lemma recv_crypto_in_order:
  assumes c: "assembling msg c" and f: "frame_of msg f"
    and off: "CryptoFrame_stream_offset f \<le> QuicCoalescer_unfilled_offset c"
  shows "\<exists>c'. recv_crypto c f = (c', Ok ()) \<and> assembling msg c' \<and> filled c \<union> frame_range f \<subseteq> filled c'"
proof -
  let ?so = "CryptoFrame_stream_offset f" and ?d = "CryptoFrame_data f"
  let ?buf = "take ?so (QuicCoalescer_buf c) @ ?d @ drop (frame_end f) (QuicCoalescer_buf c)"
  let ?frags = "QuicCoalescer_fragment_set c" and ?u = "QuicCoalescer_unfilled_offset c"
  have c4: "4 \<le> length msg" "QuicCoalescer_expected_length c = length msg"
    "length (QuicCoalescer_buf c) = length msg" "sorted ?frags" "?u \<le> length msg"
    "\<And>g. g \<in> set ?frags \<Longrightarrow> Fragment_offset g + Fragment_length g \<le> length msg"
    "\<And>g. g \<in> set ?frags \<Longrightarrow> ?u < length msg \<Longrightarrow> ?u < Fragment_offset g"
    using c by (auto simp: assembling_def)
  have le: "frame_end f \<le> length msg"
    using f by (simp add: frame_of_def)
  have ne: "msg \<noteq> []" using c4(1) by auto
  have recv: "recv_crypto c f = (case recv_in_order c ?so ?d of
      Ok c' \<Rightarrow> recv_header c' | Err e \<Rightarrow> (c, Err e) | Panic \<Rightarrow> (c, Panic))"
    using off le c4 by (simp add: recv_crypto_def Let_def frame_end_def)
  consider (whole) "frame_end f = length msg" | (old) "frame_end f < length msg" "frame_end f \<le> ?u"
    | (new) "frame_end f < length msg" "?u < frame_end f"
    using le by fastforce
  then show ?thesis
  proof cases
    case whole
    define c' where "c' = c\<lparr>QuicCoalescer_buf := ?buf, QuicCoalescer_unfilled_offset := length msg\<rparr>"
    have "vec_resize (QuicCoalescer_buf c) ?so @ ?d = ?buf"
      using off c4 whole by (simp add: vec_resize_def)
    moreover have "length ?buf = length msg"
      using off c4 whole by (simp add: frame_end_def)
    ultimately have "recv_in_order c ?so ?d = Ok c'"
      using whole c4 unfolding recv_in_order_def Let_def c'_def by (simp add: frame_end_def)
    then have "recv_crypto c f = (c', Ok ())"
      using c4 ne by (simp add: recv c'_def recv_header_known)
    moreover have "filled c' = {..< length msg}"
      using filled_bound [OF c] by (auto simp: filled_def c'_def)
    moreover have "{..< length msg} \<subseteq> filled c \<union> frame_range f"
      using off whole by (auto simp: filled_def frame_range_def)
    moreover have "filled c \<union> frame_range f \<subseteq> {..< length msg}"
      using filled_bound [OF c] le by (auto simp: frame_range_def)
    moreover have "assembling msg c'"
      by (rule assembling_copy [OF c f]) (use calculation c4 in \<open>auto simp: c'_def\<close>)
    ultimately show ?thesis by auto
  next
    case old
    define c' where "c' = c\<lparr>QuicCoalescer_buf := ?buf\<rparr>"
    have "recv_crypto c f = (c', Ok ())"
      using old c4 ne unfolding recv
      by (simp add: recv_in_order_def copy_into_ok c'_def frame_end_def recv_header_known Let_def)
    moreover have "filled c' = filled c" "frame_range f \<subseteq> filled c"
      using old by (auto simp: filled_def c'_def frame_range_def)
    moreover have "assembling msg c'"
      by (rule assembling_copy [OF c f]) (use calculation c4 in \<open>auto simp: c'_def\<close>)
    ultimately show ?thesis by auto
  next
    case new
    let ?v = "fill_fragments ?frags (frame_end f)"
    define c' where "c' = c\<lparr>QuicCoalescer_buf := ?buf, QuicCoalescer_unfilled_offset := ?v,
      QuicCoalescer_fragment_set := filter (\<lambda>g. ?v < Fragment_offset g) ?frags\<rparr>"
    note v = fill_fragments_props [OF c4(4) c4(6) le]
    have "recv_crypto c f = (c', Ok ())"
      using new c4(1-3) ne unfolding recv
      by (cases "?frags = []")
        (simp_all add: recv_in_order_def copy_into_ok c'_def frame_end_def recv_header_known Let_def)
    moreover have "filled c' \<subseteq> filled c \<union> frame_range f"
      using v new off by (fastforce simp: filled_def c'_def frame_range_def)
    moreover have "filled c \<union> frame_range f \<subseteq> filled c'"
      using v new off by (fastforce simp: filled_def c'_def frame_range_def)
    moreover have "assembling msg c'"
      by (rule assembling_copy [OF c f]) (use calculation c4 v in \<open>auto simp: c'_def sorted_wrt_filter\<close>)
    ultimately show ?thesis by auto
  qed
qed


lemma recv_crypto_assembling:
  assumes "assembling msg c" and "frame_of msg f"
  shows "\<exists>c'. recv_crypto c f = (c', Ok ()) \<and> assembling msg c' \<and> filled c \<union> frame_range f \<subseteq> filled c'"
  using recv_crypto_in_order [OF assms] recv_crypto_out_of_order [OF assms] by (meson not_le)

lemma assembling_finished:
  assumes c: "assembling msg c" and all: "{..< length msg} \<subseteq> filled c"
  shows "QuicCoalescer_finished c \<and> QuicCoalescer_buf c = msg"
proof -
  let ?u = "QuicCoalescer_unfilled_offset c"
  have "?u = length msg"
  proof (rule ccontr)
    assume "?u \<noteq> length msg"
    then have lt: "?u < length msg"
      using c by (simp add: assembling_def)
    then have "?u \<in> filled c"
      using all by auto
    then obtain g where "g \<in> set (QuicCoalescer_fragment_set c)" "Fragment_offset g \<le> ?u"
      by (auto simp: filled_def fragment_range_def)
    with c lt show False
      by (auto simp: assembling_def)
  qed
  moreover have "QuicCoalescer_buf c = msg"
    using c all by (intro nth_equalityI) (auto simp: assembling_def)
  ultimately show ?thesis
    using c by (auto simp: QuicCoalescer_finished_def assembling_def)
qed

text \<open>The first frame, with the header in it.\<close>

lemma recv_crypto_first:
  assumes f: "frame_of msg f" and off: "CryptoFrame_stream_offset f = 0"
    and hdr: "4 \<le> length (CryptoFrame_data f)"
    and msg: "msg = encode_handshake t body" and len: "length body < 2 ^ 24" "length body \<le> unat m"
  shows "\<exists>c. recv_crypto (QuicCoalescer_new m) f = (c, Ok ()) \<and> assembling msg c \<and> frame_range f \<subseteq> filled c"
proof -
  let ?d = "CryptoFrame_data f"
  have d: "?d = take (length ?d) msg"
    using f off by (simp add: frame_of_def)
  have le: "length ?d \<le> length msg" and lm: "length msg = 4 + length body"
    using f off by (simp_all add: frame_of_def frame_end_def msg encode_handshake_def)
  have sh: "stream_header ?d = stream_header msg"
    by (subst d) (rule stream_header_take [OF hdr])
  have h: "stream_header msg =
      \<lparr>HandshakeHeader_msg_type = t, HandshakeHeader_msg_length = of_nat (length body)\<rparr>"
    using stream_header_encode(1) [OF len(1), of t "[]"] by (simp add: msg)
  have ub: "unat (of_nat (length body) :: u32) = length body"
    using len(1) by (simp add: unat_of_nat)
  define c where "c = \<lparr>QuicCoalescer_max_message_size = m, QuicCoalescer_header = Some (stream_header msg),
      QuicCoalescer_buf = vec_resize ?d (length msg), QuicCoalescer_unfilled_offset = length ?d,
      QuicCoalescer_expected_length = length msg, QuicCoalescer_fragment_set = []\<rparr>"
  have "recv_crypto (QuicCoalescer_new m) f = (c, Ok ())"
    using hdr off len(2) ub
    by (simp add: recv_crypto_def QuicCoalescer_new_def recv_in_order_def recv_header_def
        vec_resize_def [of "[]"] HandshakeHeader_try_parse_eq sh h lm c_def word_less_nat_alt Let_def add.commute)
  moreover have "vec_resize ?d (length msg) ! p = msg ! p" if "p < length ?d" for p
    using that le d by (simp add: vec_resize_def nth_append) (metis nth_take)
  then have "assembling msg c"
    using hdr le by (auto simp: assembling_def c_def filled_def)
  ultimately show ?thesis
    using off by (auto simp: c_def filled_def frame_range_def frame_end_def)
qed

primrec recv_all ::
  "QuicCoalescer \<Rightarrow> CryptoFrame list \<Rightarrow> QuicCoalescer \<times> (unit, FrameParseError) res" where
  "recv_all c [] = (c, Ok ())"
| "recv_all c (f # fs) =
     (case recv_crypto c f of
        (c', Ok _) \<Rightarrow> recv_all c' fs
      | (c', Err e) \<Rightarrow> (c', Err e)
      | (c', Panic) \<Rightarrow> (c', Panic))"

lemma recv_all_assembling:
  "assembling msg c \<Longrightarrow> (\<And>f. f \<in> set fs \<Longrightarrow> frame_of msg f) \<Longrightarrow>
   \<exists>c'. recv_all c fs = (c', Ok ()) \<and> assembling msg c'
     \<and> filled c \<union> (\<Union>f \<in> set fs. frame_range f) \<subseteq> filled c'"
proof (induction fs arbitrary: c)
  case Nil
  then show ?case by simp
next
  case (Cons f fs)
  then obtain c1 where c1: "recv_crypto c f = (c1, Ok ())" "assembling msg c1"
      "filled c \<union> frame_range f \<subseteq> filled c1"
    using recv_crypto_assembling [of msg c f] by auto
  then obtain c' where "recv_all c1 fs = (c', Ok ())" "assembling msg c'"
      "filled c1 \<union> (\<Union>f \<in> set fs. frame_range f) \<subseteq> filled c'"
    using Cons by (metis list.set_intros(2))
  with c1 show ?case by auto
qed

section \<open>The properties\<close>

text \<open>
  C3. CRYPTO frames of one handshake message rebuild the message in any order: after a first frame
  with the header in it, the other frames may come out of order, overlap and repeat; every one is
  accepted, and once they cover the message the coalescer is finished and its buffer is the
  message. For a ClientHello it then parses what \<open>ClientHello::parse_msg_data\<close> parses of the body.
\<close>

theorem quic_crypto_reassembly:
  assumes msg: "msg = encode_handshake t body"
    and limit: "length body < 2 ^ 24" "length body \<le> unat max_message_size"
    and first: "CryptoFrame_stream_offset f = 0" "4 \<le> length (CryptoFrame_data f)"
    and frames: "\<And>g. g \<in> set (f # fs) \<Longrightarrow> frame_of msg g"
    and cover: "{..< length msg} \<subseteq> (\<Union>g \<in> set (f # fs). frame_range g)"
  shows "\<exists>c. recv_all (QuicCoalescer_new max_message_size) (f # fs) = (c, Ok ())
    \<and> QuicCoalescer_finished c \<and> QuicCoalescer_buf c = msg
    \<and> (t = 1 \<longrightarrow> QuicCoalescer_parse_client_hello c =
          res_bind (ClientHello_parse_msg_data body) (\<lambda>ch. Ok (Some ch)))"
proof -
  obtain c1 where c1: "recv_crypto (QuicCoalescer_new max_message_size) f = (c1, Ok ())"
      "assembling msg c1" "frame_range f \<subseteq> filled c1"
    using recv_crypto_first [OF _ first msg limit] frames by auto
  then obtain c where c: "recv_all c1 fs = (c, Ok ())" "assembling msg c"
      "filled c1 \<union> (\<Union>f \<in> set fs. frame_range f) \<subseteq> filled c"
    using recv_all_assembling [of msg c1 fs] frames by auto
  have "{..< length msg} \<subseteq> filled c"
    using cover c(3) c1(3) by (simp; blast)
  then have fin: "QuicCoalescer_finished c" "QuicCoalescer_buf c = msg"
    using assembling_finished [OF c(2)] by auto
  have "QuicCoalescer_header c =
      Some \<lparr>HandshakeHeader_msg_type = t, HandshakeHeader_msg_length = of_nat (length body)\<rparr>"
    using c(2) stream_header_encode(1) [OF limit(1), of t "[]"] by (simp add: assembling_def msg)
  then have "t = 1 \<longrightarrow> QuicCoalescer_parse_client_hello c =
      res_bind (ClientHello_parse_msg_data body) (\<lambda>ch. Ok (Some ch))"
    using fin by (simp add: QuicCoalescer_parse_client_hello_def msg encode_handshake_def drop_Cons')
  with c(1) c1(1) fin show ?thesis by simp
qed

theorem quic_crypto_reassembly_witness:
  "\<exists>c. recv_all (QuicCoalescer_new 0x4000)
      [CryptoFrame_new 0 [2, 0, 0, 4, 10], CryptoFrame_new 6 [12, 13], CryptoFrame_new 4 [10, 11]] = (c, Ok ())
    \<and> QuicCoalescer_finished c \<and> QuicCoalescer_buf c = [2, 0, 0, 4, 10, 11, 12, 13]"
proof -
  let ?msg = "[2, 0, 0, 4, 10, 11, 12, 13] :: bytes"
  let ?f = "CryptoFrame_new 0 [2, 0, 0, 4, 10]"
  let ?fs = "[CryptoFrame_new 6 [12, 13], CryptoFrame_new 4 [10, 11]]"
  have msg: "?msg = encode_handshake 2 [10, 11, 12, 13]"
    by (simp add: encode_handshake_def to_be_numeral)
  have frames: "frame_of ?msg g" if "g \<in> set (?f # ?fs)" for g
    using that by (auto simp: CryptoFrame_new_def frame_of_def frame_end_def)
  have cover: "{..< length ?msg} \<subseteq> (\<Union>g \<in> set (?f # ?fs). frame_range g)"
    by (auto simp: CryptoFrame_new_def frame_range_def frame_end_def)
  have "CryptoFrame_stream_offset ?f = 0" "4 \<le> length (CryptoFrame_data ?f)"
    by (simp_all add: CryptoFrame_new_def)
  from quic_crypto_reassembly [OF msg _ _ this frames cover, of "0x4000"] show ?thesis
    by (auto simp del: recv_all.simps)
qed

text \<open>
  C20. No payload of an Initial packet makes \<open>consume_frames\<close> with the coalescer panic, and the
  coalescer's invariant survives it, errors included, so that it can go on with the next packet.
\<close>

theorem quic_consume_frames_no_panic:
  assumes "quic_wf c"
  shows "quic_wf (fst (InitialPacket_consume_frames recv_crypto packet c))
    \<and> no_panic (snd (InitialPacket_consume_frames recv_crypto packet c))"
  unfolding InitialPacket_consume_frames_def by (rule quic_coalescer.loop_safe [OF assms])

theorem quic_consume_frames_no_panic_witness:
  "no_panic (snd (InitialPacket_consume_frames recv_crypto
     (V1 \<lparr>InitialPacket_packet_number = 0, InitialPacket_payload = [0x06, 0x05, 0x01, 0xFF]\<rparr>)
     (QuicCoalescer_new 16)))"
  using quic_consume_frames_no_panic [OF quic_wf_new] by simp

text \<open>
  A first frame that carries bytes beyond its message, as a client may send when two handshake
  messages share a CRYPTO frame, leaves the coalescer unfinished: the buffer is cut to the message
  but the filled offset stays beyond it, so the complete ClientHello is not given out.
\<close>

lemma quic_coalescer_overlong_first_frame:
  assumes "msg = encode_handshake t body" and "length body < 2 ^ 24" and "length body \<le> unat m" and "extra \<noteq> []"
  shows "\<exists>c. recv_crypto (QuicCoalescer_new m) (CryptoFrame_new 0 (msg @ extra)) = (c, Ok ())
    \<and> QuicCoalescer_buf c = msg \<and> QuicCoalescer_expected_length c = length msg
    \<and> QuicCoalescer_unfilled_offset c = length msg + length extra \<and> \<not> QuicCoalescer_finished c
    \<and> (t = 1 \<longrightarrow> QuicCoalescer_parse_client_hello c = Ok None)"
proof -
  have h: "stream_header (msg @ extra) =
      \<lparr>HandshakeHeader_msg_type = t, HandshakeHeader_msg_length = of_nat (length body)\<rparr>"
    unfolding assms(1) by (rule stream_header_encode(1) [OF assms(2)])
  have ub: "unat (of_nat (length body) :: u32) = length body"
    using assms(2) by (simp add: unat_of_nat)
  have lm: "length msg = 4 + length body" by (simp add: assms(1) encode_handshake_def)
  have cut: "vec_resize (msg @ extra) (length msg) = msg" by (simp add: vec_resize_def)
  define c where "c = \<lparr>QuicCoalescer_max_message_size = m, QuicCoalescer_header = Some (stream_header (msg @ extra)),
      QuicCoalescer_buf = msg, QuicCoalescer_unfilled_offset = length msg + length extra,
      QuicCoalescer_expected_length = length msg, QuicCoalescer_fragment_set = []\<rparr>"
  have "recv_crypto (QuicCoalescer_new m) (CryptoFrame_new 0 (msg @ extra)) = (c, Ok ())"
    using assms(3,4) ub cut lm
    by (simp add: recv_crypto_def QuicCoalescer_new_def CryptoFrame_new_def recv_in_order_def recv_header_def
        vec_resize_def [of "[]"] HandshakeHeader_try_parse_eq h c_def word_less_nat_alt Let_def add.commute)
  then show ?thesis
    using assms(4) h by (auto simp: c_def QuicCoalescer_finished_def QuicCoalescer_parse_client_hello_def)
qed

end
