(* ===== verification/Net_Host.thy ===== *)
theory Net_Host
  imports Rust_Prelude
begin

text \<open>
  Host names and addresses (\<open>g3-types/src/net/host.rs\<close>). The textual address parsers are those of
  Rust's standard library, a parser state being the bytes that are left; \<open>domain_to_ascii\<close> of the
  \<open>idna\<close> crate is a parameter of the operations that call it.
\<close>

section \<open>Byte searches of the standard library and of \<open>memchr\<close>\<close>

text \<open>A byte literal \<open>b'c'\<close>.\<close>

abbreviation (input) byte :: "char \<Rightarrow> u8" where
  "byte c \<equiv> of_char c"

definition starts_with :: "bytes \<Rightarrow> bytes \<Rightarrow> bool" where
  "starts_with data p \<longleftrightarrow> take (length p) data = p"

fun memchr :: "u8 \<Rightarrow> bytes \<Rightarrow> nat option" where
  "memchr b [] = None"
| "memchr b (x # xs) = (if x = b then Some 0 else map_option Suc (memchr b xs))"

text \<open>\<open>std::str::from_utf8\<close> succeeds exactly on well-formed UTF-8.\<close>

definition utf8_cont :: "u8 \<Rightarrow> bool" where
  "utf8_cont b \<longleftrightarrow> 0x80 \<le> b \<and> b \<le> 0xBF"

fun utf8_valid :: "bytes \<Rightarrow> bool" where
  "utf8_valid [] = True"
| "utf8_valid (b # bs) =
     (if b < 0x80 then utf8_valid bs
      else
        (case bs of
           [] \<Rightarrow> False
         | c # cs \<Rightarrow>
             if 0xC2 \<le> b \<and> b \<le> 0xDF then utf8_cont c \<and> utf8_valid cs
             else
               (case cs of
                  [] \<Rightarrow> False
                | d # ds \<Rightarrow>
                    if b = 0xE0 then 0xA0 \<le> c \<and> c \<le> 0xBF \<and> utf8_cont d \<and> utf8_valid ds
                    else if b = 0xED then 0x80 \<le> c \<and> c \<le> 0x9F \<and> utf8_cont d \<and> utf8_valid ds
                    else if 0xE1 \<le> b \<and> b \<le> 0xEF then utf8_cont c \<and> utf8_cont d \<and> utf8_valid ds
                    else
                      (case ds of
                         [] \<Rightarrow> False
                       | e # es \<Rightarrow>
                           if b = 0xF0 then 0x90 \<le> c \<and> c \<le> 0xBF \<and> utf8_cont d \<and> utf8_cont e \<and> utf8_valid es
                           else if 0xF1 \<le> b \<and> b \<le> 0xF3 then utf8_cont c \<and> utf8_cont d \<and> utf8_cont e \<and> utf8_valid es
                           else if b = 0xF4 then 0x80 \<le> c \<and> c \<le> 0x8F \<and> utf8_cont d \<and> utf8_cont e \<and> utf8_valid es
                           else False))))"

section \<open>Internet addresses\<close>

datatype IpAddr = V4 u32 | V6 "128 word"

text \<open>\<open>char::to_digit\<close> on the character of a byte.\<close>

definition to_digit :: "nat \<Rightarrow> u8 \<Rightarrow> nat option" where
  "to_digit radix b =
     (let n = unat b;
          d = (if 48 \<le> n \<and> n \<le> 57 then Some (n - 48)
               else if 97 \<le> n \<and> n \<le> 122 then Some (n - 87)
               else if 65 \<le> n \<and> n \<le> 90 then Some (n - 55)
               else None)
      in case d of None \<Rightarrow> None | Some v \<Rightarrow> if v < radix then Some v else None)"

fun read_digits :: "nat \<Rightarrow> nat \<Rightarrow> nat \<Rightarrow> nat \<Rightarrow> bytes \<Rightarrow> (nat \<times> nat \<times> bytes) option" where
  "read_digits radix max_digits count result [] = Some (result, count, [])"
| "read_digits radix max_digits count result (b # p) =
     (case to_digit radix b of
        None \<Rightarrow> Some (result, count, b # p)
      | Some digit \<Rightarrow>
          if max_digits < count + 1 then None
          else read_digits radix max_digits (count + 1) (result * radix + digit) p)"

definition read_number :: "nat \<Rightarrow> nat \<Rightarrow> nat \<Rightarrow> bool \<Rightarrow> bytes \<Rightarrow> (nat \<times> bytes) option" where
  "read_number radix max_digits bound allow_zero_prefix p =
     (case read_digits radix max_digits 0 0 p of
        None \<Rightarrow> None
      | Some (result, digit_count, p') \<Rightarrow>
          if digit_count = 0 then None
          else if \<not> allow_zero_prefix \<and> take 1 p = [0x30] \<and> 1 < digit_count then None
          else if bound \<le> result then None
          else Some (result, p'))"

definition read_given_char :: "u8 \<Rightarrow> bytes \<Rightarrow> bytes option" where
  "read_given_char c p = (case p of [] \<Rightarrow> None | b # p' \<Rightarrow> if b = c then Some p' else None)"

definition read_separator ::
  "u8 \<Rightarrow> nat \<Rightarrow> (bytes \<Rightarrow> ('a \<times> bytes) option) \<Rightarrow> bytes \<Rightarrow> ('a \<times> bytes) option" where
  "read_separator sep i inner p =
     (if 0 < i
      then (case read_given_char sep p of None \<Rightarrow> None | Some p' \<Rightarrow> inner p')
      else inner p)"

definition read_octet :: "nat \<Rightarrow> bytes \<Rightarrow> (nat \<times> bytes) option" where
  "read_octet i = read_separator 0x2E i (read_number 10 3 256 False)"

text \<open>The four octets of an IPv4 address, and the bytes that follow.\<close>

definition read_ipv4_addr :: "bytes \<Rightarrow> (bytes \<times> bytes) option" where
  "read_ipv4_addr p =
     (case read_octet 0 p of
        None \<Rightarrow> None
      | Some (a, p) \<Rightarrow>
          (case read_octet 1 p of
             None \<Rightarrow> None
           | Some (b, p) \<Rightarrow>
               (case read_octet 2 p of
                  None \<Rightarrow> None
                | Some (c, p) \<Rightarrow>
                    (case read_octet 3 p of
                       None \<Rightarrow> None
                     | Some (d, p) \<Rightarrow> Some ([of_nat a, of_nat b, of_nat c, of_nat d], p)))))"

definition Ipv4Addr_from_str :: "bytes \<Rightarrow> u32 option" where
  "Ipv4Addr_from_str s =
     (if 15 < length s then None
      else (case read_ipv4_addr s of
              Some (octets, []) \<Rightarrow> Some (from_be octets)
            | _ \<Rightarrow> None))"

text \<open>
  \<open>read_groups limit i groups p\<close> continues with group \<open>i\<close> of at most \<open>limit\<close>; the flag says that
  the last two groups were written as an IPv4 address.
\<close>

function read_groups :: "nat \<Rightarrow> nat \<Rightarrow> u16 list \<Rightarrow> bytes \<Rightarrow> u16 list \<times> bool \<times> bytes" where
  "read_groups limit i groups p =
     (if limit \<le> i then (groups, False, p)
      else
        (case (if i < limit - 1 then read_separator 0x3A i read_ipv4_addr p else None) of
           Some (octets, p') \<Rightarrow>
             (groups @ [from_be (take 2 octets), from_be (drop 2 octets)], True, p')
         | None \<Rightarrow>
             (case read_separator 0x3A i (read_number 16 4 65536 True) p of
                Some (g, p') \<Rightarrow> read_groups limit (i + 1) (groups @ [of_nat g]) p'
              | None \<Rightarrow> (groups, False, p))))"
  by pat_completeness auto
termination by (relation "measure (\<lambda>(limit, i, _). limit - i)") auto

definition groups_value :: "u16 list \<Rightarrow> 128 word" where
  "groups_value groups = fold (\<lambda>g v. v * 65536 + ucast g) groups 0"

definition read_ipv6_addr :: "bytes \<Rightarrow> (128 word \<times> bytes) option" where
  "read_ipv6_addr p =
     (let (head, head_ipv4, p) = read_groups 8 0 [] p in
      if length head = 8 then Some (groups_value head, p)
      else if head_ipv4 then None
      else
        (case read_given_char 0x3A p of
           None \<Rightarrow> None
         | Some p \<Rightarrow>
             (case read_given_char 0x3A p of
                None \<Rightarrow> None
              | Some p \<Rightarrow>
                  let (tail, _, p) = read_groups (8 - (length head + 1)) 0 [] p
                  in Some (groups_value (head @ replicate (8 - length head - length tail) 0 @ tail), p))))"

definition Ipv6Addr_from_str :: "bytes \<Rightarrow> 128 word option" where
  "Ipv6Addr_from_str s =
     (case read_ipv6_addr s of Some (v, []) \<Rightarrow> Some v | _ \<Rightarrow> None)"

section \<open>Hosts\<close>

datatype Host = Ip IpAddr | Domain bytes

definition Host_empty :: Host where
  "Host_empty = Ip (V4 0)"

definition Host_localhost_v4 :: Host where
  "Host_localhost_v4 = Ip (V4 0x7F000001)"

fun Host_is_empty :: "Host \<Rightarrow> bool" where
  "Host_is_empty (Ip (V4 a)) = (a = 0)"
| "Host_is_empty (Ip (V6 a)) = (a = 0)"
| "Host_is_empty (Domain d) = (d = [])"

text \<open>An IPv4-mapped address has the form \<open>::ffff:a.b.c.d\<close>.\<close>

definition to_ipv4_mapped :: "128 word \<Rightarrow> u32 option" where
  "to_ipv4_mapped a = (if drop_bit 32 a = 0xFFFF then Some (ucast a) else None)"

definition Host_from_maybe_mapped_ip6 :: "128 word \<Rightarrow> Host" where
  "Host_from_maybe_mapped_ip6 ip6 =
     (case to_ipv4_mapped ip6 of Some ip4 \<Rightarrow> Ip (V4 ip4) | None \<Rightarrow> Ip (V6 ip6))"

definition Host_from_domain_str :: "(bytes \<Rightarrow> bytes option) \<Rightarrow> bytes \<Rightarrow> Host option" where
  "Host_from_domain_str domain_to_ascii domain = map_option Domain (domain_to_ascii domain)"

definition Host_parse_smtp_host_address ::
  "(bytes \<Rightarrow> bytes option) \<Rightarrow> bytes \<Rightarrow> (Host option, 'e) res" where
  "Host_parse_smtp_host_address domain_to_ascii buf =
     (if buf = [] then Ok None
      else
        res_bind (index buf 0) (\<lambda>b0.
        if b0 = 0x5B then
          let end = length buf - 1 in
          res_bind (index buf end) (\<lambda>be.
          if be \<noteq> 0x5D then Ok None
          else
            res_bind (slice buf 1 end) (\<lambda>s.
            if \<not> utf8_valid s then Ok None
            else Ok (map_option (\<lambda>v4. Ip (V4 v4)) (Ipv4Addr_from_str s))))
        else
          (case memchr 0x3A buf of
             Some d \<Rightarrow>
               res_bind (slice buf 0 d) (\<lambda>tag.
               if tag = ascii ''Ipv6'' then
                 res_bind (slice_from buf (d + 1)) (\<lambda>s.
                 if \<not> utf8_valid s then Ok None
                 else Ok (map_option (\<lambda>v6. Ip (V6 v6)) (Ipv6Addr_from_str s)))
               else Ok None)
           | None \<Rightarrow>
               if \<not> utf8_valid buf then Ok None
               else Ok (Host_from_domain_str domain_to_ascii buf))))"

section \<open>Facts\<close>

lemma memchr_Some:
  "memchr b xs = Some p \<Longrightarrow> p < length xs \<and> xs ! p = b \<and> b \<notin> set (take p xs)"
proof (induction b xs arbitrary: p rule: memchr.induct)
  case (1 b)
  then show ?case by simp
next
  case (2 b x xs)
  show ?case
  proof (cases "x = b")
    case False
    with 2 show ?thesis by (cases p) auto
  qed (use 2 in auto)
qed

lemma memchr_None: "memchr b xs = None \<longleftrightarrow> b \<notin> set xs"
  by (induction b xs rule: memchr.induct) auto

lemma memchr_append:
  "memchr b (xs @ ys) =
     (case memchr b xs of Some p \<Rightarrow> Some p | None \<Rightarrow> map_option (\<lambda>p. p + length xs) (memchr b ys))"
  by (induction b xs rule: memchr.induct)
     (auto split: option.splits simp: option.map_comp comp_def option.map_ident)

lemma starts_with_append: "starts_with data p \<Longrightarrow> starts_with (data @ more) p"
  by (metis append_take_drop_id append_eq_conv_conj starts_with_def append.assoc)

lemma starts_with_prefix:
  "length p \<le> length data \<Longrightarrow> starts_with (data @ more) p = starts_with data p"
  by (simp add: starts_with_def)

lemma starts_with_length: "starts_with data p \<Longrightarrow> length p \<le> length data"
  by (metis starts_with_def length_take min.cobounded1)

lemma smtp_host_no_panic [ensures_rules]:
  assumes "\<And>h. Q h"
  shows "ensures (Host_parse_smtp_host_address idna buf) Q"
proof -
  have "buf \<noteq> [] \<Longrightarrow> buf ! 0 = 0x5B \<Longrightarrow> buf ! (length buf - 1) = 0x5D \<Longrightarrow> 1 \<le> length buf - 1"
    by (cases "length buf - 1") auto
  then show ?thesis
    unfolding Host_parse_smtp_host_address_def Let_def
    using assms by (auto split: option.split dest!: memchr_Some)
qed

end
