(* ===== verification/Dpi_Protocol.thy ===== *)
theory Dpi_Protocol
  imports Net_Host
begin

text \<open>
  The protocols the traffic inspector knows (\<open>g3-dpi/src/protocol/mod.rs\<close>), their names, the ALPN
  and WebSocket identifiers that announce them (\<open>g3-types/src/net/tls/alpn.rs\<close>,
  \<open>g3-types/src/net/websocket.rs\<close>) and the map from ports to the protocols to try there
  (\<open>g3-dpi/src/protocol/portmap.rs\<close>).
\<close>

section \<open>Protocols\<close>

datatype MaybeProtocol =
    MP_Http | MP_Smtp | MP_Odmr | MP_Ssh | MP_Ftp | MP_Dns | MP_Ldap | MP_Pop3 | MP_Nntp
  | MP_Nnsp | MP_Imap | MP_Rtsp | MP_Mqtt | MP_Stomp | MP_Smpp | MP_Rtmp | MP_Nats
  | MP_BitTorrent | MP_Https | MP_Submissions | MP_Pop3s | MP_Nntps | MP_Imaps | MP_Rtsps
  | MP_SecureMqtt | MP_Ssmpp | MP_Rtmps | MP_DnsOverTls | MP_Ldaps | MP_Ssl | MP_MaxSize

datatype Protocol =
    P_Unknown | P_Timeout | P_SslLegacy | P_TlsLegacy | P_TlsModern | P_TlsTlcp | P_Http1
  | P_Http2 | P_Http3 | P_Smtp | P_SshLegacy | P_Ssh | P_FtpControl | P_Pop3 | P_Nntp
  | P_Nnsp | P_Imap | P_Rtsp | P_Mqtt | P_Stomp | P_Smpp | P_RtmpOverTcp | P_RtmpOverHttp
  | P_Nats | P_BitTorrentOverTcp | P_BitTorrentOverUtp | P_Websocket | P_Dns | P_Ldap

datatype AlpnProtocol =
    Alpn_Http10 | Alpn_Http11 | Alpn_Http2 | Alpn_Http3 | Alpn_Ftp | Alpn_Smtp | Alpn_Imap
  | Alpn_Pop3 | Alpn_Nntp | Alpn_Nnsp | Alpn_Mqtt | Alpn_DnsOverTls | Alpn_DnsOverQuic

datatype WebSocketSubProtocol = Ws_Mqtt | Ws_StompV10 | Ws_StompV11 | Ws_StompV12

fun MaybeProtocol_is_ssl :: "MaybeProtocol \<Rightarrow> bool" where
  "MaybeProtocol_is_ssl MP_Ssl = True"
| "MaybeProtocol_is_ssl MP_Https = True"
| "MaybeProtocol_is_ssl MP_Submissions = True"
| "MaybeProtocol_is_ssl MP_Pop3s = True"
| "MaybeProtocol_is_ssl MP_Nntps = True"
| "MaybeProtocol_is_ssl MP_Imaps = True"
| "MaybeProtocol_is_ssl MP_Rtsps = True"
| "MaybeProtocol_is_ssl MP_SecureMqtt = True"
| "MaybeProtocol_is_ssl MP_Ssmpp = True"
| "MaybeProtocol_is_ssl MP_Rtmps = True"
| "MaybeProtocol_is_ssl MP_DnsOverTls = True"
| "MaybeProtocol_is_ssl MP_Ldaps = True"
| "MaybeProtocol_is_ssl _ = False"

text \<open>
  Configuration names are matched after \<open>to_lowercase\<close>. Of the characters outside ASCII only the
  Kelvin sign becomes a single ASCII letter, the letter k, which no name has; the other bytes of a
  string stay outside ASCII, so lower casing the ASCII letters decides the match.
\<close>

definition to_lowercase :: "string \<Rightarrow> string" where
  "to_lowercase s =
     map (\<lambda>c. let n = of_char c :: nat in if 65 \<le> n \<and> n \<le> 90 then char_of (n + 32) else c) s"

definition MaybeProtocol_from_str :: "string \<Rightarrow> (MaybeProtocol, unit) res" where
  "MaybeProtocol_from_str s =
     (let l = to_lowercase s in
      if l = ''http'' then Ok MP_Http
      else if l = ''smtp'' then Ok MP_Smtp
      else if l = ''odmr'' then Ok MP_Odmr
      else if l = ''ssh'' then Ok MP_Ssh
      else if l = ''ftp'' then Ok MP_Ftp
      else if l = ''dns'' then Ok MP_Dns
      else if l = ''ldap'' then Ok MP_Ldap
      else if l = ''pop3'' then Ok MP_Pop3
      else if l = ''nntp'' then Ok MP_Nntp
      else if l = ''nnsp'' then Ok MP_Nnsp
      else if l = ''imap'' then Ok MP_Imap
      else if l = ''rtsp'' then Ok MP_Rtsp
      else if l = ''mqtt'' then Ok MP_Mqtt
      else if l = ''stomp'' then Ok MP_Stomp
      else if l = ''smpp'' then Ok MP_Smpp
      else if l = ''rtmp'' then Ok MP_Rtmp
      else if l = ''nats'' then Ok MP_Nats
      else if l \<in> {''bittorrent'', ''bt''} then Ok MP_BitTorrent
      else if l \<in> {''https'', ''http+tls''} then Ok MP_Https
      else if l \<in> {''submissions'', ''smtps''} then Ok MP_Submissions
      else if l \<in> {''pop3s'', ''pop3+tls''} then Ok MP_Pop3s
      else if l \<in> {''nntps'', ''nntp+tls'', ''snntp''} then Ok MP_Nntps
      else if l \<in> {''imaps'', ''imap+tls''} then Ok MP_Imaps
      else if l \<in> {''rtsps'', ''rtsp+tls''} then Ok MP_Rtsps
      else if l = ''secure-mqtt'' then Ok MP_SecureMqtt
      else if l \<in> {''ssmpp'', ''smpps'', ''secure smpp''} then Ok MP_Ssmpp
      else if l \<in> {''rtmps'', ''rtmp+tls''} then Ok MP_Rtmps
      else if l \<in> {''dot'', ''dnsovertls'', ''dns-over-tls''} then Ok MP_DnsOverTls
      else if l = ''ldaps'' then Ok MP_Ldaps
      else if l \<in> {''ssl'', ''tls''} then Ok MP_Ssl
      else Err ())"

fun MaybeProtocol_from_alpn :: "AlpnProtocol \<Rightarrow> MaybeProtocol" where
  "MaybeProtocol_from_alpn Alpn_Http10 = MP_Http"
| "MaybeProtocol_from_alpn Alpn_Http11 = MP_Http"
| "MaybeProtocol_from_alpn Alpn_Http2 = MP_Http"
| "MaybeProtocol_from_alpn Alpn_Http3 = MP_Http"
| "MaybeProtocol_from_alpn Alpn_Ftp = MP_Ftp"
| "MaybeProtocol_from_alpn Alpn_Smtp = MP_Smtp"
| "MaybeProtocol_from_alpn Alpn_Imap = MP_Imap"
| "MaybeProtocol_from_alpn Alpn_Pop3 = MP_Pop3"
| "MaybeProtocol_from_alpn Alpn_Nntp = MP_Nntp"
| "MaybeProtocol_from_alpn Alpn_Nnsp = MP_Nnsp"
| "MaybeProtocol_from_alpn Alpn_Mqtt = MP_Mqtt"
| "MaybeProtocol_from_alpn Alpn_DnsOverTls = MP_Dns"
| "MaybeProtocol_from_alpn Alpn_DnsOverQuic = MP_Dns"

fun MaybeProtocol_from_websocket :: "WebSocketSubProtocol \<Rightarrow> MaybeProtocol" where
  "MaybeProtocol_from_websocket Ws_Mqtt = MP_Mqtt"
| "MaybeProtocol_from_websocket Ws_StompV10 = MP_Stomp"
| "MaybeProtocol_from_websocket Ws_StompV11 = MP_Stomp"
| "MaybeProtocol_from_websocket Ws_StompV12 = MP_Stomp"

fun Protocol_from_alpn :: "AlpnProtocol \<Rightarrow> Protocol" where
  "Protocol_from_alpn Alpn_Http10 = P_Http1"
| "Protocol_from_alpn Alpn_Http11 = P_Http1"
| "Protocol_from_alpn Alpn_Http2 = P_Http2"
| "Protocol_from_alpn Alpn_Http3 = P_Http3"
| "Protocol_from_alpn Alpn_Ftp = P_FtpControl"
| "Protocol_from_alpn Alpn_Smtp = P_Smtp"
| "Protocol_from_alpn Alpn_Imap = P_Imap"
| "Protocol_from_alpn Alpn_Pop3 = P_Pop3"
| "Protocol_from_alpn Alpn_Nntp = P_Nntp"
| "Protocol_from_alpn Alpn_Nnsp = P_Nnsp"
| "Protocol_from_alpn Alpn_Mqtt = P_Mqtt"
| "Protocol_from_alpn Alpn_DnsOverTls = P_Dns"
| "Protocol_from_alpn Alpn_DnsOverQuic = P_Dns"

fun Protocol_as_str :: "Protocol \<Rightarrow> string" where
  "Protocol_as_str P_Unknown = ''_unknown''"
| "Protocol_as_str P_Timeout = ''_timeout''"
| "Protocol_as_str P_SslLegacy = ''ssl_legacy''"
| "Protocol_as_str P_TlsLegacy = ''tls_legacy''"
| "Protocol_as_str P_TlsModern = ''tls_modern''"
| "Protocol_as_str P_TlsTlcp = ''tls_tlcp''"
| "Protocol_as_str P_Http1 = ''http_1''"
| "Protocol_as_str P_Http2 = ''http_2''"
| "Protocol_as_str P_Http3 = ''http_3''"
| "Protocol_as_str P_Smtp = ''smtp''"
| "Protocol_as_str P_SshLegacy = ''ssh_legacy''"
| "Protocol_as_str P_Ssh = ''ssh''"
| "Protocol_as_str P_FtpControl = ''ftp_control''"
| "Protocol_as_str P_Pop3 = ''pop3''"
| "Protocol_as_str P_Nntp = ''nntp''"
| "Protocol_as_str P_Nnsp = ''nnsp''"
| "Protocol_as_str P_Imap = ''imap''"
| "Protocol_as_str P_Rtsp = ''rtsp''"
| "Protocol_as_str P_Mqtt = ''mqtt''"
| "Protocol_as_str P_Stomp = ''stomp''"
| "Protocol_as_str P_Smpp = ''smpp''"
| "Protocol_as_str P_RtmpOverTcp = ''rtmp''"
| "Protocol_as_str P_RtmpOverHttp = ''rtmp''"
| "Protocol_as_str P_Nats = ''nats''"
| "Protocol_as_str P_BitTorrentOverTcp = ''bittorrent''"
| "Protocol_as_str P_BitTorrentOverUtp = ''bittorrent''"
| "Protocol_as_str P_Websocket = ''websocket''"
| "Protocol_as_str P_Dns = ''dns''"
| "Protocol_as_str P_Ldap = ''ldap''"

fun Protocol_wireshark_dissector :: "Protocol \<Rightarrow> string" where
  "Protocol_wireshark_dissector P_Unknown = ''''"
| "Protocol_wireshark_dissector P_Timeout = ''''"
| "Protocol_wireshark_dissector P_SslLegacy = ''tls''"
| "Protocol_wireshark_dissector P_TlsLegacy = ''tls''"
| "Protocol_wireshark_dissector P_TlsModern = ''tls''"
| "Protocol_wireshark_dissector P_TlsTlcp = ''tls''"
| "Protocol_wireshark_dissector P_Http1 = ''http''"
| "Protocol_wireshark_dissector P_Http2 = ''http2''"
| "Protocol_wireshark_dissector P_Http3 = ''http3''"
| "Protocol_wireshark_dissector P_Smtp = ''smtp''"
| "Protocol_wireshark_dissector P_SshLegacy = ''ssh''"
| "Protocol_wireshark_dissector P_Ssh = ''ssh''"
| "Protocol_wireshark_dissector P_FtpControl = ''ftp''"
| "Protocol_wireshark_dissector P_Pop3 = ''pop''"
| "Protocol_wireshark_dissector P_Nntp = ''nntp''"
| "Protocol_wireshark_dissector P_Nnsp = ''nntp''"
| "Protocol_wireshark_dissector P_Imap = ''imap''"
| "Protocol_wireshark_dissector P_Rtsp = ''rtsp''"
| "Protocol_wireshark_dissector P_Mqtt = ''mqtt''"
| "Protocol_wireshark_dissector P_Stomp = ''stomp''"
| "Protocol_wireshark_dissector P_Smpp = ''smpp''"
| "Protocol_wireshark_dissector P_RtmpOverTcp = ''rtmpt.tcp''"
| "Protocol_wireshark_dissector P_RtmpOverHttp = ''rtmpt.http''"
| "Protocol_wireshark_dissector P_Nats = ''nats''"
| "Protocol_wireshark_dissector P_BitTorrentOverTcp = ''bittorrent.tcp''"
| "Protocol_wireshark_dissector P_BitTorrentOverUtp = ''bittorrent.utp''"
| "Protocol_wireshark_dissector P_Websocket = ''websocket''"
| "Protocol_wireshark_dissector P_Dns = ''dns''"
| "Protocol_wireshark_dissector P_Ldap = ''ldap''"

fun Protocol_wireshark_protocol :: "Protocol \<Rightarrow> string" where
  "Protocol_wireshark_protocol P_Unknown = ''''"
| "Protocol_wireshark_protocol P_Timeout = ''''"
| "Protocol_wireshark_protocol P_SslLegacy = ''tls''"
| "Protocol_wireshark_protocol P_TlsLegacy = ''tls''"
| "Protocol_wireshark_protocol P_TlsModern = ''tls''"
| "Protocol_wireshark_protocol P_TlsTlcp = ''tls''"
| "Protocol_wireshark_protocol P_Http1 = ''http''"
| "Protocol_wireshark_protocol P_Http2 = ''http2''"
| "Protocol_wireshark_protocol P_Http3 = ''http3''"
| "Protocol_wireshark_protocol P_Smtp = ''smtp''"
| "Protocol_wireshark_protocol P_SshLegacy = ''ssh''"
| "Protocol_wireshark_protocol P_Ssh = ''ssh''"
| "Protocol_wireshark_protocol P_FtpControl = ''ftp''"
| "Protocol_wireshark_protocol P_Pop3 = ''pop''"
| "Protocol_wireshark_protocol P_Nntp = ''nntp''"
| "Protocol_wireshark_protocol P_Nnsp = ''nntp''"
| "Protocol_wireshark_protocol P_Imap = ''imap''"
| "Protocol_wireshark_protocol P_Rtsp = ''rtsp''"
| "Protocol_wireshark_protocol P_Mqtt = ''mqtt''"
| "Protocol_wireshark_protocol P_Stomp = ''stomp''"
| "Protocol_wireshark_protocol P_Smpp = ''smpp''"
| "Protocol_wireshark_protocol P_RtmpOverTcp = ''rtmpt''"
| "Protocol_wireshark_protocol P_RtmpOverHttp = ''rtmpt''"
| "Protocol_wireshark_protocol P_Nats = ''nats''"
| "Protocol_wireshark_protocol P_BitTorrentOverTcp = ''bittorrent''"
| "Protocol_wireshark_protocol P_BitTorrentOverUtp = ''bittorrent''"
| "Protocol_wireshark_protocol P_Websocket = ''websocket''"
| "Protocol_wireshark_protocol P_Dns = ''dns''"
| "Protocol_wireshark_protocol P_Ldap = ''ldap''"

fun AlpnProtocol_as_str :: "AlpnProtocol \<Rightarrow> string" where
  "AlpnProtocol_as_str Alpn_Http10 = ''http/1.0''"
| "AlpnProtocol_as_str Alpn_Http11 = ''http/1.1''"
| "AlpnProtocol_as_str Alpn_Http2 = ''h2''"
| "AlpnProtocol_as_str Alpn_Http3 = ''h3''"
| "AlpnProtocol_as_str Alpn_Ftp = ''ftp''"
| "AlpnProtocol_as_str Alpn_Smtp = ''smtp''"
| "AlpnProtocol_as_str Alpn_Imap = ''imap''"
| "AlpnProtocol_as_str Alpn_Pop3 = ''pop3''"
| "AlpnProtocol_as_str Alpn_Nntp = ''nntp''"
| "AlpnProtocol_as_str Alpn_Nnsp = ''nnsp''"
| "AlpnProtocol_as_str Alpn_Mqtt = ''mqtt''"
| "AlpnProtocol_as_str Alpn_DnsOverTls = ''dot''"
| "AlpnProtocol_as_str Alpn_DnsOverQuic = ''doq''"

fun AlpnProtocol_wired_identification_sequence :: "AlpnProtocol \<Rightarrow> bytes" where
  "AlpnProtocol_wired_identification_sequence Alpn_Http10 = 8 # ascii ''http/1.0''"
| "AlpnProtocol_wired_identification_sequence Alpn_Http11 = 8 # ascii ''http/1.1''"
| "AlpnProtocol_wired_identification_sequence Alpn_Http2 = 2 # ascii ''h2''"
| "AlpnProtocol_wired_identification_sequence Alpn_Http3 = 2 # ascii ''h3''"
| "AlpnProtocol_wired_identification_sequence Alpn_Ftp = 3 # ascii ''ftp''"
| "AlpnProtocol_wired_identification_sequence Alpn_Smtp = 4 # ascii ''smtp''"
| "AlpnProtocol_wired_identification_sequence Alpn_Imap = 4 # ascii ''imap''"
| "AlpnProtocol_wired_identification_sequence Alpn_Pop3 = 4 # ascii ''pop3''"
| "AlpnProtocol_wired_identification_sequence Alpn_Nntp = 4 # ascii ''nntp''"
| "AlpnProtocol_wired_identification_sequence Alpn_Nnsp = 4 # ascii ''nnsp''"
| "AlpnProtocol_wired_identification_sequence Alpn_Mqtt = 4 # ascii ''mqtt''"
| "AlpnProtocol_wired_identification_sequence Alpn_DnsOverTls = 3 # ascii ''dot''"
| "AlpnProtocol_wired_identification_sequence Alpn_DnsOverQuic = 3 # ascii ''doq''"

definition AlpnProtocol_identification_sequence :: "AlpnProtocol \<Rightarrow> (bytes, 'e) res" where
  "AlpnProtocol_identification_sequence self = slice_from (AlpnProtocol_wired_identification_sequence self) 1"

definition AlpnProtocol_from_selected :: "bytes \<Rightarrow> AlpnProtocol option" where
  "AlpnProtocol_from_selected buf =
     (if buf = ascii ''http/1.0'' then Some Alpn_Http10
      else if buf = ascii ''http/1.1'' then Some Alpn_Http11
      else if buf = ascii ''h2'' then Some Alpn_Http2
      else if buf = ascii ''h3'' then Some Alpn_Http3
      else if buf = ascii ''ftp'' then Some Alpn_Ftp
      else if buf = ascii ''smtp'' then Some Alpn_Smtp
      else if buf = ascii ''imap'' then Some Alpn_Imap
      else if buf = ascii ''pop3'' then Some Alpn_Pop3
      else if buf = ascii ''nntp'' then Some Alpn_Nntp
      else if buf = ascii ''nnsp'' then Some Alpn_Nnsp
      else if buf = ascii ''mqtt'' then Some Alpn_Mqtt
      else if buf = ascii ''dot'' then Some Alpn_DnsOverTls
      else if buf = ascii ''doq'' then Some Alpn_DnsOverQuic
      else None)"

fun WebSocketSubProtocol_as_str :: "WebSocketSubProtocol \<Rightarrow> string" where
  "WebSocketSubProtocol_as_str Ws_Mqtt = ''mqtt''"
| "WebSocketSubProtocol_as_str Ws_StompV10 = ''v10.stomp''"
| "WebSocketSubProtocol_as_str Ws_StompV11 = ''v11.stomp''"
| "WebSocketSubProtocol_as_str Ws_StompV12 = ''v12.stomp''"

definition WebSocketSubProtocol_from_buf :: "bytes \<Rightarrow> WebSocketSubProtocol option" where
  "WebSocketSubProtocol_from_buf buf =
     (if buf = ascii ''mqtt'' then Some Ws_Mqtt
      else if buf = ascii ''v10.stomp'' then Some Ws_StompV10
      else if buf = ascii ''v11.stomp'' then Some Ws_StompV11
      else if buf = ascii ''v12.stomp'' then Some Ws_StompV12
      else None)"

section \<open>The ALPN extension\<close>

datatype TlsAlpnError =
    Alpn_NotEnoughData nat | Alpn_InvalidListLength u16 | Alpn_EmptyProtocolName | Alpn_TruncatedProtocolName

record TlsAlpn =
  TlsAlpn_raw_list :: bytes

text \<open>The loop over the names of the list, from \<open>offset\<close>.\<close>

function TlsAlpn_check_names :: "bytes \<Rightarrow> nat \<Rightarrow> (unit, TlsAlpnError) res" where
  "TlsAlpn_check_names buf offset =
     (if length buf = offset then Ok ()
      else if length buf < offset then Err Alpn_TruncatedProtocolName
      else
        res_bind (index buf offset) (\<lambda>b.
        let name_len = unat b in
        if name_len = 0 then Err Alpn_EmptyProtocolName
        else TlsAlpn_check_names buf (offset + (1 + name_len))))"
  by pat_completeness auto
termination by (relation "measure (\<lambda>(buf, offset). Suc (length buf) - offset)") auto

definition TlsAlpn_from_extension_value :: "bytes \<Rightarrow> (TlsAlpn, TlsAlpnError) res" where
  "TlsAlpn_from_extension_value buf =
     (let buf_len = length buf in
      if buf_len < 2 then Err (Alpn_NotEnoughData buf_len)
      else
        res_bind (indices buf [0..<2]) (\<lambda>l.
        let list_len = (from_be l :: u16) in
        if unat list_len + 2 \<noteq> buf_len then Err (Alpn_InvalidListLength list_len)
        else
          res_bind (TlsAlpn_check_names buf 2) (\<lambda>_.
          res_bind (slice_from buf 2) (\<lambda>l.
          Ok \<lparr>TlsAlpn_raw_list = l\<rparr>))))"

function TlsAlpn_retain_loop ::
  "bytes \<Rightarrow> (bytes \<Rightarrow> bool) \<Rightarrow> nat \<Rightarrow> bytes \<Rightarrow> (bytes, 'e) res" where
  "TlsAlpn_retain_loop raw_list retain offset new =
     (if \<not> offset < length raw_list then Ok new
      else
        res_bind (index raw_list offset) (\<lambda>b.
        let len = unat b in
        if length raw_list < offset + len then Ok new
        else
          let start = offset + 1; end = start + len in
          res_bind (slice raw_list start end) (\<lambda>name.
          if retain name then
            res_bind (slice raw_list offset end) (\<lambda>wired.
            TlsAlpn_retain_loop raw_list retain end (new @ wired))
          else TlsAlpn_retain_loop raw_list retain end new)))"
  by pat_completeness auto
termination by (relation "measure (\<lambda>(raw_list, _, offset, _). length raw_list - offset)") auto

definition TlsAlpn_retain_clone :: "TlsAlpn \<Rightarrow> (bytes \<Rightarrow> bool) \<Rightarrow> (TlsAlpn, 'e) res" where
  "TlsAlpn_retain_clone self retain =
     res_bind (TlsAlpn_retain_loop (TlsAlpn_raw_list self) retain 0 []) (\<lambda>new.
     Ok \<lparr>TlsAlpn_raw_list = new\<rparr>)"

definition TlsAlpn_is_empty :: "TlsAlpn \<Rightarrow> bool" where
  "TlsAlpn_is_empty self \<longleftrightarrow> TlsAlpn_raw_list self = []"

section \<open>The port map\<close>

record ProtocolPortMapValue =
  PPMV_check_ssl :: bool
  PPMV_protocols :: "MaybeProtocol list"

definition ProtocolPortMapValue_default :: ProtocolPortMapValue where
  "ProtocolPortMapValue_default = \<lparr>PPMV_check_ssl = False, PPMV_protocols = []\<rparr>"

text \<open>The protocol inside TLS that a TLS protocol stands for.\<close>

fun tls_payload :: "MaybeProtocol \<Rightarrow> MaybeProtocol option" where
  "tls_payload MP_Https = Some MP_Http"
| "tls_payload MP_Submissions = Some MP_Smtp"
| "tls_payload MP_Pop3s = Some MP_Pop3"
| "tls_payload MP_Nntps = Some MP_Nntp"
| "tls_payload MP_Imaps = Some MP_Imap"
| "tls_payload MP_Rtsps = Some MP_Rtsp"
| "tls_payload MP_SecureMqtt = Some MP_Mqtt"
| "tls_payload MP_Ssmpp = Some MP_Smpp"
| "tls_payload MP_Rtmps = Some MP_Rtmp"
| "tls_payload MP_DnsOverTls = Some MP_Dns"
| "tls_payload MP_Ldaps = Some MP_Ldap"
| "tls_payload _ = None"

definition PPMV_push :: "ProtocolPortMapValue \<Rightarrow> MaybeProtocol \<Rightarrow> ProtocolPortMapValue" where
  "PPMV_push self p =
     (if p \<notin> set (PPMV_protocols self) then self\<lparr>PPMV_protocols := PPMV_protocols self @ [p]\<rparr> else self)"

definition PPMV_insert :: "ProtocolPortMapValue \<Rightarrow> MaybeProtocol \<Rightarrow> ProtocolPortMapValue" where
  "PPMV_insert self protocol =
     (if protocol = MP_Ssl then self\<lparr>PPMV_check_ssl := True\<rparr>
      else
        (case tls_payload protocol of
           Some p \<Rightarrow> PPMV_push (self\<lparr>PPMV_check_ssl := True\<rparr>) p
         | None \<Rightarrow> PPMV_push self protocol))"

type_synonym ProtocolPortMap = "u16 \<Rightarrow> ProtocolPortMapValue option"

definition ProtocolPortMap_empty :: ProtocolPortMap where
  "ProtocolPortMap_empty = Map.empty"

definition ProtocolPortMap_node :: "ProtocolPortMap \<Rightarrow> u16 \<Rightarrow> ProtocolPortMapValue" where
  "ProtocolPortMap_node self port =
     (case self port of Some v \<Rightarrow> v | None \<Rightarrow> ProtocolPortMapValue_default)"

definition ProtocolPortMap_insert_batch ::
  "ProtocolPortMap \<Rightarrow> u16 \<Rightarrow> MaybeProtocol list \<Rightarrow> ProtocolPortMap" where
  "ProtocolPortMap_insert_batch self port protocols =
     self(port \<mapsto> foldl PPMV_insert (ProtocolPortMap_node self port) protocols)"

definition ProtocolPortMap_insert :: "ProtocolPortMap \<Rightarrow> u16 \<Rightarrow> MaybeProtocol \<Rightarrow> ProtocolPortMap" where
  "ProtocolPortMap_insert self port protocol =
     self(port \<mapsto> PPMV_insert (ProtocolPortMap_node self port) protocol)"

definition ProtocolPortMap_tcp_server :: ProtocolPortMap where
  "ProtocolPortMap_tcp_server =
     foldl (\<lambda>map (port, protocol). ProtocolPortMap_insert map port protocol) ProtocolPortMap_empty
     [(21, MP_Ftp), (22, MP_Ssh), (25, MP_Smtp), (53, MP_Dns), (80, MP_Http), (110, MP_Pop3),
      (119, MP_Nntp), (143, MP_Imap), (322, MP_Rtsps), (366, MP_Odmr), (389, MP_Ldap),
      (433, MP_Nnsp), (443, MP_Https), (465, MP_Submissions), (554, MP_Rtsp), (563, MP_Nntps),
      (587, MP_Smtp), (636, MP_Ldaps), (853, MP_DnsOverTls), (993, MP_Imaps), (995, MP_Pop3s),
      (1883, MP_Mqtt), (1935, MP_Rtmp), (2775, MP_Smpp), (3550, MP_Ssmpp), (4222, MP_Nats),
      (6881, MP_BitTorrent), (8080, MP_Http), (8554, MP_Rtsp), (8883, MP_SecureMqtt)]"

definition ProtocolPortMap_tcp_client :: ProtocolPortMap where
  "ProtocolPortMap_tcp_client = ProtocolPortMap_insert ProtocolPortMap_empty 6881 MP_BitTorrent"

section \<open>What a port map holds\<close>

definition plain :: "MaybeProtocol \<Rightarrow> bool" where
  "plain p \<longleftrightarrow> p = MP_Ssl \<or> (\<not> MaybeProtocol_is_ssl p \<and> p \<noteq> MP_MaxSize)"

definition entry_plain :: "ProtocolPortMapValue \<Rightarrow> bool" where
  "entry_plain v \<longleftrightarrow>
     distinct (PPMV_protocols v) \<and> (\<forall>p \<in> set (PPMV_protocols v). plain p \<and> p \<noteq> MP_Ssl)"

definition portmap_plain :: "ProtocolPortMap \<Rightarrow> bool" where
  "portmap_plain m \<longleftrightarrow> (\<forall>port v. m port = Some v \<longrightarrow> entry_plain v)"

lemma tls_payload_plain:
  "tls_payload p = Some q \<Longrightarrow> plain q \<and> q \<noteq> MP_Ssl"
  "tls_payload p = None \<Longrightarrow> p \<noteq> MP_Ssl \<Longrightarrow> p \<noteq> MP_MaxSize \<Longrightarrow> plain p"
  by (cases p; auto simp: plain_def)+

lemma is_ssl_payload: "MaybeProtocol_is_ssl p \<longleftrightarrow> p = MP_Ssl \<or> tls_payload p \<noteq> None"
  by (cases p) simp_all

lemma PPMV_insert_plain: "entry_plain v \<Longrightarrow> p \<noteq> MP_MaxSize \<Longrightarrow> entry_plain (PPMV_insert v p)"
  by (auto simp: PPMV_insert_def PPMV_push_def entry_plain_def tls_payload_plain split: option.split)

lemma portmap_plain_empty: "portmap_plain ProtocolPortMap_empty"
  by (simp add: portmap_plain_def ProtocolPortMap_empty_def)

lemma portmap_node_plain: "portmap_plain m \<Longrightarrow> entry_plain (ProtocolPortMap_node m port)"
  by (simp add: portmap_plain_def ProtocolPortMap_node_def ProtocolPortMapValue_default_def entry_plain_def
      split: option.split)

lemma portmap_plain_insert:
  "portmap_plain m \<Longrightarrow> p \<noteq> MP_MaxSize \<Longrightarrow> portmap_plain (ProtocolPortMap_insert m port p)"
  using PPMV_insert_plain [OF portmap_node_plain]
  by (simp add: portmap_plain_def ProtocolPortMap_insert_def)

lemma portmap_plain_insert_batch:
  assumes "portmap_plain m" and "MP_MaxSize \<notin> set ps"
  shows "portmap_plain (ProtocolPortMap_insert_batch m port ps)"
proof -
  have "entry_plain (foldl PPMV_insert v ps)" if "entry_plain v" for v
    using assms(2) that
  proof (induction ps arbitrary: v)
    case (Cons p ps)
    then have "entry_plain (PPMV_insert v p)"
      by (intro PPMV_insert_plain) auto
    with Cons show ?case by simp
  qed simp
  from this [OF portmap_node_plain [OF assms(1), of port]] assms(1) show ?thesis
    by (simp add: portmap_plain_def ProtocolPortMap_insert_batch_def)
qed

lemma portmap_plain_foldl:
  "portmap_plain m \<Longrightarrow> \<forall>(port, p) \<in> set l. p \<noteq> MP_MaxSize \<Longrightarrow>
    portmap_plain (foldl (\<lambda>map (port, protocol). ProtocolPortMap_insert map port protocol) m l)"
  by (induction l arbitrary: m) (auto simp: portmap_plain_insert)

lemma portmap_plain_tcp_server: "portmap_plain ProtocolPortMap_tcp_server"
  unfolding ProtocolPortMap_tcp_server_def by (intro portmap_plain_foldl portmap_plain_empty) simp

section \<open>The properties\<close>

text \<open>
  C33. Port maps are well formed: whatever protocols the configuration puts on a port, the entry holds
  each protocol once, no protocol that names TLS (those set the TLS flag and add the protocol inside),
  and the built in maps are such maps. So the inspector never meets a protocol without a check.
\<close>

theorem portmap_entries_checkable:
  assumes "portmap_plain m" and "p \<noteq> MP_MaxSize" and "MP_MaxSize \<notin> set ps"
  shows "portmap_plain (ProtocolPortMap_insert m port p) \<and> portmap_plain (ProtocolPortMap_insert_batch m port ps)
    \<and> portmap_plain ProtocolPortMap_tcp_server \<and> portmap_plain ProtocolPortMap_tcp_client
    \<and> (MaybeProtocol_is_ssl p \<longrightarrow>
         (\<exists>v. ProtocolPortMap_insert m port p port = Some v \<and> PPMV_check_ssl v
            \<and> (\<forall>q. tls_payload p = Some q \<longrightarrow> q \<in> set (PPMV_protocols v))))"
proof -
  have "MaybeProtocol_is_ssl p \<longrightarrow>
         (\<exists>v. ProtocolPortMap_insert m port p port = Some v \<and> PPMV_check_ssl v
            \<and> (\<forall>q. tls_payload p = Some q \<longrightarrow> q \<in> set (PPMV_protocols v)))"
    by (auto simp: is_ssl_payload ProtocolPortMap_insert_def PPMV_insert_def PPMV_push_def)
  then show ?thesis
    using assms
    by (simp add: portmap_plain_insert portmap_plain_insert_batch portmap_plain_tcp_server
        ProtocolPortMap_tcp_client_def portmap_plain_empty)
qed

theorem portmap_entries_checkable_witness:
  "portmap_plain (ProtocolPortMap_insert ProtocolPortMap_empty 443 MP_Https)
    \<and> portmap_plain (ProtocolPortMap_insert_batch ProtocolPortMap_empty 443 [MP_Ssl, MP_Http])"
  using portmap_entries_checkable [OF portmap_plain_empty, of MP_Https "[MP_Ssl, MP_Http]" 443] by simp

end
