(* ===== verification/Ber.thy ===== *)
theory Ber
  imports Rust_Prelude "HOL-Library.Log_Nat"
begin

text \<open>
  BER lengths and integers (\<open>g3-codec/src/ber\<close>). The length parser is shown equal to a reference
  definition; the length encoder is its inverse up to 127 and not beyond; the integer parser is
  shown to panic exactly on a value whose content bytes are all missing.
\<close>

section \<open>Lengths (\<open>length.rs\<close>)\<close>

datatype BerLengthParseError = BerLength_NeedMoreData nat | BerLength_TooLargeValue

record BerLength =
  BerLength_value :: u64
  BerLength_indefinite :: bool
  BerLength_encoded_len :: nat

definition BerLength_parse :: "bytes \<Rightarrow> (BerLength, BerLengthParseError) res" where
  "BerLength_parse data =
     (if data = [] then Err (BerLength_NeedMoreData 1)
      else
        res_bind (index data 0) (\<lambda>d0.
        if d0 AND 0x80 = 0 then
          Ok \<lparr>BerLength_value = ucast d0, BerLength_indefinite = False, BerLength_encoded_len = 1\<rparr>
        else if d0 AND 0x7F = 0 then
          Ok \<lparr>BerLength_value = 0, BerLength_indefinite = True, BerLength_encoded_len = 1\<rparr>
        else if d0 AND 0x7F = 1 then
          (if length data < 2 then Err (BerLength_NeedMoreData (2 - length data))
           else res_bind (index data 1) (\<lambda>d1.
             Ok \<lparr>BerLength_value = ucast d1, BerLength_indefinite = False, BerLength_encoded_len = 2\<rparr>))
        else if d0 AND 0x7F = 2 then
          (if length data < 3 then Err (BerLength_NeedMoreData (3 - length data))
           else res_bind (indices data [1..<3]) (\<lambda>bs.
             Ok \<lparr>BerLength_value = ucast (from_be bs :: u16), BerLength_indefinite = False,
                 BerLength_encoded_len = 3\<rparr>))
        else if d0 AND 0x7F = 3 then
          (if length data < 4 then Err (BerLength_NeedMoreData (4 - length data))
           else res_bind (indices data [1..<4]) (\<lambda>bs.
             Ok \<lparr>BerLength_value = ucast (from_be (0 # bs) :: u32), BerLength_indefinite = False,
                 BerLength_encoded_len = 4\<rparr>))
        else if d0 AND 0x7F = 4 then
          (if length data < 5 then Err (BerLength_NeedMoreData (5 - length data))
           else res_bind (indices data [1..<5]) (\<lambda>bs.
             Ok \<lparr>BerLength_value = ucast (from_be bs :: u32), BerLength_indefinite = False,
                 BerLength_encoded_len = 5\<rparr>))
        else if d0 AND 0x7F = 5 then
          (if length data < 6 then Err (BerLength_NeedMoreData (6 - length data))
           else res_bind (indices data [1..<6]) (\<lambda>bs.
             Ok \<lparr>BerLength_value = from_be (0 # 0 # 0 # bs), BerLength_indefinite = False,
                 BerLength_encoded_len = 6\<rparr>))
        else if d0 AND 0x7F = 6 then
          (if length data < 7 then Err (BerLength_NeedMoreData (7 - length data))
           else res_bind (indices data [1..<7]) (\<lambda>bs.
             Ok \<lparr>BerLength_value = from_be (0 # 0 # bs), BerLength_indefinite = False,
                 BerLength_encoded_len = 7\<rparr>))
        else if d0 AND 0x7F = 7 then
          (if length data < 8 then Err (BerLength_NeedMoreData (8 - length data))
           else res_bind (indices data [1..<8]) (\<lambda>bs.
             Ok \<lparr>BerLength_value = from_be (0 # bs), BerLength_indefinite = False,
                 BerLength_encoded_len = 8\<rparr>))
        else if d0 AND 0x7F = 8 then
          (if length data < 9 then Err (BerLength_NeedMoreData (9 - length data))
           else res_bind (indices data [1..<9]) (\<lambda>bs.
             Ok \<lparr>BerLength_value = from_be bs, BerLength_indefinite = False,
                 BerLength_encoded_len = 9\<rparr>))
        else Err BerLength_TooLargeValue))"

record BerLengthEncoder =
  BerLengthEncoder_buf :: bytes
  BerLengthEncoder_offset :: nat

definition BerLengthEncoder_default :: BerLengthEncoder where
  "BerLengthEncoder_default =
     \<lparr>BerLengthEncoder_buf = replicate 9 0, BerLengthEncoder_offset = 0\<rparr>"

text \<open>\<open>leading_zeros\<close> of a 64 bit \<open>usize\<close>.\<close>

definition leading_zeros :: "nat \<Rightarrow> nat" where
  "leading_zeros value = 64 - floorlog 2 value"

definition BerLengthEncoder_encode ::
  "BerLengthEncoder \<Rightarrow> nat \<Rightarrow> BerLengthEncoder \<times> (bytes, unit) res" where
  "BerLengthEncoder_encode self value =
     (if value \<le> 0x7F then
        let self = self\<lparr>BerLengthEncoder_offset := 8,
              BerLengthEncoder_buf := (BerLengthEncoder_buf self)[8 := of_nat value AND 0x7F]\<rparr>
        in (self, slice_from (BerLengthEncoder_buf self) 8)
      else
        let buf = take 1 (BerLengthEncoder_buf self) @ to_be 8 value;
            offset = leading_zeros value div 8;
            self = self\<lparr>BerLengthEncoder_offset := offset,
              BerLengthEncoder_buf := buf[offset := 8 - of_nat offset]\<rparr>
        in (self, slice_from (BerLengthEncoder_buf self) offset))"

section \<open>Integers (\<open>integer.rs\<close>)\<close>

datatype BerIntegerParseError =
    BerInteger_NeedMoreData nat
  | BerInteger_InvalidType
  | BerInteger_TooLargeLength
  | BerInteger_IndefiniteLength
  | BerInteger_InvalidValueBytes

fun BerIntegerParseError_from :: "BerLengthParseError \<Rightarrow> BerIntegerParseError" where
  "BerIntegerParseError_from (BerLength_NeedMoreData n) = BerInteger_NeedMoreData n"
| "BerIntegerParseError_from BerLength_TooLargeValue = BerInteger_TooLargeLength"

record BerInteger =
  BerInteger_value :: int
  BerInteger_encoded_len :: nat

text \<open>The arms of the match on the length: the first byte without its top bit, then the others.\<close>

definition BerInteger_magnitude ::
  "u64 \<Rightarrow> u8 \<Rightarrow> bytes \<Rightarrow> nat \<Rightarrow> (BerInteger, BerIntegerParseError) res" where
  "BerInteger_magnitude len value0 left offset =
     (if len = 1 then
        (if left = [] then Err (BerInteger_NeedMoreData 1)
         else Ok \<lparr>BerInteger_value = uint value0, BerInteger_encoded_len = offset + 1\<rparr>)
      else if len = 2 then
        (if length left < 2 then Err (BerInteger_NeedMoreData (2 - length left))
         else res_bind (indices left [1..<2]) (\<lambda>bs.
           Ok \<lparr>BerInteger_value = sint (from_be (value0 # bs) :: u16), BerInteger_encoded_len = offset + 2\<rparr>))
      else if len = 3 then
        (if length left < 3 then Err (BerInteger_NeedMoreData (3 - length left))
         else res_bind (indices left [1..<3]) (\<lambda>bs.
           Ok \<lparr>BerInteger_value = sint (from_be (0 # value0 # bs) :: u32), BerInteger_encoded_len = offset + 3\<rparr>))
      else if len = 4 then
        (if length left < 4 then Err (BerInteger_NeedMoreData (4 - length left))
         else res_bind (indices left [1..<4]) (\<lambda>bs.
           Ok \<lparr>BerInteger_value = sint (from_be (value0 # bs) :: u32), BerInteger_encoded_len = offset + 4\<rparr>))
      else if len = 5 then
        (if length left < 5 then Err (BerInteger_NeedMoreData (5 - length left))
         else res_bind (indices left [1..<5]) (\<lambda>bs.
           Ok \<lparr>BerInteger_value = sint (from_be (0 # 0 # 0 # value0 # bs) :: u64), BerInteger_encoded_len = offset + 5\<rparr>))
      else if len = 6 then
        (if length left < 6 then Err (BerInteger_NeedMoreData (6 - length left))
         else res_bind (indices left [1..<6]) (\<lambda>bs.
           Ok \<lparr>BerInteger_value = sint (from_be (0 # 0 # value0 # bs) :: u64), BerInteger_encoded_len = offset + 6\<rparr>))
      else if len = 7 then
        (if length left < 7 then Err (BerInteger_NeedMoreData (7 - length left))
         else res_bind (indices left [1..<7]) (\<lambda>bs.
           Ok \<lparr>BerInteger_value = sint (from_be (0 # value0 # bs) :: u64), BerInteger_encoded_len = offset + 7\<rparr>))
      else if len = 8 then
        (if length left < 8 then Err (BerInteger_NeedMoreData (8 - length left))
         else res_bind (indices left [1..<8]) (\<lambda>bs.
           Ok \<lparr>BerInteger_value = sint (from_be (value0 # bs) :: u64), BerInteger_encoded_len = offset + 8\<rparr>))
      else Err BerInteger_InvalidValueBytes)"

definition BerInteger_parse_with_identifier ::
  "bytes \<Rightarrow> u8 \<Rightarrow> (BerInteger, BerIntegerParseError) res" where
  "BerInteger_parse_with_identifier data identifier =
     (if data = [] then Err (BerInteger_NeedMoreData 1)
      else
        res_bind (index data 0) (\<lambda>d0.
        if d0 \<noteq> identifier then Err BerInteger_InvalidType
        else
          res_bind (slice_from data 1) (\<lambda>d.
          res_bind (map_err BerIntegerParseError_from (BerLength_parse d)) (\<lambda>len.
          if BerLength_indefinite len then Err BerInteger_IndefiniteLength
          else
            let offset = 1 + BerLength_encoded_len len in
            res_bind (slice_from data offset) (\<lambda>left.
            res_bind (index left 0) (\<lambda>left0.
            let value0 = left0 AND 0x7F in
            res_bind (BerInteger_magnitude (BerLength_value len) value0 left offset) (\<lambda>integer.
            res_bind (index left 0) (\<lambda>left0.
            if drop_bit 7 left0 \<noteq> 0
            then Ok (integer\<lparr>BerInteger_value := 0 - BerInteger_value integer\<rparr>)
            else Ok integer))))))))"

definition BerInteger_parse :: "bytes \<Rightarrow> (BerInteger, BerIntegerParseError) res" where
  "BerInteger_parse data = BerInteger_parse_with_identifier data 0x02"

definition BerInteger_parse_enumerated_value :: "bytes \<Rightarrow> (BerInteger, BerIntegerParseError) res" where
  "BerInteger_parse_enumerated_value data = BerInteger_parse_with_identifier data 0x0a"

section \<open>The length parser against its reference\<close>

lemma and_0x80: "(b AND 0x80 = 0) \<longleftrightarrow> unat (b :: u8) < 128"
proof -
  have "b AND 0x80 = 0 \<longleftrightarrow> \<not> bit b 7"
    by (simp add: and_exp_eq_0_iff_not_bit [of b 7, simplified])
  also have "\<dots> \<longleftrightarrow> \<not> odd (unat b div 128)"
    using bit_unsigned_iff [of b 7, where 'a = nat] by (simp add: bit_iff_odd)
  also have "\<dots> \<longleftrightarrow> unat b < 128"
  proof -
    have "unat b div 128 < 2"
      by (simp add: less_mult_imp_div_less)
    then have "unat b div 128 = 0 \<or> unat b div 128 = 1"
      by linarith
    then show ?thesis
      by (auto simp: div_eq_0_iff)
  qed
  finally show ?thesis .
qed

lemma and_low7: "unat (b AND 0x7F :: u8) = unat b mod 128"
proof -
  have "b AND 0x7F = take_bit 7 b"
    by (simp add: take_bit_eq_mask mask_eq_exp_minus_1)
  then show ?thesis
    by (simp add: take_bit_eq_mod unat_mod)
qed

definition ber_length_reference :: "bytes \<Rightarrow> (BerLength, BerLengthParseError) res" where
  "ber_length_reference data =
     (case data of
        [] \<Rightarrow> Err (BerLength_NeedMoreData 1)
      | b # rest \<Rightarrow>
          let n = unat b mod 128 in
          if unat b < 128 then
            Ok \<lparr>BerLength_value = ucast b, BerLength_indefinite = False, BerLength_encoded_len = 1\<rparr>
          else if n = 0 then
            Ok \<lparr>BerLength_value = 0, BerLength_indefinite = True, BerLength_encoded_len = 1\<rparr>
          else if 8 < n then Err BerLength_TooLargeValue
          else if length rest < n then Err (BerLength_NeedMoreData (n - length rest))
          else Ok \<lparr>BerLength_value = from_be (take n rest), BerLength_indefinite = False,
                  BerLength_encoded_len = n + 1\<rparr>)"

lemma from_be_leading_zero [simp]: "from_be (0 # bs) = from_be bs"
  by (simp add: from_be_def)

lemma from_be_single: "from_be [b] = ucast b"
  by (simp add: from_be_def)

lemma BerLength_parse_eq: "BerLength_parse data = ber_length_reference data"
proof (cases data)
  case Nil
  then show ?thesis by (simp add: BerLength_parse_def ber_length_reference_def)
next
  case (Cons b rest)
  let ?n = "unat b mod 128"
  have n: "b AND 0x7F = k \<longleftrightarrow> ?n = unat k" for k
    by (simp add: word_unat_eq_iff and_low7)
  consider "unat b < 128" | "\<not> unat b < 128" "?n = 0" | "\<not> unat b < 128" "0 < ?n" "?n \<le> 8"
    | "\<not> unat b < 128" "8 < ?n"
    by linarith
  then show ?thesis
  proof cases
    case 3
    have "?n = 1 \<or> ?n = 2 \<or> ?n = 3 \<or> ?n = 4 \<or> ?n = 5 \<or> ?n = 6 \<or> ?n = 7 \<or> ?n = 8"
      using 3(2,3) by linarith
    then show ?thesis
      unfolding BerLength_parse_def ber_length_reference_def Cons Let_def
      by (elim disjE) (simp_all add: and_0x80 3(1) n ucast_from_be from_be_single take_Suc hd_conv_nth)
  qed (simp_all add: BerLength_parse_def ber_length_reference_def Cons Let_def and_0x80 n)
qed

lemma BerLength_parse_ensures [ensures_rules]:
  "(\<And>l. 0 < BerLength_encoded_len l \<Longrightarrow> BerLength_encoded_len l \<le> 9 \<Longrightarrow>
      BerLength_encoded_len l \<le> length data \<Longrightarrow> Q l) \<Longrightarrow> ensures (BerLength_parse data) Q"
  by (auto simp: BerLength_parse_eq ber_length_reference_def Let_def split: list.split)

section \<open>The length encoder\<close>

lemma drop_to_be: "k \<le> n \<Longrightarrow> drop k (to_be n v) = to_be (n - k) v"
proof (induction n v arbitrary: k rule: to_be.induct)
  case (1 v)
  then show ?case by simp
next
  case (2 n v)
  then show ?case by (cases k) (auto simp: Suc_diff_le)
qed

text \<open>The number of bytes of the minimal big-endian form the encoder computes from the leading zeros.\<close>

definition byte_count :: "nat \<Rightarrow> nat" where
  "byte_count v = 8 - leading_zeros v div 8"

lemma byte_count_bounds:
  assumes "0 < v" and "v < 2 ^ 64"
  shows "0 < byte_count v" "byte_count v \<le> 8" "v < 256 ^ byte_count v"
proof -
  have l: "floorlog 2 v \<le> 64"
    using assms(2) by (simp add: floorlog_le_iff)
  moreover have "0 < floorlog 2 v"
    using assms(1) by (simp add: floorlog_def)
  ultimately have "(64 - floorlog 2 v) div 8 < 8"
    by (intro less_mult_imp_div_less) simp
  then show "0 < byte_count v" "byte_count v \<le> 8"
    by (simp_all add: byte_count_def leading_zeros_def)
  have "floorlog 2 v \<le> 8 * byte_count v"
    using l by (simp add: byte_count_def leading_zeros_def)
  then have "v < 2 ^ (8 * byte_count v)"
    by (simp add: floorlog_le_iff)
  then show "v < 256 ^ byte_count v"
    by (simp add: power_mult)
qed

lemma drop_update_same: "k < length xs \<Longrightarrow> drop k (xs[k := x]) = x # drop (Suc k) xs"
  using Cons_nth_drop_Suc [of k "xs[k := x]"] by (simp add: drop_update_cancel)

lemma BerLengthEncoder_encode_eq:
  assumes "length (BerLengthEncoder_buf e) = 9" and "v < 2 ^ 64"
  shows "snd (BerLengthEncoder_encode e v) =
    Ok (if v \<le> 127 then [of_nat v] else of_nat (byte_count v) # to_be (byte_count v) v)"
    and "length (BerLengthEncoder_buf (fst (BerLengthEncoder_encode e v))) = 9"
proof -
  let ?o = "leading_zeros v div 8"
  obtain b0 bs where b: "BerLengthEncoder_buf e = b0 # bs" "length bs = 8"
    using assms(1) by (auto simp: numeral_eq_Suc length_Suc_conv)
  have s: "snd (BerLengthEncoder_encode e v) = Ok [of_nat v]" if "v \<le> 127"
  proof -
    have "(of_nat v :: u8) AND 0x7F = of_nat v"
      using that by (simp add: word_unat_eq_iff and_low7 unat_of_nat)
    then show ?thesis
      using that b by (simp add: BerLengthEncoder_encode_def Let_def drop_update_same del: list_update.simps)
  qed
  have t: "snd (BerLengthEncoder_encode e v) = Ok (of_nat (byte_count v) # to_be (byte_count v) v)"
    if "\<not> v \<le> 127"
  proof -
    have o: "?o < 8" "(8 :: u8) - of_nat ?o = of_nat (byte_count v)"
      using byte_count_bounds [of v] that assms(2) by (auto simp: byte_count_def of_nat_diff)
    have "drop ?o ((b0 # to_be 8 v)[?o := x]) = x # to_be (8 - ?o) v" for x
      using o(1) drop_to_be [of ?o 8 v] by (subst drop_update_same) simp_all
    then show ?thesis
      using that b o
      by (simp add: BerLengthEncoder_encode_def Let_def byte_count_def del: list_update.simps)
  qed
  show "snd (BerLengthEncoder_encode e v) =
    Ok (if v \<le> 127 then [of_nat v] else of_nat (byte_count v) # to_be (byte_count v) v)"
    using s t by simp
  show "length (BerLengthEncoder_buf (fst (BerLengthEncoder_encode e v))) = 9"
    using b by (simp add: BerLengthEncoder_encode_def Let_def del: list_update.simps)
qed

section \<open>The integer parser\<close>

lemma BerInteger_magnitude_ensures [ensures_rules]:
  assumes "left \<noteq> []" and "\<And>i. BerInteger_encoded_len i = offset + unat len \<Longrightarrow> unat len \<le> length left \<Longrightarrow> Q i"
  shows "ensures (BerInteger_magnitude len value0 left offset) Q"
  unfolding BerInteger_magnitude_def using assms(1)
  by (auto intro!: assms(2) simp: not_less Suc_le_eq)

lemma BerInteger_parse_panic_iff:
  "BerInteger_parse_with_identifier data identifier = Panic \<longleftrightarrow>
    (\<exists>h l. data = identifier # h \<and> BerLength_parse h = Ok l \<and> \<not> BerLength_indefinite l
       \<and> BerLength_encoded_len l = length h)"
proof (cases data)
  case Nil
  then show ?thesis by (simp add: BerInteger_parse_with_identifier_def)
next
  case (Cons d0 h)
  have e: "ensures (BerLength_parse h) (\<lambda>l. BerLength_encoded_len l \<le> length h)"
    by (rule ensures_rules)
  show ?thesis
  proof (cases "BerLength_parse h")
    case (Ok l)
    let ?left = "drop (BerLength_encoded_len l) h"
    have "no_panic (BerInteger_magnitude (BerLength_value l) v ?left n)" if "?left \<noteq> []" for v n
      using that unfolding no_panic_ensures by (rule ensures_rules) simp
    with Ok e show ?thesis
      by (auto simp: BerInteger_parse_with_identifier_def Cons Let_def res_bind_eq_Panic no_panic_def
          index_eq_Panic index_eq_Ok)
  next
    case (Err x)
    then show ?thesis by (auto simp: BerInteger_parse_with_identifier_def Cons)
  next
    case Panic
    with e show ?thesis by simp
  qed
qed

lemma BerInteger_parse_encoded_len:
  assumes "BerInteger_parse_with_identifier data identifier = Ok i"
  shows "BerInteger_encoded_len i \<le> length data"
proof -
  from assms obtain h l v j where d: "data = identifier # h" and l: "BerLength_parse h = Ok l"
    and j: "BerInteger_magnitude (BerLength_value l) v (drop (BerLength_encoded_len l) h) (Suc (BerLength_encoded_len l)) = Ok j"
    and ne: "BerLength_encoded_len l < length h"
    and i: "BerInteger_encoded_len i = BerInteger_encoded_len j"
    by (cases data) (auto simp: BerInteger_parse_with_identifier_def res_simps Let_def split: if_splits)
  have "BerInteger_encoded_len j \<le> Suc (length h)"
    by (rule ensures_OkD [OF _ j]) (use ne in \<open>auto intro!: ensures_rules\<close>)
  with d i show ?thesis by simp
qed

text \<open>The value: the top bit of the first content byte is the sign, the other bits the magnitude.\<close>

definition sign_magnitude :: "bytes \<Rightarrow> int" where
  "sign_magnitude c =
     (let m = int (be_nat c mod 2 ^ (8 * length c - 1)) in if 128 \<le> unat (hd c) then - m else m)"

lemma be_nat_low7:
  "be_nat ((b AND 0x7F) # bs) = be_nat (b # bs) mod 2 ^ (8 * length bs + 7)"
proof -
  let ?m = "256 ^ length bs :: nat"
  have m: "2 ^ (8 * length bs + 7) = ?m * 128"
    by (simp add: power_add power_mult)
  have "(unat b * ?m + be_nat bs) mod (?m * 128) =
      ?m * ((unat b * ?m + be_nat bs) div ?m mod 128) + (unat b * ?m + be_nat bs) mod ?m"
    by (rule mod_mult2_eq)
  then show ?thesis
    using be_nat_less [of bs] by (simp add: m and_low7)
qed

lemma sint_from_be:
  assumes "8 * length bs \<le> LENGTH('w::len)" and "be_nat bs < 2 ^ (LENGTH('w) - 1)"
  shows "sint (from_be bs :: 'w word) = int (be_nat bs)"
proof -
  have "uint (from_be bs :: 'w word) = int (be_nat bs)"
    using unat_from_be [OF assms(1)] by (metis uint_nat)
  moreover have "int (be_nat bs) < 2 ^ (LENGTH('w) - 1)"
    using assms(2) by (metis of_nat_less_iff of_nat_numeral of_nat_power)
  then have "signed_take_bit (LENGTH('w) - 1) (int (be_nat bs)) = int (be_nat bs)"
    by (intro signed_take_bit_int_eq_self) (simp_all add: order_trans [of _ 0])
  ultimately show ?thesis
    by (simp add: sint_uint)
qed

lemma BerInteger_magnitude_value:
  assumes "length bs < 8"
  shows "BerInteger_magnitude (of_nat (Suc (length bs))) (b AND 0x7F) (b # bs @ rest) offset =
    Ok \<lparr>BerInteger_value = int (be_nat (b # bs) mod 2 ^ (8 * length bs + 7)),
        BerInteger_encoded_len = offset + Suc (length bs)\<rparr>"
proof -
  let ?v = "be_nat ((b AND 0x7F) # bs)"
  have lt: "?v < 2 ^ (8 * length bs + 7)"
    unfolding be_nat_low7 by simp
  have z: "sint (from_be ((b AND 0x7F) # bs) :: 'w::len word) = int ?v"
    if "8 * Suc (length bs) \<le> LENGTH('w)"
  proof -
    have "2 ^ (8 * length bs + 7) \<le> (2 :: nat) ^ (LENGTH('w) - 1)"
      using that by (intro power_increasing) auto
    with lt have "?v < 2 ^ (LENGTH('w) - 1)"
      by (rule less_le_trans)
    then show ?thesis
      using that sint_from_be [of "(b AND 0x7F) # bs", where 'w = 'w] by (simp del: be_nat.simps)
  qed
  have u: "uint (b AND 0x7F) = int ?v" if "bs = []"
    using that by simp
  consider "length bs = 0" | "length bs = 1" | "length bs = 2" | "length bs = 3" | "length bs = 4"
    | "length bs = 5" | "length bs = 6" | "length bs = 7"
    using assms by linarith
  then show ?thesis
    unfolding be_nat_low7 [symmetric] BerInteger_magnitude_def
    by cases (simp_all add: z u del: be_nat.simps)
qed

lemma BerLength_parse_short:
  "n < 128 \<Longrightarrow> BerLength_parse (of_nat n # rest) =
    Ok \<lparr>BerLength_value = of_nat n, BerLength_indefinite = False, BerLength_encoded_len = 1\<rparr>"
proof -
  assume n: "n < 128"
  then have u: "unat (of_nat n :: u8) = n"
    by (simp add: unat_of_nat)
  then have "(ucast (of_nat n :: u8) :: u64) = of_nat n"
    by (metis of_nat_unat)
  with n u show ?thesis
    by (simp add: BerLength_parse_eq ber_length_reference_def)
qed

lemma drop_bit_7: "drop_bit 7 (b :: u8) \<noteq> 0 \<longleftrightarrow> 128 \<le> unat b"
  by (simp add: word_unat_eq_iff drop_bit_eq_div unat_div div_eq_0_iff not_less)

lemma BerInteger_parse_value:
  assumes "0 < length c" and "length c \<le> 8"
  shows "BerInteger_parse_with_identifier (identifier # of_nat (length c) # c @ rest) identifier =
    Ok \<lparr>BerInteger_value = sign_magnitude c, BerInteger_encoded_len = 2 + length c\<rparr>"
proof -
  obtain b bs where c: "c = b # bs"
    using assms(1) by (cases c) auto
  have "length bs < 8" using assms(2) c by simp
  note m = BerInteger_magnitude_value [OF this]
  have "BerLength_parse (of_nat (length c) # c @ rest) =
    Ok \<lparr>BerLength_value = of_nat (length c), BerLength_indefinite = False, BerLength_encoded_len = 1\<rparr>"
    using assms(2) by (intro BerLength_parse_short) simp
  then show ?thesis
    using m [of b rest "Suc (Suc 0)"] drop_bit_7 [of b]
    by (simp add: BerInteger_parse_with_identifier_def c sign_magnitude_def Let_def add.commute [of 7]
        del: be_nat.simps)
qed

section \<open>The properties\<close>

text \<open>
  C25. On every input \<open>BerLength::parse\<close> agrees with the reference definition of a BER length with
  at most eight length bytes: the eight arms of the code are one rule, and a short input reports
  the exact number of missing bytes.
\<close>

theorem ber_length_parse_reference: "BerLength_parse data = ber_length_reference data"
  by (rule BerLength_parse_eq)

text \<open>
  C26. What \<open>BerLengthEncoder::encode\<close> writes is read back by \<open>BerLength::parse\<close> exactly for values
  up to 127. For a larger value the first byte is the count of length bytes without the bit \<open>0x80\<close>
  of the long form, so the parser takes the count itself for the length.
\<close>

theorem ber_length_encode_parse:
  assumes "length (BerLengthEncoder_buf e) = 9" and "v < 2 ^ 64"
  shows "\<exists>enc. snd (BerLengthEncoder_encode e v) = Ok enc \<and> length enc \<le> 9
    \<and> BerLength_parse (enc @ rest) =
      Ok \<lparr>BerLength_value = of_nat (if v \<le> 127 then v else byte_count v),
          BerLength_indefinite = False, BerLength_encoded_len = 1\<rparr>
    \<and> byte_count v \<le> 8"
proof (cases "v \<le> 127")
  case True
  then show ?thesis
    using BerLengthEncoder_encode_eq(1) [OF assms] BerLength_parse_short [of v rest]
    by (simp add: byte_count_def)
next
  case False
  with assms(2) have b: "byte_count v \<le> 8"
    by (intro byte_count_bounds) auto
  then have "BerLength_parse (of_nat (byte_count v) # to_be (byte_count v) v @ rest) =
      Ok \<lparr>BerLength_value = of_nat (byte_count v), BerLength_indefinite = False, BerLength_encoded_len = 1\<rparr>"
    by (intro BerLength_parse_short) simp
  with False b show ?thesis
    using BerLengthEncoder_encode_eq(1) [OF assms] by simp
qed

theorem ber_length_encode_parse_witness:
  "\<exists>enc. snd (BerLengthEncoder_encode BerLengthEncoder_default 200) = Ok enc
    \<and> BerLength_parse (enc @ [7]) =
      Ok \<lparr>BerLength_value = 1, BerLength_indefinite = False, BerLength_encoded_len = 1\<rparr>"
proof -
  have "byte_count 200 = 1"
    by code_simp
  then show ?thesis
    using ber_length_encode_parse [of BerLengthEncoder_default 200 "[7]"]
    by (auto simp: BerLengthEncoder_default_def)
qed

text \<open>
  C27. \<open>BerInteger::parse\<close> panics exactly when the input ends right after a definite length: the
  first content byte is read before the check that there is one.
\<close>

theorem ber_integer_panics_iff:
  "BerInteger_parse data = Panic \<longleftrightarrow>
    (\<exists>h l. data = 0x02 # h \<and> BerLength_parse h = Ok l \<and> \<not> BerLength_indefinite l
       \<and> BerLength_encoded_len l = length h)"
  unfolding BerInteger_parse_def by (rule BerInteger_parse_panic_iff)

text \<open>
  C28. On one to eight content bytes \<open>BerInteger::parse\<close> gives the sign and magnitude the bytes
  denote: the top bit is the sign, the other bits the magnitude, for every byte count.
\<close>

theorem ber_integer_value:
  assumes "0 < length c" and "length c \<le> 8"
  shows "BerInteger_parse (0x02 # of_nat (length c) # c @ rest) =
    Ok \<lparr>BerInteger_value = sign_magnitude c, BerInteger_encoded_len = 2 + length c\<rparr>"
  unfolding BerInteger_parse_def by (rule BerInteger_parse_value [OF assms])

theorem ber_integer_value_witness:
  "BerInteger_parse [0x02, 0x02, 0x81, 0x02, 0x60] =
    Ok \<lparr>BerInteger_value = - 258, BerInteger_encoded_len = 4\<rparr>"
  using ber_integer_value [of "[0x81, 0x02]" "[0x60]"] by (simp add: sign_magnitude_def)

end
