(* ===== verification/Ldap.thy ===== *)
theory Ldap
  imports Ber
begin

text \<open>
  LDAP messages (\<open>g3-codec/src/ldap\<close>) and the simple bind request encoder of the LDAP user group
  (\<open>g3proxy/src/auth/group/ldap/protocol/request.rs\<close>).
\<close>

section \<open>Lengths and message ids\<close>

datatype LdapLengthParseError =
    LdapLength_NeedMoreData nat
  | LdapLength_TooLargeValue
  | LdapLength_IndefiniteValue

fun LdapLengthParseError_from :: "BerLengthParseError \<Rightarrow> LdapLengthParseError" where
  "LdapLengthParseError_from (BerLength_NeedMoreData needed) = LdapLength_NeedMoreData needed"
| "LdapLengthParseError_from BerLength_TooLargeValue = LdapLength_TooLargeValue"

record LdapLength =
  LdapLength_value :: u64
  LdapLength_encoded_len :: nat

definition LdapLength_parse :: "bytes \<Rightarrow> (LdapLength, LdapLengthParseError) res" where
  "LdapLength_parse data =
     res_bind (map_err LdapLengthParseError_from (BerLength_parse data)) (\<lambda>ber_len.
     if BerLength_indefinite ber_len then Err LdapLength_IndefiniteValue
     else Ok \<lparr>LdapLength_value = BerLength_value ber_len,
              LdapLength_encoded_len = BerLength_encoded_len ber_len\<rparr>)"

datatype LdapMessageIdParseError =
    InvalidIntegerValue BerIntegerParseError
  | NegativeValue
  | MessageId_TooLargeValue

record LdapMessageId =
  LdapMessageId_value :: u32
  LdapMessageId_encoded_len :: nat

definition LdapMessageId_parse :: "bytes \<Rightarrow> (LdapMessageId, LdapMessageIdParseError) res" where
  "LdapMessageId_parse data =
     res_bind (map_err InvalidIntegerValue (BerInteger_parse data)) (\<lambda>ber_integer.
     if BerInteger_value ber_integer < 0 then Err NegativeValue
     else if 2 ^ 32 \<le> BerInteger_value ber_integer then Err MessageId_TooLargeValue
     else Ok \<lparr>LdapMessageId_value = of_int (BerInteger_value ber_integer),
              LdapMessageId_encoded_len = BerInteger_encoded_len ber_integer\<rparr>)"

section \<open>Messages\<close>

datatype LdapMessageParseError =
    LdapMessage_NeedMoreData nat
  | InvalidBerType
  | InvalidMessageLength
  | InvalidMessageId LdapMessageIdParseError

fun LdapMessageParseError_from :: "LdapLengthParseError \<Rightarrow> LdapMessageParseError" where
  "LdapMessageParseError_from (LdapLength_NeedMoreData n) = LdapMessage_NeedMoreData n"
| "LdapMessageParseError_from LdapLength_TooLargeValue = InvalidMessageLength"
| "LdapMessageParseError_from LdapLength_IndefiniteValue = InvalidMessageLength"

record LdapMessage =
  LdapMessage_id :: u32
  LdapMessage_payload :: bytes
  LdapMessage_encoded_size :: nat

definition LdapMessage_parse :: "bytes \<Rightarrow> nat \<Rightarrow> (LdapMessage, LdapMessageParseError) res" where
  "LdapMessage_parse data max_message_length =
     (if data = [] then Err (LdapMessage_NeedMoreData 1)
      else
        res_bind (index data 0) (\<lambda>d0.
        if d0 \<noteq> 0x30 then Err InvalidBerType
        else
          let offset = 1 in
          res_bind (slice_from data offset) (\<lambda>d.
          res_bind (map_err LdapMessageParseError_from (LdapLength_parse d)) (\<lambda>len.
          let offset = offset + LdapLength_encoded_len len;
              message_length = unat (LdapLength_value len)
          in
          if max_message_length < message_length then Err InvalidMessageLength
          else
            res_bind (slice_from data offset) (\<lambda>left.
            if length left < message_length
            then Err (LdapMessage_NeedMoreData (message_length - length left))
            else
              res_bind (slice_to left message_length) (\<lambda>m.
              res_bind (map_err InvalidMessageId (LdapMessageId_parse m)) (\<lambda>id.
              res_bind (slice left (LdapMessageId_encoded_len id) message_length) (\<lambda>payload.
              Ok \<lparr>LdapMessage_id = LdapMessageId_value id, LdapMessage_payload = payload,
                  LdapMessage_encoded_size = offset + message_length\<rparr>))))))))"

section \<open>Sequences\<close>

datatype LdapSequenceParseError =
    LdapSequence_NeedMoreData nat
  | LdapSequence_InvalidType
  | LdapSequence_TooLargeLength
  | LdapSequence_IndefiniteLength

fun LdapSequenceParseError_from :: "BerLengthParseError \<Rightarrow> LdapSequenceParseError" where
  "LdapSequenceParseError_from (BerLength_NeedMoreData n) = LdapSequence_NeedMoreData n"
| "LdapSequenceParseError_from BerLength_TooLargeValue = LdapSequence_TooLargeLength"

record LdapSequence =
  LdapSequence_data :: bytes
  LdapSequence_encoded_len :: nat

text \<open>
  The sum of the 64 bit length and the offset wraps around, as in a release build.
\<close>

definition LdapSequence_parse_with_identifier ::
  "bytes \<Rightarrow> u8 \<Rightarrow> (LdapSequence, LdapSequenceParseError) res" where
  "LdapSequence_parse_with_identifier data identifier =
     (if data = [] then Err (LdapSequence_NeedMoreData 1)
      else
        res_bind (index data 0) (\<lambda>d0.
        if d0 \<noteq> identifier then Err LdapSequence_InvalidType
        else
          res_bind (slice_from data 1) (\<lambda>d.
          res_bind (map_err LdapSequenceParseError_from (BerLength_parse d)) (\<lambda>ber_length.
          if BerLength_indefinite ber_length then Err LdapSequence_IndefiniteLength
          else
            let offset = 1 + BerLength_encoded_len ber_length;
                value = unat (BerLength_value ber_length)
            in
            if value = 0 then Ok \<lparr>LdapSequence_data = [], LdapSequence_encoded_len = offset\<rparr>
            else if length data < wrapping_add value offset then Err LdapSequence_TooLargeLength
            else
              let encoded_len = wrapping_add value offset in
              res_bind (slice data offset encoded_len) (\<lambda>d.
              Ok \<lparr>LdapSequence_data = d, LdapSequence_encoded_len = encoded_len\<rparr>)))))"

definition LdapSequence_parse_octet_string :: "bytes \<Rightarrow> (LdapSequence, LdapSequenceParseError) res" where
  "LdapSequence_parse_octet_string data = LdapSequence_parse_with_identifier data 0x04"

definition LdapSequence_parse_referrals_sequence :: "bytes \<Rightarrow> (LdapSequence, LdapSequenceParseError) res" where
  "LdapSequence_parse_referrals_sequence data = LdapSequence_parse_with_identifier data 0xa3"

definition LdapSequence_parse_bind_response :: "bytes \<Rightarrow> (LdapSequence, LdapSequenceParseError) res" where
  "LdapSequence_parse_bind_response data = LdapSequence_parse_with_identifier data 0x61"

definition LdapSequence_parse_extended_response :: "bytes \<Rightarrow> (LdapSequence, LdapSequenceParseError) res" where
  "LdapSequence_parse_extended_response data = LdapSequence_parse_with_identifier data 0x78"

definition LdapSequence_parse_extended_response_oid :: "bytes \<Rightarrow> (LdapSequence, LdapSequenceParseError) res" where
  "LdapSequence_parse_extended_response_oid data = LdapSequence_parse_with_identifier data 0x8a"

section \<open>Results\<close>

datatype LdapResultParseError =
    InvalidResultCode BerIntegerParseError
  | OutOfRangeResultCode
  | InvalidMatchedDn LdapSequenceParseError
  | InvalidDiagnosticMessage LdapSequenceParseError
  | InvalidReferralsSequence LdapSequenceParseError

record LdapResult =
  LdapResult_result_code :: u16
  LdapResult_matched_dn :: bytes
  LdapResult_diagnostic_message :: bytes
  LdapResult_referral_sequence :: bytes
  LdapResult_encoded_len :: nat

definition LdapResult_parse :: "bytes \<Rightarrow> (LdapResult, LdapResultParseError) res" where
  "LdapResult_parse data =
     res_bind (map_err InvalidResultCode (BerInteger_parse_enumerated_value data)) (\<lambda>code.
     if BerInteger_value code < 0 \<or> 2 ^ 16 \<le> BerInteger_value code then Err OutOfRangeResultCode
     else
       let result_code = of_int (BerInteger_value code) :: u16;
           offset = BerInteger_encoded_len code
       in
       res_bind (slice_from data offset) (\<lambda>d.
       res_bind (map_err InvalidMatchedDn (LdapSequence_parse_octet_string d)) (\<lambda>matched_dn.
       let offset = offset + LdapSequence_encoded_len matched_dn in
       res_bind (slice_from data offset) (\<lambda>d.
       res_bind (map_err InvalidDiagnosticMessage (LdapSequence_parse_octet_string d)) (\<lambda>diagnostic_message.
       let offset = offset + LdapSequence_encoded_len diagnostic_message in
       if result_code = 10 then
         res_bind (slice_from data offset) (\<lambda>d.
         res_bind (map_err InvalidReferralsSequence (LdapSequence_parse_referrals_sequence d)) (\<lambda>referral_sequence.
         Ok \<lparr>LdapResult_result_code = result_code,
             LdapResult_matched_dn = LdapSequence_data matched_dn,
             LdapResult_diagnostic_message = LdapSequence_data diagnostic_message,
             LdapResult_referral_sequence = LdapSequence_data referral_sequence,
             LdapResult_encoded_len = offset + LdapSequence_encoded_len referral_sequence\<rparr>))
       else
         Ok \<lparr>LdapResult_result_code = result_code,
             LdapResult_matched_dn = LdapSequence_data matched_dn,
             LdapResult_diagnostic_message = LdapSequence_data diagnostic_message,
             LdapResult_referral_sequence = [],
             LdapResult_encoded_len = offset\<rparr>)))))"

definition LdapResult_is_success :: "LdapResult \<Rightarrow> bool" where
  "LdapResult_is_success self \<longleftrightarrow> LdapResult_result_code self = 0"

section \<open>The bind request encoder\<close>

abbreviation (input) MAX_MESSAGE_ID :: u8 where
  "MAX_MESSAGE_ID \<equiv> 0x7F"

abbreviation (input) MIN_MESSAGE_ID :: u8 where
  "MIN_MESSAGE_ID \<equiv> 1"

record SimpleBindRequestEncoder =
  SBRE_message_id :: u8
  SBRE_bind_dn_length_encoder :: BerLengthEncoder
  SBRE_password_length_encoder :: BerLengthEncoder
  SBRE_request_length_encoder :: BerLengthEncoder
  SBRE_message_length_encoder :: BerLengthEncoder
  SBRE_request_buf :: bytes

definition SimpleBindRequestEncoder_default :: SimpleBindRequestEncoder where
  "SimpleBindRequestEncoder_default =
     \<lparr>SBRE_message_id = MAX_MESSAGE_ID,
      SBRE_bind_dn_length_encoder = BerLengthEncoder_default,
      SBRE_password_length_encoder = BerLengthEncoder_default,
      SBRE_request_length_encoder = BerLengthEncoder_default,
      SBRE_message_length_encoder = BerLengthEncoder_default,
      SBRE_request_buf = []\<rparr>"

definition SimpleBindRequestEncoder_reset :: "SimpleBindRequestEncoder \<Rightarrow> SimpleBindRequestEncoder" where
  "SimpleBindRequestEncoder_reset self = self\<lparr>SBRE_message_id := MAX_MESSAGE_ID\<rparr>"

definition SimpleBindRequestEncoder_message_id :: "SimpleBindRequestEncoder \<Rightarrow> u32" where
  "SimpleBindRequestEncoder_message_id self = ucast (SBRE_message_id self)"

definition next_message_id :: "u8 \<Rightarrow> u8" where
  "next_message_id message_id =
     (let message_id = message_id + 1 in
      if MAX_MESSAGE_ID < message_id then MIN_MESSAGE_ID else message_id)"

definition SimpleBindRequestEncoder_encode ::
  "SimpleBindRequestEncoder \<Rightarrow> bytes \<Rightarrow> bytes \<Rightarrow> SimpleBindRequestEncoder \<times> (bytes, unit) res" where
  "SimpleBindRequestEncoder_encode self bind_dn password =
     (let self = self\<lparr>SBRE_message_id := next_message_id (SBRE_message_id self)\<rparr>;
          bind_dn_len = length bind_dn;
          (enc1, r1) = BerLengthEncoder_encode (SBRE_bind_dn_length_encoder self) bind_dn_len;
          self = self\<lparr>SBRE_bind_dn_length_encoder := enc1\<rparr>;
          password_len = length password;
          (enc2, r2) = BerLengthEncoder_encode (SBRE_password_length_encoder self) password_len;
          self = self\<lparr>SBRE_password_length_encoder := enc2\<rparr>
      in
      case (r1, r2) of
        (Ok bind_dn_length_bytes, Ok password_length_bytes) \<Rightarrow>
          (let bind_dn_encoded_len = 1 + length bind_dn_length_bytes + bind_dn_len;
               password_encoded_len = 1 + length password_length_bytes + password_len;
               request_len = 3 + bind_dn_encoded_len + password_encoded_len;
               (enc3, r3) = BerLengthEncoder_encode (SBRE_request_length_encoder self) request_len;
               self = self\<lparr>SBRE_request_length_encoder := enc3\<rparr>
           in
           case r3 of
             Ok request_length_bytes \<Rightarrow>
               (let request_encoded_len = 1 + length request_length_bytes + request_len;
                    message_len = 3 + request_encoded_len;
                    (enc4, r4) = BerLengthEncoder_encode (SBRE_message_length_encoder self) message_len;
                    self = self\<lparr>SBRE_message_length_encoder := enc4\<rparr>
                in
                case r4 of
                  Ok message_length_bytes \<Rightarrow>
                    (let buf = [0x30] @ message_length_bytes
                           @ [0x02, 0x01, SBRE_message_id self]
                           @ [0x60] @ request_length_bytes
                           @ [0x02, 0x01, 0x03]
                           @ [0x04] @ bind_dn_length_bytes @ bind_dn
                           @ [0x80] @ password_length_bytes @ password
                     in (self\<lparr>SBRE_request_buf := buf\<rparr>, Ok buf))
                | _ \<Rightarrow> (self, Panic))
           | _ \<Rightarrow> (self, Panic))
      | _ \<Rightarrow> (self, Panic))"

definition SimpleBindRequestEncoder_unbind_sequence ::
  "SimpleBindRequestEncoder \<Rightarrow> SimpleBindRequestEncoder \<times> bytes" where
  "SimpleBindRequestEncoder_unbind_sequence self =
     (let self = self\<lparr>SBRE_message_id := next_message_id (SBRE_message_id self)\<rparr>
      in (self, [0x30, 0x05, 0x02, 0x01, SBRE_message_id self, 0x42, 0x00]))"

section \<open>Where the parsers panic\<close>

lemma LdapLength_parse_ensures [ensures_rules]:
  "(\<And>l. 0 < LdapLength_encoded_len l \<Longrightarrow> LdapLength_encoded_len l \<le> length data \<Longrightarrow> Q l)
    \<Longrightarrow> ensures (LdapLength_parse data) Q"
  unfolding LdapLength_parse_def by (auto intro!: ensures_rules)

lemma LdapMessageId_parse_panic: "LdapMessageId_parse data = Panic \<longleftrightarrow> BerInteger_parse data = Panic"
  by (auto simp: LdapMessageId_parse_def res_bind_eq_Panic map_err_eq_Panic)

lemma LdapMessageId_parse_encoded_len:
  "LdapMessageId_parse data = Ok mid \<Longrightarrow> LdapMessageId_encoded_len mid \<le> length data"
  by (auto simp: LdapMessageId_parse_def res_simps BerInteger_parse_def split: if_splits
      dest!: BerInteger_parse_encoded_len)

lemma LdapMessage_parse_panic_iff:
  "LdapMessage_parse data m = Panic \<longleftrightarrow>
    (\<exists>h l. data = 0x30 # h \<and> LdapLength_parse h = Ok l \<and> unat (LdapLength_value l) \<le> m
       \<and> LdapLength_encoded_len l + unat (LdapLength_value l) \<le> length h
       \<and> BerInteger_parse (take (unat (LdapLength_value l)) (drop (LdapLength_encoded_len l) h)) = Panic)"
proof (cases data)
  case Nil
  then show ?thesis by (simp add: LdapMessage_parse_def)
next
  case (Cons d0 h)
  have e: "ensures (LdapLength_parse h) (\<lambda>l. LdapLength_encoded_len l \<le> length h)"
    by (rule ensures_rules)
  show ?thesis
  proof (cases "LdapLength_parse h")
    case (Ok l)
    let ?c = "take (unat (LdapLength_value l)) (drop (LdapLength_encoded_len l) h)"
    have p: "LdapMessageId_parse ?c = Panic \<longleftrightarrow> BerInteger_parse ?c = Panic"
      by (rule LdapMessageId_parse_panic)
    show ?thesis
    proof (cases "LdapMessageId_parse ?c")
      case (Ok mid)
      then show ?thesis
        using LdapMessageId_parse_encoded_len [OF Ok] p \<open>LdapLength_parse h = Ok l\<close> e
        by (auto simp: LdapMessage_parse_def Cons Let_def not_less)
    qed (use p Ok e in \<open>auto simp: LdapMessage_parse_def Cons Let_def not_less\<close>)
  next
    case (Err x)
    then show ?thesis by (simp add: LdapMessage_parse_def Cons)
  next
    case Panic
    with e show ?thesis by simp
  qed
qed

lemma LdapSequence_parse_panic_iff:
  "LdapSequence_parse_with_identifier data identifier = Panic \<longleftrightarrow>
    (\<exists>h l. data = identifier # h \<and> BerLength_parse h = Ok l \<and> \<not> BerLength_indefinite l
       \<and> 2 ^ 64 \<le> unat (BerLength_value l) + (1 + BerLength_encoded_len l))"
proof (cases data)
  case Nil
  then show ?thesis by (simp add: LdapSequence_parse_with_identifier_def)
next
  case (Cons d0 h)
  have e: "ensures (BerLength_parse h) (\<lambda>l. BerLength_encoded_len l \<le> length h \<and> BerLength_encoded_len l \<le> 9)"
    by (rule ensures_rules) simp
  show ?thesis
  proof (cases "BerLength_parse h")
    case (Ok l)
    let ?v = "unat (BerLength_value l)" and ?o = "1 + BerLength_encoded_len l"
    have v: "?v < 2 ^ 64"
      using unsigned_less [of "BerLength_value l"] by simp
    have w: "wrapping_add ?v ?o = (if 2 ^ 64 \<le> ?v + ?o then ?v + ?o - 2 ^ 64 else ?v + ?o)"
      using v e Ok by (auto simp: wrapping_add_def mod_if)
    show ?thesis
      using Ok e v w
      by (auto simp: LdapSequence_parse_with_identifier_def Cons Let_def slice_eq_Panic res_bind_eq_Panic
         split: if_splits)
  next
    case (Err x)
    then show ?thesis by (auto simp: LdapSequence_parse_with_identifier_def Cons)
  next
    case Panic
    with e show ?thesis by simp
  qed
qed


section \<open>The bind request\<close>

definition encoder_wf :: "SimpleBindRequestEncoder \<Rightarrow> bool" where
  "encoder_wf e \<longleftrightarrow> SBRE_message_id e \<le> MAX_MESSAGE_ID
     \<and> length (BerLengthEncoder_buf (SBRE_bind_dn_length_encoder e)) = 9
     \<and> length (BerLengthEncoder_buf (SBRE_password_length_encoder e)) = 9
     \<and> length (BerLengthEncoder_buf (SBRE_request_length_encoder e)) = 9
     \<and> length (BerLengthEncoder_buf (SBRE_message_length_encoder e)) = 9"

lemma encoder_wf_default: "encoder_wf SimpleBindRequestEncoder_default"
  by (simp add: encoder_wf_def SimpleBindRequestEncoder_default_def BerLengthEncoder_default_def)

lemma next_message_id_range: "m \<le> 0x7F \<Longrightarrow> 1 \<le> unat (next_message_id m) \<and> unat (next_message_id m) \<le> 127"
  by (auto simp: next_message_id_def Let_def word_le_nat_alt word_less_nat_alt unat_word_ariths)

lemma BerLengthEncoder_encode_short:
  assumes "length (BerLengthEncoder_buf e) = 9" and "v \<le> 127"
  obtains e' where "BerLengthEncoder_encode e v = (e', Ok [of_nat v])" "length (BerLengthEncoder_buf e') = 9"
proof -
  have "snd (BerLengthEncoder_encode e v) = Ok [of_nat v]"
    "length (BerLengthEncoder_buf (fst (BerLengthEncoder_encode e v))) = 9"
    using BerLengthEncoder_encode_eq [OF assms(1), of v] assms(2) by simp_all
  then show thesis
    using that by (cases "BerLengthEncoder_encode e v") simp
qed

lemma LdapMessageId_parse_byte:
  assumes "unat m \<le> 127"
  shows "LdapMessageId_parse (0x02 # 0x01 # m # rest) =
    Ok \<lparr>LdapMessageId_value = ucast m, LdapMessageId_encoded_len = 3\<rparr>"
proof -
  have "sign_magnitude [m] = int (unat m)"
    using assms by (simp add: sign_magnitude_def)
  then have "BerInteger_parse (0x02 # 0x01 # m # rest) =
      Ok \<lparr>BerInteger_value = int (unat m), BerInteger_encoded_len = 3\<rparr>"
    using BerInteger_parse_value [of "[m]" 2 rest] by (simp add: BerInteger_parse_def)
  moreover have "uint m < 2 ^ 8"
    using unsigned_less [of m, where 'a = int] by simp
  ultimately show ?thesis
    by (simp add: LdapMessageId_parse_def)
qed

text \<open>The operation a short bind request carries.\<close>

definition bind_operation :: "bytes \<Rightarrow> bytes \<Rightarrow> bytes" where
  "bind_operation dn pw =
     [0x60, of_nat (7 + length dn + length pw), 0x02, 0x01, 0x03, 0x04, of_nat (length dn)] @ dn
       @ [0x80, of_nat (length pw)] @ pw"

lemma SimpleBindRequestEncoder_encode_short:
  assumes wf: "encoder_wf e" and short: "12 + length dn + length pw \<le> 127"
  shows "\<exists>e'. SimpleBindRequestEncoder_encode e dn pw =
      (e', Ok ([0x30, of_nat (12 + length dn + length pw), 0x02, 0x01, next_message_id (SBRE_message_id e)]
           @ bind_operation dn pw))
    \<and> encoder_wf e' \<and> SBRE_message_id e' = next_message_id (SBRE_message_id e)"
proof -
  have le: "length dn \<le> 127" "length pw \<le> 127" "7 + length dn + length pw \<le> 127"
    using short by simp_all
  have w: "length (BerLengthEncoder_buf (SBRE_bind_dn_length_encoder e)) = 9"
    "length (BerLengthEncoder_buf (SBRE_password_length_encoder e)) = 9"
    "length (BerLengthEncoder_buf (SBRE_request_length_encoder e)) = 9"
    "length (BerLengthEncoder_buf (SBRE_message_length_encoder e)) = 9"
    using wf by (simp_all add: encoder_wf_def)
  obtain e1 where e1: "BerLengthEncoder_encode (SBRE_bind_dn_length_encoder e) (length dn) = (e1, Ok [of_nat (length dn)])"
      "length (BerLengthEncoder_buf e1) = 9"
    by (rule BerLengthEncoder_encode_short [OF w(1) le(1)])
  obtain e2 where e2: "BerLengthEncoder_encode (SBRE_password_length_encoder e) (length pw) = (e2, Ok [of_nat (length pw)])"
      "length (BerLengthEncoder_buf e2) = 9"
    by (rule BerLengthEncoder_encode_short [OF w(2) le(2)])
  let ?req = "3 + (1 + 1 + length dn) + (1 + 1 + length pw)" and ?msg = "3 + (1 + 1 + (3 + (1 + 1 + length dn) + (1 + 1 + length pw)))"
  have n: "?req = 7 + length dn + length pw" "?msg = 12 + length dn + length pw"
    by simp_all
  obtain e3 where e3: "BerLengthEncoder_encode (SBRE_request_length_encoder e) ?req =
        (e3, Ok [of_nat (7 + length dn + length pw)])" "length (BerLengthEncoder_buf e3) = 9"
    unfolding n(1) by (rule BerLengthEncoder_encode_short [OF w(3) le(3)])
  obtain e4 where e4: "BerLengthEncoder_encode (SBRE_message_length_encoder e) ?msg =
        (e4, Ok [of_nat (12 + length dn + length pw)])" "length (BerLengthEncoder_buf e4) = 9"
    unfolding n(2) by (rule BerLengthEncoder_encode_short [OF w(4) short])
  have one: "length [x] = 1" for x :: u8
    by simp
  have "next_message_id (SBRE_message_id e) \<le> 0x7F"
    using next_message_id_range [of "SBRE_message_id e"] wf by (simp add: encoder_wf_def word_le_nat_alt)
  then show ?thesis
    unfolding SimpleBindRequestEncoder_encode_def bind_operation_def
    using e1 e2 e3 e4 by (simp add: encoder_wf_def Let_def one del: list.size One_nat_def)
qed

section \<open>The properties\<close>

text \<open>
  C29. \<open>LdapMessage::parse\<close> panics exactly on a complete message whose message id integer has its
  tag and a definite length but no content byte; the sequence parser panics exactly on a length
  that overflows 64 bits together with the bytes before it.
\<close>

theorem ldap_parse_panics_iff:
  "(LdapMessage_parse data m = Panic \<longleftrightarrow>
     (\<exists>h l. data = 0x30 # h \<and> LdapLength_parse h = Ok l \<and> unat (LdapLength_value l) \<le> m
        \<and> LdapLength_encoded_len l + unat (LdapLength_value l) \<le> length h
        \<and> BerInteger_parse (take (unat (LdapLength_value l)) (drop (LdapLength_encoded_len l) h)) = Panic))
   \<and> (LdapSequence_parse_with_identifier data identifier = Panic \<longleftrightarrow>
     (\<exists>h l. data = identifier # h \<and> BerLength_parse h = Ok l \<and> \<not> BerLength_indefinite l
        \<and> 2 ^ 64 \<le> unat (BerLength_value l) + (1 + BerLength_encoded_len l)))"
  using LdapMessage_parse_panic_iff LdapSequence_parse_panic_iff by blast

text \<open>
  C30. A simple bind request whose message is at most 127 bytes long is a well-formed LDAP message:
  parsing it gives back the message id and the bind operation with the name and the password. The
  encoder's invariant holds afterwards and the message id stays in 1 to 127, so the encoder can be
  used again, whatever its buffers hold from earlier requests.
\<close>

theorem bind_request_round_trip:
  assumes wf: "encoder_wf e" and short: "12 + length dn + length pw \<le> 127"
    and limit: "12 + length dn + length pw \<le> max_message_length"
  shows "\<exists>e' buf. SimpleBindRequestEncoder_encode e dn pw = (e', Ok buf) \<and> encoder_wf e'
    \<and> 1 \<le> SimpleBindRequestEncoder_message_id e' \<and> SimpleBindRequestEncoder_message_id e' \<le> 127
    \<and> LdapMessage_parse buf max_message_length =
      Ok \<lparr>LdapMessage_id = SimpleBindRequestEncoder_message_id e',
          LdapMessage_payload = bind_operation dn pw, LdapMessage_encoded_size = length buf\<rparr>"
proof -
  let ?m = "next_message_id (SBRE_message_id e)" and ?n = "12 + length dn + length pw"
  obtain e' where e': "SimpleBindRequestEncoder_encode e dn pw =
      (e', Ok ([0x30, of_nat ?n, 0x02, 0x01, ?m] @ bind_operation dn pw))"
      "encoder_wf e'" "SBRE_message_id e' = ?m"
    using SimpleBindRequestEncoder_encode_short [OF wf short] by blast
  have m: "1 \<le> unat ?m" "unat ?m \<le> 127"
    using next_message_id_range [of "SBRE_message_id e"] wf by (simp_all add: encoder_wf_def)
  have u: "unat (ucast ?m :: u32) = unat ?m"
    by (simp add: unat_ucast_up)
  have lb: "length (bind_operation dn pw) = 9 + length dn + length pw"
    by (simp add: bind_operation_def)
  have len: "LdapLength_parse (of_nat ?n # rest) = Ok \<lparr>LdapLength_value = of_nat ?n, LdapLength_encoded_len = 1\<rparr>" for rest
    using BerLength_parse_short [of ?n rest] short by (simp add: LdapLength_parse_def del: of_nat_add)
  have n: "unat (of_nat ?n :: u64) = ?n"
    using short by (simp add: unat_of_nat del: of_nat_add)
  have "LdapMessage_parse ([0x30, of_nat ?n, 0x02, 0x01, ?m] @ bind_operation dn pw) max_message_length =
      Ok \<lparr>LdapMessage_id = ucast ?m, LdapMessage_payload = bind_operation dn pw,
          LdapMessage_encoded_size = 2 + ?n\<rparr>"
    using limit len [of "[0x02, 0x01, ?m] @ bind_operation dn pw"] n lb LdapMessageId_parse_byte [OF m(2)]
    by (simp add: LdapMessage_parse_def Let_def del: of_nat_add)
  then show ?thesis
    using e' m u lb
    by (auto simp: SimpleBindRequestEncoder_message_id_def word_le_nat_alt)
qed

theorem bind_request_round_trip_witness:
  "\<exists>e' buf. SimpleBindRequestEncoder_encode SimpleBindRequestEncoder_default (ascii ''cn=a'') (ascii ''pw'') = (e', Ok buf)
    \<and> encoder_wf e' \<and> LdapMessage_parse buf 256 =
      Ok \<lparr>LdapMessage_id = SimpleBindRequestEncoder_message_id e',
          LdapMessage_payload = bind_operation (ascii ''cn=a'') (ascii ''pw''), LdapMessage_encoded_size = length buf\<rparr>"
  using bind_request_round_trip [OF encoder_wf_default, of "ascii ''cn=a''" "ascii ''pw''" 256] by auto

end
