(* ===== verification/Dpi_Checks.thy ===== *)
theory Dpi_Checks
  imports Dpi_Protocol Ldap Tls
begin

text \<open>
  The checks of the traffic inspector, one per protocol (\<open>g3-dpi/src/protocol/*.rs\<close>). A check gets
  the first bytes of a connection and answers with a protocol, with nothing, or with the number of
  bytes it misses; it changes the inspection state in each case, so it returns the new state beside
  its outcome. Undefined behaviour of a raw memory copy is an outcome \<open>Panic\<close> too.
\<close>

section \<open>Configuration\<close>

record ProtocolInspectionSizeLimit =
  ftp_server_greeting_msg :: nat
  http_client_request_uri :: nat
  imap_server_greeting_msg :: nat
  nats_server_info_line :: nat
  ldap_request_msg :: nat

definition ProtocolInspectionSizeLimit_default :: ProtocolInspectionSizeLimit where
  "ProtocolInspectionSizeLimit_default =
     \<lparr>ftp_server_greeting_msg = 512, http_client_request_uri = 4096, imap_server_greeting_msg = 512,
      nats_server_info_line = 1024, ldap_request_msg = 1024\<rparr>"

text \<open>Durations are in seconds.\<close>

record ProtocolInspectionConfig =
  inspect_max_depth :: nat
  data0_buffer_size :: nat
  data0_wait_timeout :: nat
  data0_read_timeout :: nat
  data0_size_limit :: ProtocolInspectionSizeLimit

definition ProtocolInspectionConfig_default :: ProtocolInspectionConfig where
  "ProtocolInspectionConfig_default =
     \<lparr>inspect_max_depth = 4, data0_buffer_size = 4096, data0_wait_timeout = 60,
      data0_read_timeout = 4, data0_size_limit = ProtocolInspectionSizeLimit_default\<rparr>"

section \<open>The inspection state\<close>

datatype ProtocolInspectError = NeedMoreData nat

record ProtocolInspectState =
  PIS_current :: "MaybeProtocol option"
  PIS_excluded :: "MaybeProtocol set"

type_synonym 'a check = "ProtocolInspectState \<times> ('a, ProtocolInspectError) res"
type_synonym inspection = "Protocol option check"

definition ProtocolInspectState_default :: ProtocolInspectState where
  "ProtocolInspectState_default = \<lparr>PIS_current = None, PIS_excluded = {}\<rparr>"

definition exclude_other :: "ProtocolInspectState \<Rightarrow> MaybeProtocol \<Rightarrow> ProtocolInspectState" where
  "exclude_other self protocol = self\<lparr>PIS_excluded := insert protocol (PIS_excluded self)\<rparr>"

definition excluded :: "ProtocolInspectState \<Rightarrow> MaybeProtocol \<Rightarrow> bool" where
  "excluded self protocol \<longleftrightarrow> protocol \<in> PIS_excluded self"

definition exclude_current :: "ProtocolInspectState \<Rightarrow> ProtocolInspectState" where
  "exclude_current self =
     (case PIS_current self of
        Some p \<Rightarrow> self\<lparr>PIS_current := None, PIS_excluded := insert p (PIS_excluded self)\<rparr>
      | None \<Rightarrow> self)"

definition take_current :: "ProtocolInspectState \<Rightarrow> ProtocolInspectState \<times> MaybeProtocol option" where
  "take_current self = (self\<lparr>PIS_current := None\<rparr>, PIS_current self)"

definition set_current :: "ProtocolInspectState \<Rightarrow> MaybeProtocol \<Rightarrow> ProtocolInspectState" where
  "set_current self protocol = self\<lparr>PIS_current := Some protocol\<rparr>"

definition ProtocolInspectState_reset_state :: "ProtocolInspectState \<Rightarrow> ProtocolInspectState" where
  "ProtocolInspectState_reset_state self = self\<lparr>PIS_current := None, PIS_excluded := {}\<rparr>"

text \<open>
  A run of \<open>exclude_other\<close> calls, the pair of statements that gives up the current protocol, and a
  fallible expression inside a method.
\<close>

definition exclude_others :: "ProtocolInspectState \<Rightarrow> MaybeProtocol list \<Rightarrow> ProtocolInspectState" where
  "exclude_others self ps = foldl exclude_other self ps"

definition give_up :: "ProtocolInspectState \<Rightarrow> 'a option check" where
  "give_up self = (exclude_current self, Ok None)"

definition check_bind ::
  "ProtocolInspectState \<Rightarrow> ('x, ProtocolInspectError) res \<Rightarrow> ('x \<Rightarrow> 'a check) \<Rightarrow> 'a check" where
  "check_bind self m k =
     (case m of Ok x \<Rightarrow> k x | Err e \<Rightarrow> (self, Err e) | Panic \<Rightarrow> (self, Panic))"

definition need_more :: "ProtocolInspectState \<Rightarrow> nat \<Rightarrow> 'a check" where
  "need_more self n = (self, Err (NeedMoreData n))"

lemma check_bind_cong [fundef_cong]:
  assumes "m = m'" and "s = s'" and "\<And>a. m' = Ok a \<Longrightarrow> k a = k' a"
  shows "check_bind s m k = check_bind s' m' k'"
  using assms by (auto simp: check_bind_def split: res.splits)

lemma check_bind_simps [simp]:
  "check_bind s (Ok x) k = k x" "check_bind s (Err e) k = (s, Err e)" "check_bind s Panic k = (s, Panic)"
  by (simp_all add: check_bind_def)

section \<open>BitTorrent, DNS and FTP\<close>

definition check_bittorrent_tcp_handshake :: "ProtocolInspectState \<Rightarrow> bytes \<Rightarrow> inspection" where
  "check_bittorrent_tcp_handshake self data =
     (let data_len = length data in
      if data_len < 68 then need_more self (68 - data_len)
      else
        check_bind self (index data 0) (\<lambda>d0.
        if d0 \<noteq> 0x13 then give_up self
        else
          let self = exclude_others self
                [MP_Ftp, MP_Ssh, MP_Smtp, MP_Odmr, MP_Pop3, MP_Imap, MP_Http, MP_Ssl, MP_Rtsp, MP_Mqtt, MP_Stomp, MP_Smpp, MP_Rtmp, MP_Nats, MP_Ldap]
          in
          check_bind self (slice_from data 1) (\<lambda>left.
          if starts_with left (ascii ''BitTorrent protocol'') then (self, Ok (Some P_BitTorrentOverTcp))
          else give_up self)))"

definition check_dns_request_message_header :: "bytes \<Rightarrow> (bool, ProtocolInspectError) res" where
  "check_dns_request_message_header hdr =
     res_bind (index hdr 2) (\<lambda>h2.
     if h2 AND 0x80 \<noteq> 0 then Ok False
     else
       res_bind (slice hdr 6 12) (\<lambda>counts.
       Ok (counts = [0, 0, 0, 0, 0, 0])))"

definition check_dns_tcp_request_message :: "ProtocolInspectState \<Rightarrow> bytes \<Rightarrow> inspection" where
  "check_dns_tcp_request_message self data =
     (let data_len = length data in
      if data_len < 2 + 12 then need_more self (2 + 12 - data_len)
      else
        check_bind self (indices data [0..<2]) (\<lambda>l.
        let message_len = unat (from_be l :: u16) in
        if message_len < 12 then give_up self
        else
          check_bind self (slice_from data 2) (\<lambda>hdr.
          check_bind self (check_dns_request_message_header hdr) (\<lambda>is_ok.
          if \<not> is_ok then give_up self
          else (self, Ok (Some P_Dns))))))"

definition ftp_exclude_by_byte0 :: "ProtocolInspectState \<Rightarrow> ProtocolInspectState" where
  "ftp_exclude_by_byte0 self = exclude_others self [MP_Ssh, MP_Pop3, MP_Imap, MP_Nats, MP_BitTorrent]"

definition check_ftp_after_code ::
  "ProtocolInspectState \<Rightarrow> bytes \<Rightarrow> ProtocolInspectionSizeLimit \<Rightarrow> inspection" where
  "check_ftp_after_code self data size_limit =
     check_bind self (index data 3) (\<lambda>d3.
     if \<not> (d3 = byte CHR '' '' \<or> d3 = byte CHR ''-'') then give_up self
     else
       check_bind self (slice_from data 4) (\<lambda>left.
       case memchr 0x0A left of
         Some _ \<Rightarrow> (self, Ok (Some P_FtpControl))
       | None \<Rightarrow>
           if ftp_server_greeting_msg size_limit < length left then give_up self
           else need_more self 1))"

definition check_ftp_server_greeting ::
  "ProtocolInspectState \<Rightarrow> bytes \<Rightarrow> ProtocolInspectionSizeLimit \<Rightarrow> inspection" where
  "check_ftp_server_greeting self data size_limit =
     (let data_len = length data in
      if data_len < 6 then need_more self (6 - data_len)
      else
        check_bind self (index data 0) (\<lambda>d0.
        if d0 = byte CHR ''1'' then
          let self = exclude_others (ftp_exclude_by_byte0 self) [MP_Smtp, MP_Odmr, MP_Nntp, MP_Nnsp] in
          check_bind self (slice data 0 3) (\<lambda>code.
          if code = ascii ''120'' then check_ftp_after_code self data size_limit
          else give_up self)
        else if d0 = byte CHR ''2'' then
          let self = ftp_exclude_by_byte0 self in
          check_bind self (index data 1) (\<lambda>d1.
          if d1 \<noteq> byte CHR ''2'' then give_up self
          else
            let self = exclude_others self [MP_Nntp, MP_Nnsp] in
            check_bind self (index data 2) (\<lambda>d2.
            if d2 = byte CHR ''0'' then check_ftp_after_code self data size_limit
            else give_up self))
        else if d0 = byte CHR ''4'' then
          let self = exclude_others (ftp_exclude_by_byte0 self) [MP_Smtp, MP_Odmr, MP_Nntp, MP_Nnsp] in
          check_bind self (slice data 0 3) (\<lambda>code.
          if code = ascii ''421'' then check_ftp_after_code self data size_limit
          else give_up self)
        else give_up self))"

section \<open>HTTP\<close>

definition http_exclude_by_byte0 :: "ProtocolInspectState \<Rightarrow> ProtocolInspectState" where
  "http_exclude_by_byte0 self =
     exclude_others self [MP_Ssl, MP_Mqtt, MP_Smpp, MP_Rtmp, MP_BitTorrent, MP_Ldap]"

definition http_exclude_by_byte0_s :: "ProtocolInspectState \<Rightarrow> ProtocolInspectState" where
  "http_exclude_by_byte0_s self = exclude_others self [MP_Ssh, MP_Rtsp]"

definition check_http1_after_url :: "ProtocolInspectState \<Rightarrow> bytes \<Rightarrow> nat \<Rightarrow> inspection" where
  "check_http1_after_url self data version_offset =
     (let minimum_len = 12 + version_offset; data_len = length data in
      if data_len < minimum_len then need_more self (minimum_len - data_len)
      else
        check_bind self (slice_from data version_offset) (\<lambda>left.
        if starts_with left (ascii ''HTTP/1.'') then
          check_bind self (indices left [7..<10]) (\<lambda>v.
          if (v ! 0 = byte CHR ''0'' \<or> v ! 0 = byte CHR ''1'') \<and> v ! 1 = 0x0D \<and> v ! 2 = 0x0A
          then (self, Ok (Some P_Http1))
          else give_up self)
        else give_up self))"

definition check_http1_after_method ::
  "ProtocolInspectState \<Rightarrow> bytes \<Rightarrow> nat \<Rightarrow> ProtocolInspectionSizeLimit \<Rightarrow> inspection" where
  "check_http1_after_method self data url_offset size_limit =
     (let minimum_len = 14 + url_offset; data_len = length data in
      if data_len < minimum_len then need_more self (minimum_len - data_len)
      else
        check_bind self (slice data 0 (url_offset - 1)) (\<lambda>method.
        check_bind self (slice_from data url_offset) (\<lambda>left.
        case memchr (byte CHR '' '') left of
          Some p \<Rightarrow> check_http1_after_url self data (url_offset + p + 1)
        | None \<Rightarrow>
            if http_client_request_uri size_limit < length left then give_up self
            else need_more self 1)))"

definition H2_CONNECTION_PREFACE :: bytes where
  "H2_CONNECTION_PREFACE =
     ascii ''PRI * HTTP/2.0'' @ [0x0D, 0x0A, 0x0D, 0x0A] @ ascii ''SM'' @ [0x0D, 0x0A, 0x0D, 0x0A]"

definition check_http2_connection_preface :: "ProtocolInspectState \<Rightarrow> bytes \<Rightarrow> inspection" where
  "check_http2_connection_preface self data =
     (let data_len = length data in
      if data_len < length H2_CONNECTION_PREFACE
      then need_more self (length H2_CONNECTION_PREFACE - data_len)
      else if \<not> starts_with data H2_CONNECTION_PREFACE then (self, Ok None)
      else (self, Ok (Some P_Http2)))"

text \<open>
  The \<open>check_method!\<close> tests of one branch, in order: the first method the data starts with decides
  where the URL begins. Without a match the branch falls through to the end of the function.
\<close>

fun check_methods ::
  "ProtocolInspectState \<Rightarrow> bytes \<Rightarrow> ProtocolInspectionSizeLimit \<Rightarrow> string list \<Rightarrow> inspection option" where
  "check_methods self data size_limit [] = None"
| "check_methods self data size_limit (m # ms) =
     (if starts_with data (ascii m)
      then Some (check_http1_after_method self data (length m) size_limit)
      else check_methods self data size_limit ms)"

definition or_give_up :: "ProtocolInspectState \<Rightarrow> inspection option \<Rightarrow> inspection" where
  "or_give_up self r = (case r of Some i \<Rightarrow> i | None \<Rightarrow> give_up self)"

text \<open>The state of the branches that rule out SSH, RTSP and STOMP before they look at the method.\<close>

definition http_exclude_all :: "ProtocolInspectState \<Rightarrow> ProtocolInspectState" where
  "http_exclude_all self =
     exclude_other (http_exclude_by_byte0_s (http_exclude_by_byte0 self)) MP_Stomp"

definition check_http_request ::
  "ProtocolInspectState \<Rightarrow> bytes \<Rightarrow> ProtocolInspectionSizeLimit \<Rightarrow> inspection" where
  "check_http_request self data size_limit =
     (let data_len = length data;
          check = (\<lambda>self ms. or_give_up self (check_methods self data size_limit ms));
          all = http_exclude_all self
      in
      if data_len < 18 then need_more self (18 - data_len)
      else
        check_bind self (index data 0) (\<lambda>d0.
        if d0 = byte CHR ''A'' then check all [''ACL '']
        else if d0 = byte CHR ''B'' then check all [''BIND '', ''BASELINE-CONTROL '']
        else if d0 = byte CHR ''C'' then
          let self = http_exclude_by_byte0_s (http_exclude_by_byte0 self) in
          or_give_up self (check_methods (exclude_other self MP_Stomp) data size_limit
            [''CONNECT '', ''COPY '', ''CHECKIN '', ''CHECKOUT ''])
        else if d0 = byte CHR ''D'' then check all [''DELETE '']
        else if d0 = byte CHR ''G'' then check all [''GET '']
        else if d0 = byte CHR ''H'' then check all [''HEAD '']
        else if d0 = byte CHR ''L'' then check all [''LOCK '', ''LINK '', ''LABEL '']
        else if d0 = byte CHR ''M'' then
          check all [''MOVE '', ''MKCOL '', ''MERGE '', ''MKACTIVITY '', ''MKCALENDAR '',
                     ''MKREDIRECTREF '', ''MKWORKSPACE '']
        else if d0 = byte CHR ''O'' then check all [''OPTIONS '', ''ORDERPATCH '']
        else if d0 = byte CHR ''P'' then
          (case check_methods all data size_limit [''POST '', ''PUT ''] of
             Some r \<Rightarrow> r
           | None \<Rightarrow>
               if starts_with data (ascii ''PRI '') then check_http2_connection_preface all data
               else check all [''PROPFIND '', ''PROPPATCH '', ''PATCH ''])
        else if d0 = byte CHR ''R'' then check all [''REPORT '', ''REBIND '']
        else if d0 = byte CHR ''S'' then
          let self = http_exclude_by_byte0 self in
          or_give_up self (check_methods (exclude_others self [MP_Ssh, MP_Rtsp, MP_Stomp]) data size_limit
            [''SEARCH '', ''SOURCE ''])
        else if d0 = byte CHR ''T'' then check all [''TRACE '']
        else if d0 = byte CHR ''U'' then
          check all [''UNLOCK '', ''UNBIND '', ''UNCHECKOUT '', ''UNLINK '', ''UPDATE '',
                     ''UNDATEREDIRECTREF '']
        else if d0 = byte CHR ''V'' then check all [''VERSION-CONTROL '']
        else give_up self))"

section \<open>IMAP, LDAP, MQTT, NATS, NNTP and POP3\<close>

text \<open>The end of the check of an IMAP greeting: the line end.\<close>

definition check_imap_tail ::
  "ProtocolInspectState \<Rightarrow> bytes \<Rightarrow> ProtocolInspectionSizeLimit \<Rightarrow> inspection" where
  "check_imap_tail self data size_limit =
     (let data_len = length data in
      check_bind self (index data (data_len - 1)) (\<lambda>e1.
      if e1 \<noteq> 0x0A then
        check_bind self (slice_from data 4) (\<lambda>left.
        if imap_server_greeting_msg size_limit < length left then give_up self
        else need_more self 1)
      else
        check_bind self (index data (data_len - 2)) (\<lambda>e2.
        if e2 \<noteq> 0x0D then give_up self
        else (self, Ok (Some P_Imap)))))"

definition check_imap_server_greeting ::
  "ProtocolInspectState \<Rightarrow> bytes \<Rightarrow> ProtocolInspectionSizeLimit \<Rightarrow> inspection" where
  "check_imap_server_greeting self data size_limit =
     (let data_len = length data in
      if data_len < 6 then need_more self (6 - data_len)
      else
        check_bind self (index data 0) (\<lambda>d0.
        if d0 \<noteq> byte CHR ''*'' then give_up self
        else
          let self = exclude_others self
                [MP_Ftp, MP_Ssh, MP_Smtp, MP_Odmr, MP_Pop3, MP_Nntp, MP_Nnsp, MP_Nats, MP_BitTorrent]
          in
          check_bind self (index data 1) (\<lambda>d1.
          if d1 \<noteq> byte CHR '' '' then give_up self
          else
            check_bind self (index data 2) (\<lambda>d2.
            if d2 = byte CHR ''O'' then
              check_bind self (index data 3) (\<lambda>d3.
              if d3 \<noteq> byte CHR ''K'' then give_up self
              else check_imap_tail self data size_limit)
            else if d2 = byte CHR ''P'' then
              if data_len < 11 then need_more self (11 - data_len)
              else
                check_bind self (slice_from data 2) (\<lambda>left.
                if \<not> starts_with left (ascii ''PREAUTH'') then give_up self
                else check_imap_tail self data size_limit)
            else if d2 = byte CHR ''B'' then
              check_bind self (indices data [3..<5]) (\<lambda>ye.
              if ye \<noteq> ascii ''YE'' then give_up self
              else check_imap_tail self data size_limit)
            else give_up self))))"

definition check_ldap_content ::
  "ProtocolInspectState \<Rightarrow> bytes \<Rightarrow> nat \<Rightarrow> nat \<Rightarrow> inspection" where
  "check_ldap_content self data header_len content_len =
     check_bind self (slice data header_len (header_len + content_len)) (\<lambda>content.
     case LdapMessageId_parse content of
       Ok v \<Rightarrow> if LdapMessageId_value v = 0 then give_up self else (self, Ok (Some P_Ldap))
     | Err _ \<Rightarrow> give_up self
     | Panic \<Rightarrow> (self, Panic))"

definition check_ldap_tcp_request_message ::
  "ProtocolInspectState \<Rightarrow> bytes \<Rightarrow> ProtocolInspectionSizeLimit \<Rightarrow> inspection" where
  "check_ldap_tcp_request_message self data size_limit =
     (let data_len = length data in
      if data_len < 5 then need_more self (5 - data_len)
      else
        check_bind self (index data 0) (\<lambda>d0.
        if d0 \<noteq> 0x30 then give_up self
        else
          let self = exclude_others self
                [MP_BitTorrent, MP_Http, MP_Mqtt, MP_Rtmp, MP_Rtsp, MP_Smpp, MP_Ssh, MP_Ssl, MP_Stomp]
          in
          check_bind self (slice_from data 1) (\<lambda>left.
          case LdapLength_parse left of
            Ok v \<Rightarrow>
              if ldap_request_msg size_limit < unat (LdapLength_value v) then give_up self
              else
                let header_len = LdapLength_encoded_len v + 1;
                    content_len = unat (LdapLength_value v)
                in
                if length data < header_len + content_len
                then need_more self (header_len + content_len - length data)
                else check_ldap_content self data header_len content_len
          | Err (LdapLength_NeedMoreData n) \<Rightarrow> need_more self n
          | Err _ \<Rightarrow> give_up self
          | Panic \<Rightarrow> (self, Panic))))"

definition check_mqtt_client_connect_request :: "ProtocolInspectState \<Rightarrow> bytes \<Rightarrow> inspection" where
  "check_mqtt_client_connect_request self data =
     (let data_len = length data in
      if data_len < 12 then need_more self (12 - data_len)
      else
        check_bind self (index data 0) (\<lambda>d0.
        if d0 \<noteq> 0x10 then give_up self
        else
          let self = exclude_others self
                [MP_Ssl, MP_Ssh, MP_Http, MP_Rtsp, MP_Stomp, MP_Smpp, MP_Rtmp, MP_BitTorrent, MP_Ldap]
          in
          check_bind self (index data 1) (\<lambda>d1.
          let remaining_len = unat d1 in
          if remaining_len + 2 < 12 then give_up self
          else
            check_bind self (slice data 2 8) (\<lambda>name.
            if name \<noteq> [0, 4] @ ascii ''MQTT'' then give_up self
            else
              check_bind self (index data 8) (\<lambda>protocol_level.
              if protocol_level = 4 \<or> protocol_level = 5 then (self, Ok (Some P_Mqtt))
              else give_up self)))))"

definition check_nats_server_info_msg ::
  "ProtocolInspectState \<Rightarrow> bytes \<Rightarrow> ProtocolInspectionSizeLimit \<Rightarrow> inspection" where
  "check_nats_server_info_msg self data size_limit =
     (let data_len = length data in
      if data_len < 10 then need_more self (10 - data_len)
      else
        check_bind self (index data 0) (\<lambda>d0.
        if d0 \<noteq> byte CHR ''I'' then give_up self
        else
          let self = exclude_others self
                [MP_Ftp, MP_Ssh, MP_Smtp, MP_Odmr, MP_Pop3, MP_Nntp, MP_Nnsp, MP_Imap, MP_BitTorrent]
          in
          if \<not> starts_with data (ascii ''INFO {'') then give_up self
          else
            check_bind self (index data (data_len - 1)) (\<lambda>e1.
            if e1 \<noteq> 0x0A then
              if nats_server_info_line size_limit < data_len then give_up self
              else need_more self 1
            else
              check_bind self (index data (data_len - 2)) (\<lambda>e2.
              if e2 \<noteq> 0x0D then give_up self
              else (self, Ok (Some P_Nats))))))"

definition check_nntp_server_greeting :: "ProtocolInspectState \<Rightarrow> bytes \<Rightarrow> inspection" where
  "check_nntp_server_greeting self data =
     (let data_len = length data in
      if data_len < 5 then need_more self (5 - data_len)
      else if 512 < data_len then give_up self
      else
        check_bind self (index data 0) (\<lambda>d0.
        if d0 \<noteq> byte CHR ''2'' then give_up self
        else
          let self = exclude_others self [MP_Ssh, MP_Nntp, MP_Nnsp, MP_Imap, MP_Nats, MP_BitTorrent] in
          check_bind self (index data 1) (\<lambda>d1.
          if d1 \<noteq> byte CHR ''0'' then give_up self
          else
            let self = exclude_others self [MP_Ftp, MP_Smtp, MP_Odmr] in
            check_bind self (index data 2) (\<lambda>d2.
            if \<not> (d2 = byte CHR ''0'' \<or> d2 = byte CHR ''1'') then give_up self
            else
              check_bind self (index data (data_len - 1)) (\<lambda>e1.
              if e1 \<noteq> 0x0A then need_more self 1
              else
                check_bind self (index data (data_len - 2)) (\<lambda>e2.
                if e2 \<noteq> 0x0D then give_up self
                else (self, Ok (Some P_Nntp))))))))"

definition check_pop3_server_greeting :: "ProtocolInspectState \<Rightarrow> bytes \<Rightarrow> inspection" where
  "check_pop3_server_greeting self data =
     (let data_len = length data in
      if data_len < 5 then need_more self (5 - data_len)
      else if 512 < data_len then give_up self
      else
        check_bind self (index data 0) (\<lambda>d0.
        if d0 \<noteq> byte CHR ''+'' then give_up self
        else
          let self = exclude_others self
                [MP_Ftp, MP_Ssh, MP_Smtp, MP_Odmr, MP_Nntp, MP_Nnsp, MP_Imap, MP_Nats, MP_BitTorrent]
          in
          check_bind self (slice data 1 3) (\<lambda>ok.
          if ok \<noteq> ascii ''OK'' then give_up self
          else
            check_bind self (index data (data_len - 1)) (\<lambda>e1.
            if e1 \<noteq> 0x0A then need_more self 1
            else
              check_bind self (index data (data_len - 2)) (\<lambda>e2.
              if e2 \<noteq> 0x0D then give_up self
              else (self, Ok (Some P_Pop3)))))))"

section \<open>RTMP, RTSP, SMPP and SMTP\<close>

definition check_rtmp_tcp_client_handshake :: "ProtocolInspectState \<Rightarrow> bytes \<Rightarrow> inspection" where
  "check_rtmp_tcp_client_handshake self data =
     (let data_len = length data; RTMP_HANDSHAKE_LEN = 1 + 1536 in
      if data_len < 9 then need_more self (RTMP_HANDSHAKE_LEN - data_len)
      else
        check_bind self (index data 0) (\<lambda>d0.
        if d0 \<noteq> 3 then give_up self
        else
          let self = exclude_others self
                [MP_Ssh, MP_Http, MP_Ssl, MP_Rtsp, MP_Mqtt, MP_Stomp, MP_Smpp, MP_BitTorrent, MP_Ldap]
          in
          check_bind self (slice data 5 9) (\<lambda>z.
          if z \<noteq> [0, 0, 0, 0] then give_up self
          else if data_len < RTMP_HANDSHAKE_LEN then need_more self (RTMP_HANDSHAKE_LEN - data_len)
          else (self, Ok (Some P_RtmpOverTcp)))))"

definition check_rtsp_client_setup_request :: "ProtocolInspectState \<Rightarrow> bytes \<Rightarrow> inspection" where
  "check_rtsp_client_setup_request self data =
     (let data_len = length data in
      if data_len < 25 then need_more self (25 - data_len)
      else
        check_bind self (index data 0) (\<lambda>d0.
        if d0 \<noteq> byte CHR ''S'' then give_up self
        else
          let self = exclude_others self [MP_Ssl, MP_Mqtt, MP_Smpp, MP_Rtmp, MP_BitTorrent, MP_Ldap] in
          if \<not> starts_with data (ascii ''SETUP rtsp://'') then give_up self
          else (exclude_others self [MP_Ssh, MP_Http, MP_Stomp], Ok (Some P_Rtsp))))"

text \<open>The smallest and the largest body of the bind and the outbind command.\<close>

definition smpp_body_range :: "u32 \<Rightarrow> (nat \<times> nat) option" where
  "smpp_body_range cmd_id =
     (if cmd_id = 2 \<or> cmd_id = 1 \<or> cmd_id = 9 then Some (7, 16 + 9 + 13 + 1 + 1 + 1 + 41)
      else if cmd_id = 0x0B then Some (2, 16 + 9)
      else None)"

definition check_smpp_session_request :: "ProtocolInspectState \<Rightarrow> bytes \<Rightarrow> inspection" where
  "check_smpp_session_request self data =
     (let data_len = length data in
      if data_len < 16 then need_more self (16 - data_len)
      else
        check_bind self (index data 0) (\<lambda>d0.
        if d0 \<noteq> 0 then give_up self
        else
          let self = exclude_others self
                [MP_Ssh, MP_Http, MP_Ssl, MP_Rtsp, MP_Mqtt, MP_Stomp, MP_Rtmp, MP_BitTorrent, MP_Ldap]
          in
          check_bind self (indices data [0..<4]) (\<lambda>l.
          let cmd_len = unat (from_be l :: u32) in
          if cmd_len < 16 then give_up self
          else
            check_bind self (indices data [4..<8]) (\<lambda>c.
            case smpp_body_range (from_be c) of
              None \<Rightarrow> give_up self
            | Some (min_body, max_body) \<Rightarrow>
                let body_len = cmd_len - 16 in
                if body_len < min_body \<or> max_body < body_len then give_up self
                else
                  check_bind self (indices data [8..<12]) (\<lambda>st.
                  if (from_be st :: u32) \<noteq> 0 then give_up self
                  else (self, Ok (Some P_Smpp)))))))"

definition smtp_exclude_by_byte0 :: "ProtocolInspectState \<Rightarrow> ProtocolInspectState" where
  "smtp_exclude_by_byte0 self = exclude_others self [MP_Ssh, MP_Pop3, MP_Imap, MP_Nats, MP_BitTorrent]"

definition check_smtp_after_code ::
  "(bytes \<Rightarrow> bytes option) \<Rightarrow> ProtocolInspectState \<Rightarrow> bytes \<Rightarrow> inspection" where
  "check_smtp_after_code idna self data =
     check_bind self (index data 3) (\<lambda>d3.
     if \<not> (d3 = byte CHR '' '' \<or> d3 = byte CHR ''-'') then give_up self
     else
       check_bind self (slice_from data 4) (\<lambda>left.
       case memchr 0x0A left of
         Some p \<Rightarrow>
           if p < 1 then give_up self
           else
             check_bind self (index left (p - 1)) (\<lambda>c.
             if c \<noteq> 0x0D then give_up self
             else
               let end_host = (case memchr (byte CHR '' '') left of Some q \<Rightarrow> q | None \<Rightarrow> p - 1) in
               check_bind self (slice_to left end_host) (\<lambda>h.
               check_bind self (Host_parse_smtp_host_address idna h) (\<lambda>host.
               if host \<noteq> None then (self, Ok (Some P_Smtp)) else (self, Ok None))))
       | None \<Rightarrow>
           if 512 < length left then give_up self
           else need_more self 1))"

definition check_smtp_server_greeting ::
  "(bytes \<Rightarrow> bytes option) \<Rightarrow> ProtocolInspectState \<Rightarrow> bytes \<Rightarrow> inspection" where
  "check_smtp_server_greeting idna self data =
     (let data_len = length data in
      if data_len < 7 then need_more self (7 - data_len)
      else
        check_bind self (index data 0) (\<lambda>d0.
        if d0 = byte CHR ''2'' then
          let self = smtp_exclude_by_byte0 self in
          check_bind self (index data 1) (\<lambda>d1.
          if d1 \<noteq> byte CHR ''2'' then give_up self
          else
            let self = exclude_others self [MP_Nntp, MP_Nnsp] in
            check_bind self (index data 2) (\<lambda>d2.
            if d2 = byte CHR ''0'' then check_smtp_after_code idna self data
            else give_up self))
        else if d0 = byte CHR ''5'' then
          let self = exclude_others (smtp_exclude_by_byte0 self) [MP_Ftp, MP_Nntp, MP_Nnsp] in
          check_bind self (slice data 0 3) (\<lambda>code.
          if code = ascii ''554'' then check_smtp_after_code idna self data
          else give_up self)
        else give_up self))"

section \<open>SSH\<close>

text \<open>
  The version of the identification string, and the offset of the dash behind it: the same code in
  the client and the server check.
\<close>

definition ssh_version :: "bytes \<Rightarrow> ((Protocol \<times> nat) option, ProtocolInspectError) res" where
  "ssh_version data =
     res_bind (slice data 4 6) (\<lambda>v.
     if v = ascii ''1.'' then
       res_bind (index data 6) (\<lambda>d6.
       if d6 = byte CHR ''9'' then
         res_bind (index data 7) (\<lambda>d7.
         Ok (Some (if d7 = byte CHR ''9'' then (P_Ssh, 8) else (P_SshLegacy, 7))))
       else if byte CHR ''0'' \<le> d6 \<and> d6 \<le> byte CHR ''8'' then Ok (Some (P_SshLegacy, 7))
       else Ok None)
     else if v = ascii ''2.'' then
       res_bind (index data 6) (\<lambda>d6.
       if d6 \<noteq> byte CHR ''0'' then Ok None else Ok (Some (P_Ssh, 7)))
     else Ok None)"

definition check_ssh_version_line :: "ProtocolInspectState \<Rightarrow> bytes \<Rightarrow> inspection" where
  "check_ssh_version_line self data =
     (let data_len = length data in
      check_bind self (ssh_version data) (\<lambda>r.
      case r of
        None \<Rightarrow> give_up self
      | Some (protocol, offset) \<Rightarrow>
          check_bind self (index data offset) (\<lambda>dash.
          if dash \<noteq> byte CHR ''-'' then give_up self
          else
            check_bind self (index data (data_len - 1)) (\<lambda>e1.
            if e1 \<noteq> 0x0A then
              if data_len < 255 then need_more self 1 else give_up self
            else
              check_bind self (index data 7) (\<lambda>d7.
              if d7 \<noteq> byte CHR ''9'' then
                check_bind self (index data (data_len - 2)) (\<lambda>e2.
                if e2 \<noteq> 0x0D then give_up self
                else (self, Ok (Some protocol)))
              else (self, Ok (Some protocol)))))))"

definition check_ssh_client_protocol_version_exchange :: "ProtocolInspectState \<Rightarrow> bytes \<Rightarrow> inspection" where
  "check_ssh_client_protocol_version_exchange self data =
     (let data_len = length data in
      if data_len < 11 then need_more self (11 - data_len)
      else
        check_bind self (index data 0) (\<lambda>d0.
        if d0 \<noteq> byte CHR ''S'' then give_up self
        else
          let self = exclude_others self [MP_Ssl, MP_Mqtt, MP_Stomp, MP_Smpp, MP_Rtmp, MP_BitTorrent, MP_Ldap] in
          check_bind self (slice data 1 4) (\<lambda>sh.
          if sh \<noteq> ascii ''SH-'' then give_up self
          else check_ssh_version_line (exclude_others self [MP_Http, MP_Rtsp]) data)))"

definition check_ssh_server_protocol_version_exchange :: "ProtocolInspectState \<Rightarrow> bytes \<Rightarrow> inspection" where
  "check_ssh_server_protocol_version_exchange self data =
     (let data_len = length data in
      if data_len < 11 then need_more self (11 - data_len)
      else
        check_bind self (slice data 0 4) (\<lambda>ssh.
        if ssh \<noteq> ascii ''SSH-'' then give_up self
        else check_ssh_version_line
          (exclude_others self [MP_Ftp, MP_Smtp, MP_Odmr, MP_Pop3, MP_Nntp, MP_Nnsp, MP_Imap, MP_Nats, MP_BitTorrent]) data))"

section \<open>TLS\<close>

definition check_legacy_version :: "u8 \<Rightarrow> u8 \<Rightarrow> Protocol option" where
  "check_legacy_version byte0 byte1 =
     (if byte0 = 1 \<and> byte1 = 1 then Some P_TlsTlcp
      else if byte0 = 2 \<and> byte1 = 0 \<or> byte0 = 3 \<and> byte1 = 0 then Some P_SslLegacy
      else if byte0 = 3 \<and> byte1 = 1 \<or> byte0 = 3 \<and> byte1 = 2 then Some P_TlsLegacy
      else if byte0 = 3 \<and> byte1 = 3 then Some P_TlsModern
      else None)"

definition check_fragment_len :: "u8 \<Rightarrow> u8 \<Rightarrow> nat option" where
  "check_fragment_len byte0 byte1 =
     (let ssl_payload_len = unat (from_be [byte0, byte1] :: u16) in
      if ssl_payload_len = 0 \<or> 16384 < ssl_payload_len then None else Some ssl_payload_len)"

definition check_ssl_client_hello_full_handshake_header ::
  "ProtocolInspectState \<Rightarrow> nat \<Rightarrow> bytes \<Rightarrow> inspection" where
  "check_ssl_client_hello_full_handshake_header self fragment_len buf =
     check_bind self (index buf 0) (\<lambda>b0.
     if b0 \<noteq> 1 then give_up self
     else
       check_bind self (indices buf [1..<4]) (\<lambda>l.
       let handshake_payload_len = unat (from_be (0 # l) :: u32) in
       if handshake_payload_len + 4 < fragment_len then give_up self
       else
         check_bind self (indices buf [4..<6]) (\<lambda>v.
         let byte0 = v ! 0; byte1 = v ! 1 in
         if byte0 = 1 \<and> byte1 = 1 then (self, Ok (Some P_TlsTlcp))
         else if byte0 = 2 \<and> byte1 = 0 \<or> byte0 = 3 \<and> byte1 = 0 then (self, Ok (Some P_SslLegacy))
         else if byte0 = 3 \<and> byte1 = 1 \<or> byte0 = 3 \<and> byte1 = 2 then (self, Ok (Some P_TlsLegacy))
         else if byte0 = 3 \<and> byte1 = 3 \<or> byte0 = 3 \<and> byte1 = 4 then (self, Ok (Some P_TlsModern))
         else give_up self)))"

text \<open>\<open>std::ptr::copy_nonoverlapping\<close> of \<open>n\<close> bytes to the start of a buffer.\<close>

definition copy_nonoverlapping :: "bytes \<Rightarrow> bytes \<Rightarrow> nat \<Rightarrow> (bytes, 'e) res" where
  "copy_nonoverlapping src dst n =
     (if n \<le> length src \<and> n \<le> length dst then Ok (take n src @ drop n dst) else Panic)"

text \<open>The second component of an answer is the buffer after the copy.\<close>

definition fill_ssl_client_hello_handshake_header ::
  "ProtocolInspectState \<Rightarrow> bytes \<Rightarrow> bytes \<Rightarrow> (nat \<times> bytes) option check" where
  "fill_ssl_client_hello_handshake_header self data hdr_buf =
     (let data_len = length data in
      if data_len < 5 then need_more self (5 - data_len)
      else
        check_bind self (index data 0) (\<lambda>d0.
        if d0 \<noteq> ContentType_as_u8 Handshake then give_up self
        else
          check_bind self (indices data [1..<3]) (\<lambda>v.
          if check_legacy_version (v ! 0) (v ! 1) = None then give_up self
          else
            check_bind self (indices data [3..<5]) (\<lambda>l.
            case check_fragment_len (l ! 0) (l ! 1) of
              None \<Rightarrow> give_up self
            | Some fragment_len \<Rightarrow>
                let copy_size = min fragment_len (length hdr_buf) in
                if data_len < 5 + copy_size then need_more self (5 + copy_size - data_len)
                else
                  check_bind self (slice_from data 5) (\<lambda>left.
                  check_bind self (copy_nonoverlapping left hdr_buf copy_size) (\<lambda>hdr_buf.
                  (self, Ok (Some (copy_size, hdr_buf)))))))))"

lemma fill_ssl_client_hello_copied:
  assumes "fill_ssl_client_hello_handshake_header self data hdr_buf = (self', Ok (Some (nw, hdr_buf')))"
  shows "length hdr_buf' = length hdr_buf \<and> nw \<le> length hdr_buf \<and> (hdr_buf \<noteq> [] \<longrightarrow> 0 < nw)"
  using assms
  by (auto simp: fill_ssl_client_hello_handshake_header_def need_more_def give_up_def check_bind_def
      copy_nonoverlapping_def check_fragment_len_def Let_def split: if_splits res.splits option.splits)

function ssl_client_hello_loop ::
  "ProtocolInspectState \<Rightarrow> bytes \<Rightarrow> nat \<Rightarrow> nat \<Rightarrow> nat \<Rightarrow> bytes \<Rightarrow> inspection" where
  "ssl_client_hello_loop self data fragment_len offset msg_hdr_nw msg_hdr =
     check_bind self (slice_from data offset) (\<lambda>left.
     if left = [] then need_more self (5 + 4 + 2 - msg_hdr_nw)
     else
       check_bind self (slice_from msg_hdr msg_hdr_nw) (\<lambda>hdr_buf.
       case fill_ssl_client_hello_handshake_header self left hdr_buf of
         (self, Err e) \<Rightarrow> (self, Err e)
       | (self, Panic) \<Rightarrow> (self, Panic)
       | (self, Ok None) \<Rightarrow> (self, Ok None)
       | (self, Ok (Some (nw, hdr_buf))) \<Rightarrow>
           let msg_hdr = take msg_hdr_nw msg_hdr @ hdr_buf;
               msg_hdr_nw = msg_hdr_nw + nw
           in
           if length msg_hdr \<le> msg_hdr_nw
           then check_ssl_client_hello_full_handshake_header self fragment_len msg_hdr
           else ssl_client_hello_loop self data fragment_len (offset + (5 + nw)) msg_hdr_nw msg_hdr))"
  by pat_completeness auto

termination
  by (relation "measure (\<lambda>(self, data, fragment_len, offset, msg_hdr_nw, msg_hdr). length msg_hdr - msg_hdr_nw)")
     (auto simp: slice_from_eq_Ok dest!: fill_ssl_client_hello_copied [OF sym])

definition check_ssl_client_hello :: "ProtocolInspectState \<Rightarrow> bytes \<Rightarrow> inspection" where
  "check_ssl_client_hello self data =
     (let data_len = length data in
      if data_len < 5 then need_more self (5 - data_len)
      else
        check_bind self (index data 0) (\<lambda>d0.
        if d0 \<noteq> ContentType_as_u8 Handshake then give_up self
        else
          let self = exclude_others self
                [MP_Ssh, MP_Http, MP_Rtsp, MP_Mqtt, MP_Stomp, MP_Smpp, MP_Rtmp, MP_BitTorrent, MP_Ldap]
          in
          check_bind self (indices data [1..<3]) (\<lambda>v.
          if check_legacy_version (v ! 0) (v ! 1) = None then give_up self
          else
            check_bind self (indices data [3..<5]) (\<lambda>l.
            case check_fragment_len (l ! 0) (l ! 1) of
              None \<Rightarrow> give_up self
            | Some fragment_len \<Rightarrow>
                if data_len < 5 + 4 + 2 then need_more self (5 + 4 + 2 - data_len)
                else if 4 + 2 \<le> fragment_len then
                  check_bind self (slice_from data 5) (\<lambda>left.
                  check_ssl_client_hello_full_handshake_header self fragment_len left)
                else
                  let offset = 5 in
                  check_bind self (slice_from data offset) (\<lambda>left.
                  check_bind self (copy_nonoverlapping left (replicate (4 + 2) 0) fragment_len) (\<lambda>msg_hdr.
                  ssl_client_hello_loop self data fragment_len (offset + fragment_len) fragment_len msg_hdr))))))"

section \<open>STOMP\<close>

definition check_stomp_connect_method :: "ProtocolInspectState \<Rightarrow> bytes \<Rightarrow> inspection" where
  "check_stomp_connect_method self data =
     (let self = exclude_others self [MP_Ssl, MP_Ssh, MP_Rtsp, MP_Mqtt, MP_Smpp, MP_Rtmp, MP_BitTorrent, MP_Ldap];
          finish = (\<lambda>self offset.
            let data_len = length data in
            if data_len < offset + 2 then need_more self (offset + 2 - data_len)
            else (self, Ok (Some P_Stomp)))
      in
      check_bind self (slice data 1 7) (\<lambda>m.
      if m \<noteq> ascii ''ONNECT'' then give_up self
      else
        check_bind self (index data 7) (\<lambda>d7.
        if d7 = 0x0D then
          let self = exclude_other self MP_Http in
          check_bind self (index data 8) (\<lambda>d8.
          if d8 \<noteq> 0x0A then give_up self else finish self 9)
        else if d7 = 0x0A then finish (exclude_other self MP_Http) 8
        else give_up self)))"

definition check_stomp_stomp_method :: "ProtocolInspectState \<Rightarrow> bytes \<Rightarrow> inspection" where
  "check_stomp_stomp_method self data =
     (let self = exclude_others self [MP_Ssl, MP_Ssh, MP_Mqtt, MP_Smpp, MP_Rtmp, MP_BitTorrent, MP_Ldap];
          finish = (\<lambda>self offset.
            let data_len = length data in
            if data_len < offset + 26 then need_more self (offset + 26 - data_len)
            else (self, Ok (Some P_Stomp)))
      in
      check_bind self (slice data 1 5) (\<lambda>m.
      if m \<noteq> ascii ''TOMP'' then give_up self
      else
        let self = exclude_others self [MP_Http, MP_Rtsp] in
        check_bind self (index data 5) (\<lambda>d5.
        if d5 = 0x0D then
          check_bind self (index data 6) (\<lambda>d6.
          if d6 \<noteq> 0x0A then give_up self else finish self 7)
        else if d5 = 0x0A then finish self 6
        else give_up self)))"

definition check_stomp_client_connect_request :: "ProtocolInspectState \<Rightarrow> bytes \<Rightarrow> inspection" where
  "check_stomp_client_connect_request self data =
     (let data_len = length data in
      if data_len < 10 then need_more self (10 - data_len)
      else
        check_bind self (index data 0) (\<lambda>d0.
        if d0 = byte CHR ''C'' then check_stomp_connect_method self data
        else if d0 = byte CHR ''S'' then check_stomp_stomp_method self data
        else give_up self))"

section \<open>A calculus for checks\<close>

text \<open>
  \<open>check_ensures c Q\<close>: the check does not panic, and \<open>Q\<close> holds of the state it leaves and of its
  answer. The rules compute it over the body of a check.
\<close>

definition check_ensures ::
  "'a check \<Rightarrow> (ProtocolInspectState \<Rightarrow> ('a, ProtocolInspectError) res \<Rightarrow> bool) \<Rightarrow> bool" where
  "check_ensures c Q \<longleftrightarrow> snd c \<noteq> Panic \<and> Q (fst c) (snd c)"

named_theorems check_rules \<open>rules that compute what a check ensures\<close>

lemma check_answer [check_rules]:
  "Q s (Ok a) \<Longrightarrow> check_ensures (s, Ok a) Q" "Q s (Err e) \<Longrightarrow> check_ensures (s, Err e) Q"
  "Q s (Err (NeedMoreData n)) \<Longrightarrow> check_ensures (need_more s n) Q"
  by (simp_all add: check_ensures_def need_more_def)

lemma check_give_up [check_rules]:
  "Q (exclude_current s) (Ok None) \<Longrightarrow> check_ensures (give_up s) Q"
  by (simp add: check_ensures_def give_up_def)

lemma check_if [check_rules]:
  "(b \<Longrightarrow> check_ensures c Q) \<Longrightarrow> (\<not> b \<Longrightarrow> check_ensures c' Q) \<Longrightarrow> check_ensures (if b then c else c') Q"
  by simp

lemma check_option [check_rules]:
  "(m = None \<Longrightarrow> check_ensures c Q) \<Longrightarrow> (\<And>x. m = Some x \<Longrightarrow> check_ensures (k x) Q)
    \<Longrightarrow> check_ensures (case m of None \<Rightarrow> c | Some x \<Rightarrow> k x) Q"
  by (cases m) auto

lemma check_ensures_bind:
  "check_ensures (check_bind s m k) Q \<longleftrightarrow>
     ensures m (\<lambda>x. check_ensures (k x) Q) \<and> (\<forall>e. m = Err e \<longrightarrow> Q s (Err e))"
  by (cases m) (auto simp: check_ensures_def)

lemma check_index [check_rules]:
  "i < length xs \<Longrightarrow> check_ensures (k (xs ! i)) Q \<Longrightarrow> check_ensures (check_bind s (index xs i) k) Q"
  by (simp add: check_ensures_bind)

lemma check_slices [check_rules]:
  "i \<le> length xs \<Longrightarrow> check_ensures (k (drop i xs)) Q \<Longrightarrow> check_ensures (check_bind s (slice_from xs i) k) Q"
  "i \<le> j \<Longrightarrow> j \<le> length xs \<Longrightarrow> check_ensures (k (take (j - i) (drop i xs))) Q
     \<Longrightarrow> check_ensures (check_bind s (slice xs i j) k) Q"
  "j \<le> length xs \<Longrightarrow> check_ensures (k (take j xs)) Q \<Longrightarrow> check_ensures (check_bind s (slice_to xs j) k) Q"
  by (simp_all add: check_ensures_bind)

lemma check_indices [check_rules]:
  "j \<le> length xs \<Longrightarrow> check_ensures (k (take (j - i) (drop i xs))) Q
     \<Longrightarrow> check_ensures (check_bind s (indices xs [i..<j]) k) Q"
  by (simp add: check_ensures_bind)

lemma check_ensures_mono:
  "check_ensures c P \<Longrightarrow> (\<And>s r. P s r \<Longrightarrow> Q s r) \<Longrightarrow> check_ensures c Q"
  by (simp add: check_ensures_def)

lemma exclude_others_sel [simp]:
  "PIS_excluded (exclude_others s ps) = set ps \<union> PIS_excluded s"
  "PIS_current (exclude_others s ps) = PIS_current s"
proof (induction ps arbitrary: s)
  case (Cons p ps)
  { case 1 with Cons show ?case by (auto simp: exclude_others_def exclude_other_def) }
  { case 2 with Cons show ?case by (auto simp: exclude_others_def exclude_other_def) }
qed (simp_all add: exclude_others_def)

lemma exclude_other_sel [simp]:
  "PIS_excluded (exclude_other s p) = insert p (PIS_excluded s)"
  "PIS_current (exclude_other s p) = PIS_current s"
  by (simp_all add: exclude_other_def)

lemma exclude_current_sel [simp]:
  "PIS_excluded (exclude_current s) = set_option (PIS_current s) \<union> PIS_excluded s"
  "PIS_current (exclude_current s) = None"
  by (auto simp: exclude_current_def split: option.splits)

text \<open>
  What every check promises: it only ever excludes protocols, it keeps or gives up the current one,
  and it asks for at least one byte.
  \<open>late\<close> says that there are so many bytes that a check must not ask for more.
\<close>

definition grows :: "ProtocolInspectState \<Rightarrow> ProtocolInspectState \<Rightarrow> bool" where
  "grows s0 s \<longleftrightarrow>
     PIS_excluded s0 \<subseteq> PIS_excluded s \<and> (PIS_current s = None \<or> PIS_current s = PIS_current s0)"

lemma grows_simps [simp]:
  "grows s s"
  "grows s0 s \<Longrightarrow> grows s0 (exclude_other s p)"
  "grows s0 s \<Longrightarrow> grows s0 (exclude_others s ps)"
  "grows s0 s \<Longrightarrow> grows s0 (exclude_current s)"
  by (auto simp: grows_def)

definition check_step ::
  "ProtocolInspectState \<Rightarrow> bool \<Rightarrow> ProtocolInspectState \<Rightarrow> ('a, ProtocolInspectError) res \<Rightarrow> bool" where
  "check_step s0 late s r \<longleftrightarrow>
     grows s0 s \<and> (\<forall>n. r = Err (NeedMoreData n) \<longrightarrow> 0 < n \<and> \<not> late)"

lemma check_step_simps [simp]:
  "check_step s0 late s (Ok a) = grows s0 s"
  "check_step s0 late s (Err (NeedMoreData n)) = (grows s0 s \<and> 0 < n \<and> \<not> late)"
  by (simp_all add: check_step_def)

lemma bittorrent_step [check_rules]:
  "grows s0 self \<Longrightarrow>
    check_ensures (check_bittorrent_tcp_handshake self data) (check_step s0 (68 \<le> length data))"
  unfolding check_bittorrent_tcp_handshake_def Let_def by (intro check_rules; auto)

lemma dns_header [check_rules]:
  "12 \<le> length hdr \<Longrightarrow> (\<And>b. check_ensures (k b) Q)
    \<Longrightarrow> check_ensures (check_bind s (check_dns_request_message_header hdr) k) Q"
  by (simp add: check_ensures_bind check_dns_request_message_header_def res_simps)

lemma dns_step [check_rules]:
  "grows s0 self \<Longrightarrow>
    check_ensures (check_dns_tcp_request_message self data) (check_step s0 (14 \<le> length data))"
  unfolding check_dns_tcp_request_message_def Let_def by (intro check_rules; auto)

lemma ftp_after_code_step [check_rules]:
  "grows s0 self \<Longrightarrow> 6 \<le> length data \<Longrightarrow>
    check_ensures (check_ftp_after_code self data limit)
      (check_step s0 (ftp_server_greeting_msg limit + 6 \<le> length data))"
  unfolding check_ftp_after_code_def by (intro check_rules; auto)

lemma ftp_step [check_rules]:
  "grows s0 self \<Longrightarrow>
    check_ensures (check_ftp_server_greeting self data limit)
      (check_step s0 (ftp_server_greeting_msg limit + 6 \<le> length data))"
  unfolding check_ftp_server_greeting_def ftp_exclude_by_byte0_def Let_def by (intro check_rules; auto)

text \<open>An HTTP request line may be of any length, so no number of bytes alone makes the HTTP check late.\<close>

lemma http1_after_url_step [check_rules]:
  "grows s0 self \<Longrightarrow> check_ensures (check_http1_after_url self data offset) (check_step s0 False)"
  unfolding check_http1_after_url_def Let_def by (intro check_rules; auto)

lemma http1_after_method_step [check_rules]:
  "grows s0 self \<Longrightarrow> check_ensures (check_http1_after_method self data offset limit) (check_step s0 False)"
  unfolding check_http1_after_method_def Let_def by (intro check_rules; auto)

lemma http2_step [check_rules]:
  "grows s0 self \<Longrightarrow> check_ensures (check_http2_connection_preface self data) (check_step s0 False)"
  unfolding check_http2_connection_preface_def Let_def by (intro check_rules; auto)

lemma check_methods_step:
  "grows s0 self \<Longrightarrow> check_methods self data limit ms = Some r \<Longrightarrow> check_ensures r (check_step s0 False)"
  by (induction ms) (auto split: if_splits intro: check_rules)

lemma or_give_up_step [check_rules]:
  "grows s0 self \<Longrightarrow> grows s0 self' \<Longrightarrow>
    check_ensures (or_give_up self (check_methods self' data limit ms)) (check_step s0 False)"
  unfolding or_give_up_def by (intro check_rules) (auto dest: check_methods_step)

lemma check_methods_case [check_rules]:
  "grows s0 self' \<Longrightarrow> check_ensures c (check_step s0 False) \<Longrightarrow>
    check_ensures (case check_methods self' data limit ms of None \<Rightarrow> c | Some r \<Rightarrow> r) (check_step s0 False)"
  by (auto split: option.split dest: check_methods_step)

lemma http_step [check_rules]:
  "grows s0 self \<Longrightarrow> check_ensures (check_http_request self data limit) (check_step s0 False)"
  unfolding check_http_request_def Let_def http_exclude_all_def http_exclude_by_byte0_def http_exclude_by_byte0_s_def
  by (intro check_rules; auto)

lemma imap_tail_step [check_rules]:
  "grows s0 self \<Longrightarrow> 6 \<le> length data \<Longrightarrow>
    check_ensures (check_imap_tail self data limit)
      (check_step s0 (imap_server_greeting_msg limit + 11 \<le> length data))"
  unfolding check_imap_tail_def Let_def by (intro check_rules; auto)

lemma imap_step [check_rules]:
  "grows s0 self \<Longrightarrow>
    check_ensures (check_imap_server_greeting self data limit)
      (check_step s0 (imap_server_greeting_msg limit + 11 \<le> length data))"
  unfolding check_imap_server_greeting_def Let_def by (intro check_rules; auto)

lemma mqtt_step [check_rules]:
  "grows s0 self \<Longrightarrow>
    check_ensures (check_mqtt_client_connect_request self data) (check_step s0 (12 \<le> length data))"
  unfolding check_mqtt_client_connect_request_def Let_def by (intro check_rules; auto)

lemma nats_step [check_rules]:
  "grows s0 self \<Longrightarrow>
    check_ensures (check_nats_server_info_msg self data limit)
      (check_step s0 (nats_server_info_line limit + 10 \<le> length data))"
  unfolding check_nats_server_info_msg_def Let_def by (intro check_rules; auto)

lemma nntp_step [check_rules]:
  "grows s0 self \<Longrightarrow>
    check_ensures (check_nntp_server_greeting self data) (check_step s0 (513 \<le> length data))"
  unfolding check_nntp_server_greeting_def Let_def by (intro check_rules; auto)

lemma pop3_step [check_rules]:
  "grows s0 self \<Longrightarrow>
    check_ensures (check_pop3_server_greeting self data) (check_step s0 (513 \<le> length data))"
  unfolding check_pop3_server_greeting_def Let_def by (intro check_rules; auto)

lemma rtmp_step [check_rules]:
  "grows s0 self \<Longrightarrow>
    check_ensures (check_rtmp_tcp_client_handshake self data) (check_step s0 (1537 \<le> length data))"
  unfolding check_rtmp_tcp_client_handshake_def Let_def by (intro check_rules; auto)

lemma rtsp_step [check_rules]:
  "grows s0 self \<Longrightarrow>
    check_ensures (check_rtsp_client_setup_request self data) (check_step s0 (25 \<le> length data))"
  unfolding check_rtsp_client_setup_request_def Let_def by (intro check_rules; auto)

lemma check_prod [check_rules]:
  "(\<And>a b. p = (a, b) \<Longrightarrow> check_ensures (k a b) Q) \<Longrightarrow> check_ensures (case p of (a, b) \<Rightarrow> k a b) Q"
  by (cases p) auto

lemma smpp_step [check_rules]:
  "grows s0 self \<Longrightarrow>
    check_ensures (check_smpp_session_request self data) (check_step s0 (16 \<le> length data))"
  unfolding check_smpp_session_request_def Let_def by (intro check_rules; auto)

lemma Host_parse_smtp_neq_Err: "Host_parse_smtp_host_address idna buf \<noteq> Err e"
  by (auto simp: Host_parse_smtp_host_address_def Let_def res_bind_eq_Err split: option.split)

lemma check_host [check_rules]:
  "(\<And>h. check_ensures (k h) Q) \<Longrightarrow> check_ensures (check_bind s (Host_parse_smtp_host_address idna buf) k) Q"
  by (auto simp: check_ensures_bind Host_parse_smtp_neq_Err intro!: ensures_rules)

lemma smtp_after_code_step [check_rules]:
  "grows s0 self \<Longrightarrow> 7 \<le> length data \<Longrightarrow>
    check_ensures (check_smtp_after_code idna self data) (check_step s0 (517 \<le> length data))"
  unfolding check_smtp_after_code_def Let_def
  by (intro check_rules; auto dest!: memchr_Some split: option.split)

lemma smtp_step [check_rules]:
  "grows s0 self \<Longrightarrow>
    check_ensures (check_smtp_server_greeting idna self data) (check_step s0 (517 \<le> length data))"
  unfolding check_smtp_server_greeting_def smtp_exclude_by_byte0_def Let_def by (intro check_rules; auto)

lemma ssh_version_ensures [check_rules]:
  assumes "11 \<le> length data" and k: "\<And>r. (\<And>p off. r = Some (p, off) \<Longrightarrow> off \<le> 8) \<Longrightarrow> check_ensures (k r) Q"
  shows "check_ensures (check_bind s (ssh_version data) k) Q"
proof -
  have "ensures (ssh_version data) (\<lambda>r. \<forall>p off. r = Some (p, off) \<longrightarrow> off \<le> 8)"
    using assms(1) by (simp add: ssh_version_def)
  then have "ensures (ssh_version data) (\<lambda>r. check_ensures (k r) Q)"
    by (rule ensures_mono) (rule k, blast)
  moreover have "ssh_version data \<noteq> Err e" for e
    by (auto simp: ssh_version_def res_bind_eq_Err)
  ultimately show ?thesis
    by (simp add: check_ensures_bind)
qed

lemma ssh_version_line_step [check_rules]:
  "grows s0 self \<Longrightarrow> 11 \<le> length data \<Longrightarrow>
    check_ensures (check_ssh_version_line self data) (check_step s0 (255 \<le> length data))"
  unfolding check_ssh_version_line_def Let_def by (intro check_rules; fastforce)

lemma ssh_client_step [check_rules]:
  "grows s0 self \<Longrightarrow>
    check_ensures (check_ssh_client_protocol_version_exchange self data) (check_step s0 (255 \<le> length data))"
  unfolding check_ssh_client_protocol_version_exchange_def Let_def by (intro check_rules; auto)

lemma ssh_server_step [check_rules]:
  "grows s0 self \<Longrightarrow>
    check_ensures (check_ssh_server_protocol_version_exchange self data) (check_step s0 (255 \<le> length data))"
  unfolding check_ssh_server_protocol_version_exchange_def Let_def by (intro check_rules; auto)

lemma stomp_connect_step [check_rules]:
  "grows s0 self \<Longrightarrow> 10 \<le> length data \<Longrightarrow>
    check_ensures (check_stomp_connect_method self data) (check_step s0 (33 \<le> length data))"
  unfolding check_stomp_connect_method_def Let_def by (intro check_rules; auto)

lemma stomp_stomp_step [check_rules]:
  "grows s0 self \<Longrightarrow> 10 \<le> length data \<Longrightarrow>
    check_ensures (check_stomp_stomp_method self data) (check_step s0 (33 \<le> length data))"
  unfolding check_stomp_stomp_method_def Let_def by (intro check_rules; auto)

lemma stomp_step [check_rules]:
  "grows s0 self \<Longrightarrow>
    check_ensures (check_stomp_client_connect_request self data) (check_step s0 (33 \<le> length data))"
  unfolding check_stomp_client_connect_request_def Let_def by (intro check_rules; auto)


lemma check_copy [check_rules]:
  "n \<le> length src \<Longrightarrow> n \<le> length dst \<Longrightarrow> check_ensures (k (take n src @ drop n dst)) Q
    \<Longrightarrow> check_ensures (check_bind s (copy_nonoverlapping src dst n) k) Q"
  by (simp add: check_ensures_bind copy_nonoverlapping_def)

lemma check_step_late: "check_step s0 late s r \<Longrightarrow> (late' \<Longrightarrow> late) \<Longrightarrow> check_step s0 late' s r"
  by (auto simp: check_step_def)

lemma ssl_full_header_step [check_rules]:
  "grows s0 self \<Longrightarrow> 6 \<le> length buf \<Longrightarrow>
    check_ensures (check_ssl_client_hello_full_handshake_header self fragment_len buf) (check_step s0 late)"
  unfolding check_ssl_client_hello_full_handshake_header_def Let_def by (intro check_rules; auto)

lemma fragment_len_range: "check_fragment_len b0 b1 = Some n \<Longrightarrow> 0 < n \<and> n \<le> 16384"
  by (auto simp: check_fragment_len_def Let_def split: if_splits)

lemma ssl_fill_step:
  "grows s0 self \<Longrightarrow>
    check_ensures (fill_ssl_client_hello_handshake_header self data hdr_buf)
      (\<lambda>s r. check_step s0 (5 + length hdr_buf \<le> length data) s r
         \<and> (\<forall>nw buf. r = Ok (Some (nw, buf)) \<longrightarrow> length buf = length hdr_buf \<and> nw \<le> length hdr_buf
              \<and> 5 + nw \<le> length data \<and> (hdr_buf \<noteq> [] \<longrightarrow> 0 < nw)))"
  unfolding fill_ssl_client_hello_handshake_header_def Let_def
  by (intro check_rules; auto dest: fragment_len_range)

declare ssl_client_hello_loop.simps [simp del]

lemma ssl_loop_step:
  assumes "grows s0 self" and "offset \<le> length data" and "nw < 6" and "length hdr = 6"
    and "late \<Longrightarrow> offset + 6 * (6 - nw) \<le> length data"
  shows "check_ensures (ssl_client_hello_loop self data fragment_len offset nw hdr) (check_step s0 late)"
  using assms
proof (induction self data fragment_len offset nw hdr rule: ssl_client_hello_loop.induct)
  case (1 self data fragment_len offset nw hdr)
  let ?left = "drop offset data" and ?buf = "drop nw hdr"
  let ?fill = "fill_ssl_client_hello_handshake_header self ?left ?buf"
  have l: "slice_from data offset = (Ok ?left :: (bytes, ProtocolInspectError) res)"
      "slice_from hdr nw = (Ok ?buf :: (bytes, ProtocolInspectError) res)"
    using 1 by simp_all
  show ?case
  proof (cases "?left = []")
    case True
    then show ?thesis
      using 1 by (subst ssl_client_hello_loop.simps) (auto simp: l intro!: check_rules)
  next
    case False
    have f: "check_ensures ?fill
      (\<lambda>s r. check_step s0 (5 + length ?buf \<le> length ?left) s r
         \<and> (\<forall>n buf. r = Ok (Some (n, buf)) \<longrightarrow> length buf = length ?buf \<and> n \<le> length ?buf
              \<and> 5 + n \<le> length ?left \<and> (?buf \<noteq> [] \<longrightarrow> 0 < n)))"
      by (rule ssl_fill_step) (rule "1.prems")
    obtain s r where sr: "?fill = (s, r)"
      by fastforce
    have late: "late \<Longrightarrow> 5 + length ?buf \<le> length ?left"
      using 1 by force
    show ?thesis
    proof (cases r)
      case (Ok m)
      show ?thesis
      proof (cases m)
        case None
        then show ?thesis
          using f sr Ok False l by (subst ssl_client_hello_loop.simps) (simp add: check_ensures_def)
      next
        case (Some nb)
        obtain n buf where nb: "nb = (n, buf)"
          by fastforce
        let ?hdr = "take nw hdr @ buf"
        have g: "grows s0 s" "length buf = 6 - nw" "n \<le> 6 - nw" "5 + n \<le> length data - offset" "0 < n"
          using f "1.prems"(3,4) unfolding sr Ok Some nb by (auto simp: check_ensures_def)
        have len: "length ?hdr = 6"
          using g 1 by simp
        have go: "ssl_client_hello_loop self data fragment_len offset nw hdr =
            (if 6 \<le> nw + n then check_ssl_client_hello_full_handshake_header s fragment_len ?hdr
             else ssl_client_hello_loop s data fragment_len (offset + (5 + n)) (nw + n) ?hdr)"
          using len False by (subst ssl_client_hello_loop.simps) (simp add: l sr Ok Some nb Let_def)
        show ?thesis
        proof (cases "6 \<le> nw + n")
          case True
          then show ?thesis
            using go g len by (auto intro!: check_rules)
        next
          case False
          have "check_ensures (ssl_client_hello_loop s data fragment_len (offset + (5 + n)) (nw + n) ?hdr)
              (check_step s0 late)"
            using g len False "1.prems"
            by (intro "1.IH" [OF l(1) \<open>?left \<noteq> []\<close> l(2) sr [symmetric] Ok Some nb [symmetric] refl refl]) auto
          with go False show ?thesis by simp
        qed
      qed
    next
      case (Err e)
      then show ?thesis
        using f sr False l late
        by (subst ssl_client_hello_loop.simps) (auto simp: check_ensures_def check_step_def)
    next
      case Panic
      then show ?thesis
        using f sr by (simp add: check_ensures_def)
    qed
  qed
qed

lemma ssl_step [check_rules]:
  "grows s0 self \<Longrightarrow>
    check_ensures (check_ssl_client_hello self data) (check_step s0 (36 \<le> length data))"
  unfolding check_ssl_client_hello_def Let_def
  by (intro check_rules ssl_loop_step; auto dest: fragment_len_range)

lemma LdapLength_parse_short:
  "LdapLength_parse h = Err (LdapLength_NeedMoreData n) \<Longrightarrow> 0 < n \<and> length h < 9"
  by (auto simp: LdapLength_parse_def BerLength_parse_eq ber_length_reference_def Let_def res_simps
      split: list.splits if_splits elim!: LdapLengthParseError_from.elims)

lemma LdapLength_parse_size:
  "LdapLength_parse h = Ok l \<Longrightarrow> LdapLength_encoded_len l \<le> length h \<and> LdapLength_encoded_len l \<le> 9"
  by (auto simp: LdapLength_parse_def BerLength_parse_eq ber_length_reference_def Let_def res_simps
      split: list.splits if_splits)

lemma LdapLength_parse_no_panic: "LdapLength_parse h \<noteq> Panic"
  using LdapLength_parse_ensures [of h "\<lambda>_. True"] by auto

lemma ldap_step [check_rules]:
  assumes "grows s0 self" and np: "LdapMessage_parse data (ldap_request_msg limit) \<noteq> Panic"
  shows "check_ensures (check_ldap_tcp_request_message self data limit)
    (check_step s0 (ldap_request_msg limit + 10 \<le> length data))"
proof (cases data)
  case Nil
  with assms show ?thesis
    by (simp add: check_ldap_tcp_request_message_def check_rules)
next
  case (Cons d0 h)
  show ?thesis
  proof (cases "LdapLength_parse h")
    case (Ok l)
    have id: "d0 = 0x30 \<Longrightarrow> unat (LdapLength_value l) \<le> ldap_request_msg limit \<Longrightarrow>
        LdapLength_encoded_len l + unat (LdapLength_value l) \<le> length h \<Longrightarrow>
        LdapMessageId_parse (take (unat (LdapLength_value l)) (drop (LdapLength_encoded_len l) h)) \<noteq> Panic"
      using np Ok by (auto simp: LdapMessage_parse_panic_iff LdapMessageId_parse_panic Cons)
    show ?thesis
      unfolding check_ldap_tcp_request_message_def check_ldap_content_def Let_def Cons
      using assms(1) id LdapLength_parse_size [OF Ok]
      by (auto simp: Ok split: res.split intro!: check_rules)
  next
    case (Err e)
    show ?thesis
      unfolding check_ldap_tcp_request_message_def Let_def Cons
      using assms(1) LdapLength_parse_short [of h] Err
      by (cases e) (auto intro!: check_rules)
  qed (simp add: LdapLength_parse_no_panic)
qed

lemma ldap_panic_iff:
  "snd (check_ldap_tcp_request_message self data limit) = Panic \<longleftrightarrow>
     5 \<le> length data \<and> LdapMessage_parse data (ldap_request_msg limit) = Panic"
proof (cases "LdapMessage_parse data (ldap_request_msg limit) = Panic")
  case True
  then obtain h l where h: "data = 0x30 # h" "LdapLength_parse h = Ok l"
      "unat (LdapLength_value l) \<le> ldap_request_msg limit"
      "LdapLength_encoded_len l + unat (LdapLength_value l) \<le> length h"
      "LdapMessageId_parse (take (unat (LdapLength_value l)) (drop (LdapLength_encoded_len l) h)) = Panic"
    by (auto simp: LdapMessage_parse_panic_iff LdapMessageId_parse_panic)
  with True show ?thesis
    by (auto simp: check_ldap_tcp_request_message_def check_ldap_content_def Let_def need_more_def)
next
  case False
  then show ?thesis
    using ldap_step [of self self data limit] by (auto simp: check_ensures_def)
qed

section \<open>How long an HTTP check can ask for more\<close>

definition HTTP_METHODS :: "string list" where
  "HTTP_METHODS =
     [''ACL '', ''BIND '', ''BASELINE-CONTROL '', ''CONNECT '', ''COPY '', ''CHECKIN '', ''CHECKOUT '',
      ''DELETE '', ''GET '', ''HEAD '', ''LOCK '', ''LINK '', ''LABEL '', ''MOVE '', ''MKCOL '', ''MERGE '',
      ''MKACTIVITY '', ''MKCALENDAR '', ''MKREDIRECTREF '', ''MKWORKSPACE '', ''OPTIONS '', ''ORDERPATCH '',
      ''POST '', ''PUT '', ''PROPFIND '', ''PROPPATCH '', ''PATCH '', ''REPORT '', ''REBIND '', ''SEARCH '',
      ''SOURCE '', ''TRACE '', ''UNLOCK '', ''UNBIND '', ''UNCHECKOUT '', ''UNLINK '', ''UPDATE '',
      ''UNDATEREDIRECTREF '', ''VERSION-CONTROL '']"

text \<open>Every method ends at its only space.\<close>

lemma http_method_space:
  "m \<in> set HTTP_METHODS \<Longrightarrow> memchr (byte CHR '' '') (ascii m) = Some (length m - 1) \<and> 0 < length m \<and> length m \<le> 18"
  by (simp add: HTTP_METHODS_def ascii_def) (elim disjE; simp)

lemma http_method_length:
  assumes "m \<in> set HTTP_METHODS" and "starts_with data (ascii m)"
  shows "memchr (byte CHR '' '') data = Some (length m - 1)"
proof -
  have "data = ascii m @ drop (length m) data"
    using assms(2) by (metis append_take_drop_id length_ascii starts_with_def)
  then show ?thesis
    using memchr_append [of "byte CHR '' ''" "ascii m" "drop (length m) data"] http_method_space [OF assms(1)]
    by simp
qed

text \<open>The three ways an HTTP check with enough bytes for its first test goes on.\<close>

definition http_outcome :: "bytes \<Rightarrow> ProtocolInspectionSizeLimit \<Rightarrow> inspection \<Rightarrow> bool" where
  "http_outcome data limit c \<longleftrightarrow>
     (\<exists>s. c = give_up s)
     \<or> (\<exists>s m. m \<in> set HTTP_METHODS \<and> starts_with data (ascii m)
          \<and> c = check_http1_after_method s data (length m) limit)
     \<or> (\<exists>s. c = check_http2_connection_preface s data)"

lemma check_methods_outcome:
  "set ms \<subseteq> set HTTP_METHODS \<Longrightarrow> check_methods s data limit ms = Some c \<Longrightarrow> http_outcome data limit c"
  by (induction ms) (auto simp: http_outcome_def split: if_splits)

lemma http_outcome_rules:
  "(b \<Longrightarrow> http_outcome data limit c) \<Longrightarrow> (\<not> b \<Longrightarrow> http_outcome data limit c')
     \<Longrightarrow> http_outcome data limit (if b then c else c')"
  "http_outcome data limit (give_up s)"
  "http_outcome data limit (check_http2_connection_preface s data)"
  "set ms \<subseteq> set HTTP_METHODS \<Longrightarrow> http_outcome data limit (or_give_up s (check_methods s' data limit ms))"
  "set ms \<subseteq> set HTTP_METHODS \<Longrightarrow> http_outcome data limit c
     \<Longrightarrow> http_outcome data limit (case check_methods s' data limit ms of None \<Rightarrow> c | Some r \<Rightarrow> r)"
  using check_methods_outcome
  by (fastforce simp: http_outcome_def or_give_up_def split: option.split)+

lemma check_http_request_outcome:
  assumes "18 \<le> length data"
  shows "http_outcome data limit (check_http_request s data limit)"
proof -
  obtain d0 rest where data: "data = d0 # rest"
    using assms by (cases data) auto
  have "check_bind s (index data 0) k = k d0" for k :: "u8 \<Rightarrow> inspection"
    by (simp add: data)
  then show ?thesis
    unfolding check_http_request_def Let_def using assms
    by (simp only: if_False not_less [symmetric] simp_thms)
       (intro http_outcome_rules; simp add: HTTP_METHODS_def)
qed

lemma http2_late: "24 \<le> length data \<Longrightarrow> snd (check_http2_connection_preface s data) \<noteq> Err e"
  by (simp add: check_http2_connection_preface_def H2_CONNECTION_PREFACE_def)

lemma http1_after_method_asks:
  assumes "snd (check_http1_after_method s data offset limit) = Err e"
    and "http_client_request_uri limit + 14 + offset \<le> length data"
  shows "\<exists>p. memchr (byte CHR '' '') (drop offset data) = Some p \<and> length data < offset + p + 13"
  using assms
  by (auto simp: check_http1_after_method_def check_http1_after_url_def Let_def need_more_def give_up_def
      check_bind_def split: option.splits if_splits res.splits)

lemma http1_after_method_answers:
  assumes "memchr (byte CHR '' '') (drop offset data) = Some p" and "offset + p + 13 \<le> length data"
    and "14 + offset \<le> length data"
  shows "snd (check_http1_after_method s data offset limit) \<noteq> Err e"
  using assms memchr_Some [OF assms(1)]
  by (auto simp: check_http1_after_method_def check_http1_after_url_def Let_def need_more_def give_up_def
      check_bind_def split: option.splits if_splits res.splits)

lemma http_late:
  assumes late: "http_client_request_uri limit + 33 \<le> length data"
    and asks: "snd (check_http_request s data limit) = Err e" and ext: "12 \<le> length ext"
  shows "snd (check_http_request s' (data @ ext) limit) \<noteq> Err e'"
proof -
  have "http_outcome data limit (check_http_request s data limit)"
    using late by (intro check_http_request_outcome) simp
  then obtain m s1 where m: "m \<in> set HTTP_METHODS" "starts_with data (ascii m)"
      "check_http_request s data limit = check_http1_after_method s1 data (length m) limit"
    using asks late http2_late [of data] by (auto simp: http_outcome_def give_up_def)
  obtain p where p: "memchr (byte CHR '' '') (drop (length m) data) = Some p"
    using http1_after_method_asks [of s1 data "length m" limit e] asks late m http_method_space [OF m(1)] by auto
  have p': "memchr (byte CHR '' '') (drop (length m) (data @ ext)) = Some p" "length m + p + 13 \<le> length (data @ ext)"
    using p memchr_Some [OF p] ext by (auto simp: memchr_append)
  have "http_outcome (data @ ext) limit (check_http_request s' (data @ ext) limit)"
    using late by (intro check_http_request_outcome) simp
  then show ?thesis
    unfolding http_outcome_def
  proof (elim disjE exE conjE)
    fix s2 m'
    assume m': "m' \<in> set HTTP_METHODS" "starts_with (data @ ext) (ascii m')"
      "check_http_request s' (data @ ext) limit = check_http1_after_method s2 (data @ ext) (length m') limit"
    have "length m' = length m"
      using http_method_length [OF m'(1,2)] http_method_length [OF m(1) starts_with_append [OF m(2)]]
        http_method_space [OF m(1)] http_method_space [OF m'(1)] by (cases m; cases m') auto
    with m' p' late http_method_space [OF m(1)] show ?thesis
      using http1_after_method_answers [of "length m" "data @ ext" p s2 limit e'] by simp
  next
    fix s2
    assume "check_http_request s' (data @ ext) limit = check_http2_connection_preface s2 (data @ ext)"
    then show ?thesis
      using http2_late [of "data @ ext"] late by simp
  qed (simp add: give_up_def)
qed

end
