(* ===== verification/Dpi.thy ===== *)
theory Dpi
  imports Dpi_Checks
begin

text \<open>
  The protocol inspector (\<open>g3-dpi/src/protocol/inspect.rs\<close>): which checks run on the first bytes of
  a connection, in which order, and what it remembers until more bytes are there; and the loops that
  feed it from a connection (\<open>g3proxy/src/inspect/stream/object.rs\<close>).
\<close>

section \<open>One check\<close>

fun client_check ::
  "ProtocolInspectState \<Rightarrow> MaybeProtocol \<Rightarrow> bytes \<Rightarrow> ProtocolInspectionSizeLimit \<Rightarrow> inspection" where
  "client_check self MP_Ssh data size_limit = check_ssh_client_protocol_version_exchange self data"
| "client_check self MP_Dns data size_limit = check_dns_tcp_request_message self data"
| "client_check self MP_Ldap data size_limit = check_ldap_tcp_request_message self data size_limit"
| "client_check self MP_Http data size_limit = check_http_request self data size_limit"
| "client_check self MP_Ssl data size_limit = check_ssl_client_hello self data"
| "client_check self MP_Rtsp data size_limit = check_rtsp_client_setup_request self data"
| "client_check self MP_Mqtt data size_limit = check_mqtt_client_connect_request self data"
| "client_check self MP_Stomp data size_limit = check_stomp_client_connect_request self data"
| "client_check self MP_Smpp data size_limit = check_smpp_session_request self data"
| "client_check self MP_Rtmp data size_limit = check_rtmp_tcp_client_handshake self data"
| "client_check self MP_BitTorrent data size_limit = check_bittorrent_tcp_handshake self data"
| "client_check self MP_Ftp data size_limit = give_up self"
| "client_check self MP_Smtp data size_limit = give_up self"
| "client_check self MP_Odmr data size_limit = give_up self"
| "client_check self MP_Pop3 data size_limit = give_up self"
| "client_check self MP_Nntp data size_limit = give_up self"
| "client_check self MP_Nnsp data size_limit = give_up self"
| "client_check self MP_Imap data size_limit = give_up self"
| "client_check self MP_Nats data size_limit = give_up self"
| "client_check self _ data size_limit = (self, Panic)"

definition check_client_initial_data_for_protocol ::
  "ProtocolInspectState \<Rightarrow> MaybeProtocol \<Rightarrow> bytes \<Rightarrow> ProtocolInspectionSizeLimit \<Rightarrow> inspection" where
  "check_client_initial_data_for_protocol self proto data size_limit =
     (if excluded self proto then (self, Ok None)
      else client_check (self\<lparr>PIS_current := Some proto\<rparr>) proto data size_limit)"

fun server_check ::
  "(bytes \<Rightarrow> bytes option) \<Rightarrow> ProtocolInspectState \<Rightarrow> MaybeProtocol \<Rightarrow> bytes
    \<Rightarrow> ProtocolInspectionSizeLimit \<Rightarrow> inspection" where
  "server_check idna self MP_Ftp data size_limit = check_ftp_server_greeting self data size_limit"
| "server_check idna self MP_Ssh data size_limit = check_ssh_server_protocol_version_exchange self data"
| "server_check idna self MP_Smtp data size_limit = check_smtp_server_greeting idna self data"
| "server_check idna self MP_Odmr data size_limit = check_smtp_server_greeting idna self data"
| "server_check idna self MP_Pop3 data size_limit = check_pop3_server_greeting self data"
| "server_check idna self MP_Nntp data size_limit = check_nntp_server_greeting self data"
| "server_check idna self MP_Nnsp data size_limit = check_nntp_server_greeting self data"
| "server_check idna self MP_Imap data size_limit = check_imap_server_greeting self data size_limit"
| "server_check idna self MP_Nats data size_limit = check_nats_server_info_msg self data size_limit"
| "server_check idna self MP_BitTorrent data size_limit = check_bittorrent_tcp_handshake self data"
| "server_check idna self MP_Dns data size_limit = give_up self"
| "server_check idna self MP_Ldap data size_limit = give_up self"
| "server_check idna self MP_Ssl data size_limit = give_up self"
| "server_check idna self MP_Http data size_limit = give_up self"
| "server_check idna self MP_Rtsp data size_limit = give_up self"
| "server_check idna self MP_Mqtt data size_limit = give_up self"
| "server_check idna self MP_Stomp data size_limit = give_up self"
| "server_check idna self MP_Smpp data size_limit = give_up self"
| "server_check idna self MP_Rtmp data size_limit = give_up self"
| "server_check idna self _ data size_limit = (self, Panic)"

definition check_server_initial_data_for_protocol ::
  "(bytes \<Rightarrow> bytes option) \<Rightarrow> ProtocolInspectState \<Rightarrow> MaybeProtocol \<Rightarrow> bytes
    \<Rightarrow> ProtocolInspectionSizeLimit \<Rightarrow> inspection" where
  "check_server_initial_data_for_protocol idna self proto data size_limit =
     (if excluded self proto then (self, Ok None)
      else server_check idna (self\<lparr>PIS_current := Some proto\<rparr>) proto data size_limit)"

section \<open>The inspector\<close>

definition GUESS_PROTOCOL_FOR_CLIENT_INITIAL_DATA :: "MaybeProtocol list" where
  "GUESS_PROTOCOL_FOR_CLIENT_INITIAL_DATA = [MP_Ssl, MP_Http, MP_Ssh, MP_Smpp, MP_BitTorrent]"

definition GUESS_PROTOCOL_FOR_SERVER_INITIAL_DATA :: "MaybeProtocol list" where
  "GUESS_PROTOCOL_FOR_SERVER_INITIAL_DATA = [MP_Ssh, MP_Ftp, MP_Nats, MP_BitTorrent]"

record ReadPendingProtocol =
  RPP_size :: nat
  RPP_protocol :: MaybeProtocol

record ProtocolInspector =
  PI_server_portmap :: ProtocolPortMap
  PI_state :: ProtocolInspectState
  PI_next_check_protocol :: "MaybeProtocol list"
  PI_no_explicit_ssl :: bool
  PI_read_pending_set :: "ReadPendingProtocol list"
  PI_guess_protocols :: bool

definition ProtocolInspector_new :: "ProtocolPortMap \<Rightarrow> ProtocolInspector" where
  "ProtocolInspector_new server_portmap =
     \<lparr>PI_server_portmap = server_portmap, PI_state = ProtocolInspectState_default,
      PI_next_check_protocol = [], PI_no_explicit_ssl = False, PI_read_pending_set = [],
      PI_guess_protocols = True\<rparr>"

definition ProtocolInspector_default :: ProtocolInspector where
  "ProtocolInspector_default = ProtocolInspector_new ProtocolPortMap_tcp_server"

definition push_protocol :: "ProtocolInspector \<Rightarrow> MaybeProtocol \<Rightarrow> ProtocolInspector" where
  "push_protocol self p = self\<lparr>PI_next_check_protocol := p # PI_next_check_protocol self\<rparr>"

definition push_alpn_protocol :: "ProtocolInspector \<Rightarrow> AlpnProtocol \<Rightarrow> ProtocolInspector" where
  "push_alpn_protocol self p = push_protocol self (MaybeProtocol_from_alpn p)"

definition reset_state :: "ProtocolInspector \<Rightarrow> ProtocolInspector" where
  "reset_state self =
     self\<lparr>PI_state := ProtocolInspectState_reset_state (PI_state self), PI_guess_protocols := True\<rparr>"

definition set_no_explicit_ssl :: "ProtocolInspector \<Rightarrow> ProtocolInspector" where
  "set_no_explicit_ssl self = self\<lparr>PI_no_explicit_ssl := True\<rparr>"

definition unset_no_explicit_ssl :: "ProtocolInspector \<Rightarrow> ProtocolInspector" where
  "unset_no_explicit_ssl self = self\<lparr>PI_no_explicit_ssl := False\<rparr>"

text \<open>
  A statement of an inspector method either lets the method go on or makes it return.
\<close>

datatype 'r flow = Continue | Return 'r

type_synonym inspect_flow = "ProtocolInspector \<times> (Protocol, ProtocolInspectError) res flow"

definition flow_bind :: "inspect_flow \<Rightarrow> (ProtocolInspector \<Rightarrow> inspect_flow) \<Rightarrow> inspect_flow" where
  "flow_bind m k = (case m of (self, Continue) \<Rightarrow> k self | (self, Return r) \<Rightarrow> (self, Return r))"

text \<open>The macro \<open>check_protocol!\<close>, and a loop of its calls.\<close>

definition check_protocol ::
  "(ProtocolInspectState \<Rightarrow> MaybeProtocol \<Rightarrow> inspection) \<Rightarrow> ProtocolInspector \<Rightarrow> MaybeProtocol \<Rightarrow> inspect_flow" where
  "check_protocol check self p =
     (let (state, r) = check (PI_state self) p;
          self = self\<lparr>PI_state := state\<rparr>
      in
      case r of
        Ok (Some q) \<Rightarrow> (self, Return (Ok q))
      | Ok None \<Rightarrow> (self, Continue)
      | Err (NeedMoreData len) \<Rightarrow>
          (self\<lparr>PI_read_pending_set := PI_read_pending_set self @ [\<lparr>RPP_size = len, RPP_protocol = p\<rparr>]\<rparr>, Continue)
      | Panic \<Rightarrow> (self, Return Panic))"

fun check_each ::
  "(ProtocolInspectState \<Rightarrow> MaybeProtocol \<Rightarrow> inspection) \<Rightarrow> ProtocolInspector \<Rightarrow> MaybeProtocol list \<Rightarrow> inspect_flow" where
  "check_each check self [] = (self, Continue)"
| "check_each check self (p # ps) = flow_bind (check_protocol check self p) (\<lambda>self. check_each check self ps)"

text \<open>The loop that empties the queue of protocols to try next.\<close>

definition check_taken ::
  "(ProtocolInspectState \<Rightarrow> MaybeProtocol \<Rightarrow> inspection) \<Rightarrow> ProtocolInspector \<Rightarrow> inspect_flow" where
  "check_taken check self =
     (let (state, cur) = take_current (PI_state self);
          self = self\<lparr>PI_state := state\<rparr>
      in
      case cur of Some proto \<Rightarrow> check_protocol check self proto | None \<Rightarrow> (self, Continue))"

lemma check_protocol_next [simp]:
  "PI_next_check_protocol (fst (check_protocol check self p)) = PI_next_check_protocol self"
  by (auto simp: check_protocol_def Let_def split: prod.splits res.splits option.splits ProtocolInspectError.splits)

lemma check_protocol_next_eq:
  "(self', r) = check_protocol check self p \<Longrightarrow> PI_next_check_protocol self' = PI_next_check_protocol self"
  by (metis check_protocol_next fst_conv)

function check_next ::
  "(ProtocolInspectState \<Rightarrow> MaybeProtocol \<Rightarrow> inspection) \<Rightarrow> ProtocolInspector \<Rightarrow> inspect_flow" where
  "check_next check self =
     (case PI_next_check_protocol self of
        [] \<Rightarrow> (self, Continue)
      | proto # rest \<Rightarrow>
          (case check_protocol check (self\<lparr>PI_next_check_protocol := rest\<rparr>) proto of
             (self, Continue) \<Rightarrow> check_next check self
           | (self, Return r) \<Rightarrow> (self, Return r)))"
  by pat_completeness auto
termination
  by (relation "measure (\<lambda>(check, self). length (PI_next_check_protocol self))")
     (auto dest!: check_protocol_next_eq)

fun pending_loop :: "ProtocolInspector \<Rightarrow> nat \<Rightarrow> ReadPendingProtocol list \<Rightarrow> ProtocolInspector \<times> nat" where
  "pending_loop self pending_len [] = (self\<lparr>PI_read_pending_set := []\<rparr>, pending_len)"
| "pending_loop self pending_len (v # vs) =
     pending_loop
       (self\<lparr>PI_next_check_protocol := RPP_protocol v # PI_next_check_protocol self\<rparr>)
       (if RPP_size v < pending_len then RPP_size v else pending_len) vs"

definition handle_read_pending :: "ProtocolInspector \<Rightarrow> inspect_flow" where
  "handle_read_pending self =
     (case PI_read_pending_set self of
        [] \<Rightarrow> (self, Continue)
      | v # vs \<Rightarrow>
          let self = self\<lparr>PI_state := set_current (PI_state self) (RPP_protocol v)\<rparr>;
              (self, pending_len) = pending_loop self (RPP_size v) vs
          in (self, Return (Err (NeedMoreData pending_len))))"

definition unset_guess :: "ProtocolInspector \<Rightarrow> inspect_flow" where
  "unset_guess self = (self\<lparr>PI_guess_protocols := False\<rparr>, Continue)"

definition flow_result :: "inspect_flow \<Rightarrow> ProtocolInspector \<times> (Protocol, ProtocolInspectError) res" where
  "flow_result m = (case m of (self, Return r) \<Rightarrow> (self, r) | (self, Continue) \<Rightarrow> (self, Ok P_Unknown))"

definition check_client_initial_data ::
  "ProtocolInspector \<Rightarrow> ProtocolInspectionConfig \<Rightarrow> u16 \<Rightarrow> bytes
    \<Rightarrow> ProtocolInspector \<times> (Protocol, ProtocolInspectError) res" where
  "check_client_initial_data self config server_port data =
     (let check = (\<lambda>s p. check_client_initial_data_for_protocol s p data (data0_size_limit config)) in
      flow_result
        (flow_bind (check_taken check self) (\<lambda>self.
         flow_bind (check_next check self) (\<lambda>self.
         flow_bind
           (if PI_guess_protocols self then
              flow_bind
                (case PI_server_portmap self server_port of
                   Some v \<Rightarrow>
                     flow_bind
                       (if \<not> PI_no_explicit_ssl self \<and> PPMV_check_ssl v
                        then check_protocol check self MP_Ssl else (self, Continue))
                       (\<lambda>self. check_each check self (PPMV_protocols v))
                 | None \<Rightarrow> (self, Continue))
                (\<lambda>self.
                 flow_bind (check_each check self GUESS_PROTOCOL_FOR_CLIENT_INITIAL_DATA) unset_guess)
            else (self, Continue))
           handle_read_pending))))"

definition check_server_initial_data ::
  "(bytes \<Rightarrow> bytes option) \<Rightarrow> ProtocolInspector \<Rightarrow> ProtocolInspectionConfig \<Rightarrow> u16 \<Rightarrow> bytes
    \<Rightarrow> ProtocolInspector \<times> (Protocol, ProtocolInspectError) res" where
  "check_server_initial_data idna self config server_port data =
     (let check = (\<lambda>s p. check_server_initial_data_for_protocol idna s p data (data0_size_limit config)) in
      flow_result
        (flow_bind (check_taken check self) (\<lambda>self.
         flow_bind (check_next check self) (\<lambda>self.
         flow_bind
           (if PI_guess_protocols self then
              flow_bind
                (case PI_server_portmap self server_port of
                   Some v \<Rightarrow> check_each check self (PPMV_protocols v)
                 | None \<Rightarrow> (self, Continue))
                (\<lambda>self.
                 flow_bind (check_each check self GUESS_PROTOCOL_FOR_SERVER_INITIAL_DATA) unset_guess)
            else (self, Continue))
           handle_read_pending))))"

section \<open>The loops that read\<close>

text \<open>
  What \<open>read_buf\<close> gives: the bytes it appends to the buffer (none at the end of the stream), or an
  I/O error. A loop that still waits when the given reads are used up has no result yet.
\<close>

datatype read_event = Read bytes | ReadFailed

datatype ServerTaskError =
    ClosedByClient | ClientTcpReadFailed | ClosedByUpstream | UpstreamReadFailed

fun inspect_loop ::
  "(ProtocolInspector \<Rightarrow> bytes \<Rightarrow> ProtocolInspector \<times> (Protocol, ProtocolInspectError) res)
    \<Rightarrow> ServerTaskError \<Rightarrow> ServerTaskError \<Rightarrow> ProtocolInspector \<Rightarrow> bytes \<Rightarrow> read_event list
    \<Rightarrow> (ProtocolInspector \<times> (Protocol, ServerTaskError) res) option" where
  "inspect_loop check closed_err failed_err inspector buf reads =
     (case check inspector buf of
        (inspector, Ok p) \<Rightarrow> Some (inspector, Ok p)
      | (inspector, Panic) \<Rightarrow> Some (inspector, Panic)
      | (inspector, Err e) \<Rightarrow>
          if buf = [] then Some (inspector, Ok P_Unknown)
          else
            (case reads of
               [] \<Rightarrow> None
             | ReadFailed # _ \<Rightarrow> Some (inspector, Err failed_err)
             | Read chunk # reads \<Rightarrow>
                 if chunk = [] then Some (inspector, Err closed_err)
                 else inspect_loop check closed_err failed_err inspector (buf @ chunk) reads))"

definition inspect_client_data ::
  "ProtocolInspectionConfig \<Rightarrow> u16 \<Rightarrow> ProtocolInspector \<Rightarrow> bytes \<Rightarrow> read_event list
    \<Rightarrow> (ProtocolInspector \<times> (Protocol, ServerTaskError) res) option" where
  "inspect_client_data config port inspector clt_r_buf reads =
     inspect_loop (\<lambda>inspector buf. check_client_initial_data inspector config port buf)
       ClosedByClient ClientTcpReadFailed inspector clt_r_buf reads"

definition inspect_server_data ::
  "(bytes \<Rightarrow> bytes option) \<Rightarrow> ProtocolInspectionConfig \<Rightarrow> u16 \<Rightarrow> ProtocolInspector \<Rightarrow> bytes
    \<Rightarrow> read_event list \<Rightarrow> (ProtocolInspector \<times> (Protocol, ServerTaskError) res) option" where
  "inspect_server_data idna config port inspector ups_r_buf reads =
     inspect_loop (\<lambda>inspector buf. check_server_initial_data idna inspector config port buf)
       ClosedByUpstream UpstreamReadFailed inspector ups_r_buf reads"

section \<open>What a round of checks does\<close>

text \<open>
  \<open>asks\<close>: a pending entry comes from a check that asked for more bytes. \<open>answers\<close>: an answer comes
  from a check of a candidate. \<open>scanned\<close> is what a part of a round keeps.
\<close>

type_synonym checker = "ProtocolInspectState \<Rightarrow> MaybeProtocol \<Rightarrow> inspection"

definition asks :: "checker \<Rightarrow> MaybeProtocol set \<Rightarrow> ReadPendingProtocol \<Rightarrow> bool" where
  "asks check C v \<longleftrightarrow>
     RPP_protocol v \<in> C \<and> (\<exists>s. snd (check s (RPP_protocol v)) = Err (NeedMoreData (RPP_size v)))"

definition answers :: "checker \<Rightarrow> MaybeProtocol set \<Rightarrow> (Protocol, ProtocolInspectError) res \<Rightarrow> bool" where
  "answers check C r \<longleftrightarrow>
     (\<exists>p \<in> C. \<exists>s. r = Panic \<and> snd (check s p) = Panic \<or> (\<exists>q. r = Ok q \<and> snd (check s p) = Ok (Some q)))"

definition scanned :: "checker \<Rightarrow> MaybeProtocol set \<Rightarrow> ProtocolInspector \<Rightarrow> inspect_flow \<Rightarrow> bool" where
  "scanned check C self m \<longleftrightarrow>
     PI_server_portmap (fst m) = PI_server_portmap self
     \<and> PI_no_explicit_ssl (fst m) = PI_no_explicit_ssl self
     \<and> PI_guess_protocols (fst m) = PI_guess_protocols self
     \<and> (\<exists>new. PI_read_pending_set (fst m) = PI_read_pending_set self @ new \<and> (\<forall>v \<in> set new. asks check C v))
     \<and> (\<forall>r. snd m = Return r \<longrightarrow> answers check C r)"

lemma scanned_same [simp]: "scanned check C self (self, Continue)"
  by (simp add: scanned_def)

lemma scanned_state [simp]:
  "scanned check C self (self\<lparr>PI_state := st\<rparr>, Continue)"
  "scanned check C self (self\<lparr>PI_next_check_protocol := ps\<rparr>, Continue)"
  by (simp_all add: scanned_def)

lemma scanned_trans:
  assumes "scanned check C self (self', Continue)" and "scanned check C self' m"
  shows "scanned check C self m"
proof -
  obtain new new' where
      "PI_read_pending_set self' = PI_read_pending_set self @ new" "\<forall>v \<in> set new. asks check C v"
      "PI_read_pending_set (fst m) = PI_read_pending_set self' @ new'" "\<forall>v \<in> set new'. asks check C v"
    using assms by (auto simp: scanned_def)
  then have "PI_read_pending_set (fst m) = PI_read_pending_set self @ (new @ new')"
      "\<forall>v \<in> set (new @ new'). asks check C v"
    by auto
  with assms show ?thesis
    unfolding scanned_def by (metis fst_conv)
qed

lemma scanned_bind:
  assumes "scanned check C self m" and "\<And>self'. m = (self', Continue) \<Longrightarrow> scanned check C self' (k self')"
  shows "scanned check C self (flow_bind m k)"
proof (cases m)
  case (Pair self' fl)
  show ?thesis
    using assms by (cases fl) (auto simp: flow_bind_def Pair intro: scanned_trans)
qed

lemma scanned_check_protocol:
  assumes "p \<in> C"
  shows "scanned check C self (check_protocol check self p)"
proof -
  obtain st r where c: "check (PI_state self) p = (st, r)"
    by fastforce
  then have r: "snd (check (PI_state self) p) = r"
    by simp
  show ?thesis
  proof (cases r)
    case (Ok m)
    with c r assms show ?thesis
      by (cases m) (auto simp: check_protocol_def scanned_def answers_def intro!: bexI [of _ p] exI [of _ "PI_state self"])
  next
    case (Err e)
    then show ?thesis
      using c r assms
      by (cases e) (auto simp: check_protocol_def scanned_def asks_def intro!: exI [of _ "PI_state self"])
  next
    case Panic
    with c r assms show ?thesis
      by (auto simp: check_protocol_def scanned_def answers_def intro!: bexI [of _ p] exI [of _ "PI_state self"])
  qed
qed

lemma scanned_check_each:
  "set ps \<subseteq> C \<Longrightarrow> scanned check C self (check_each check self ps)"
  by (induction ps arbitrary: self) (auto intro!: scanned_bind scanned_check_protocol)

lemma check_each_next:
  "PI_next_check_protocol (fst (check_each check self ps)) = PI_next_check_protocol self"
proof (induction ps arbitrary: self)
  case (Cons p ps)
  obtain self' fl where c: "check_protocol check self p = (self', fl)"
    by fastforce
  then have "PI_next_check_protocol self' = PI_next_check_protocol self"
    using check_protocol_next [of check self p] by simp
  with Cons c show ?case
    by (cases fl) (auto simp: flow_bind_def)
qed simp

declare check_next.simps [simp del]

lemma scanned_check_next:
  assumes "set (PI_next_check_protocol self) \<subseteq> C"
  shows "scanned check C self (check_next check self)
    \<and> (snd (check_next check self) = Continue \<longrightarrow> PI_next_check_protocol (fst (check_next check self)) = [])"
  using assms
proof (induction check self rule: check_next.induct)
  case (1 check self)
  show ?case
  proof (cases "PI_next_check_protocol self")
    case Nil
    then show ?thesis by (simp add: check_next.simps)
  next
    case (Cons p ps)
    let ?self = "self\<lparr>PI_next_check_protocol := ps\<rparr>"
    obtain self' fl where c: "check_protocol check ?self p = (self', fl)"
      by fastforce
    have s: "scanned check C self (self', fl)"
      using scanned_check_protocol [of p C check ?self] 1 Cons c
      by (auto intro: scanned_trans [OF scanned_state(2)])
    have q: "PI_next_check_protocol self' = ps"
      using check_protocol_next [of check ?self p] c by simp
    show ?thesis
    proof (cases fl)
      case Continue
      have n: "check_next check self = check_next check self'"
        by (subst check_next.simps) (simp add: Cons c Continue)
      have "scanned check C self' (check_next check self')
          \<and> (snd (check_next check self') = Continue \<longrightarrow> PI_next_check_protocol (fst (check_next check self')) = [])"
        using "1.IH" [OF Cons c [symmetric] Continue] "1.prems" Cons q by simp
      with n s Continue show ?thesis
        using scanned_trans by simp
    next
      case (Return r)
      with s Cons c show ?thesis
        by (subst (1 2) check_next.simps) (simp add: check_next.simps)
    qed
  qed
qed

lemma scanned_check_taken:
  "set_option (PIS_current (PI_state self)) \<subseteq> C \<Longrightarrow> scanned check C self (check_taken check self)"
  by (auto simp: check_taken_def take_current_def Let_def split: option.split
      intro: scanned_trans [OF scanned_state(1)] scanned_check_protocol)

lemma check_taken_next:
  "PI_next_check_protocol (fst (check_taken check self)) = PI_next_check_protocol self"
  by (simp add: check_taken_def take_current_def Let_def split: option.split)

text \<open>The protocols that a round may check before it guesses.\<close>

definition active :: "ProtocolInspector \<Rightarrow> MaybeProtocol set" where
  "active self = set_option (PIS_current (PI_state self)) \<union> set (PI_next_check_protocol self)"

lemma pending_loop_eq:
  "pending_loop self n vs =
     (self\<lparr>PI_read_pending_set := [],
       PI_next_check_protocol := rev (map RPP_protocol vs) @ PI_next_check_protocol self\<rparr>,
      fold (\<lambda>v n. min (RPP_size v) n) vs n)"
  by (induction vs arbitrary: self n) (auto simp: min_def)

lemma fold_min_le:
  "fold (\<lambda>v n. min (RPP_size v) n) vs n \<le> n
   \<and> (\<forall>v \<in> set vs. fold (\<lambda>v n. min (RPP_size v) n) vs n \<le> RPP_size v)
   \<and> (fold (\<lambda>v n. min (RPP_size v) n) vs n = n \<or> (\<exists>v \<in> set vs. fold (\<lambda>v n. min (RPP_size v) n) vs n = RPP_size v))"
proof (induction vs arbitrary: n)
  case (Cons v vs)
  show ?case
    using Cons [of "min (RPP_size v) n"] by (auto simp: min_def split: if_splits)
qed simp

text \<open>The round, with the list of protocols to guess as an argument.\<close>

definition run_round :: "checker \<Rightarrow> MaybeProtocol list \<Rightarrow> ProtocolInspector
    \<Rightarrow> ProtocolInspector \<times> (Protocol, ProtocolInspectError) res" where
  "run_round check guess self =
     flow_result
       (flow_bind (check_taken check self) (\<lambda>self.
        flow_bind (check_next check self) (\<lambda>self.
        flow_bind
          (if PI_guess_protocols self
           then flow_bind (check_each check self guess) unset_guess else (self, Continue))
          handle_read_pending)))"

lemma flow_bind_cases:
  "snd m = Return r \<Longrightarrow> flow_bind m k = (fst m, Return r)"
  "snd m = Continue \<Longrightarrow> flow_bind m k = k (fst m)"
  by (cases m; simp add: flow_bind_def)+

lemma flow_result_simps [simp]:
  "flow_result (self, Return r) = (self, r)" "flow_result (self, Continue) = (self, Ok P_Unknown)"
  by (simp_all add: flow_result_def)

definition round_candidates :: "MaybeProtocol list \<Rightarrow> ProtocolInspector \<Rightarrow> MaybeProtocol set" where
  "round_candidates guess self = active self \<union> (if PI_guess_protocols self then set guess else {})"

lemma handle_read_pending_asks:
  assumes "PI_read_pending_set self = v # vs" and "PI_next_check_protocol self = []"
  shows "\<exists>self'. handle_read_pending self =
      (self', Return (Err (NeedMoreData (fold (\<lambda>v n. min (RPP_size v) n) vs (RPP_size v)))))
    \<and> PI_read_pending_set self' = [] \<and> PI_guess_protocols self' = PI_guess_protocols self
    \<and> active self' = RPP_protocol ` set (v # vs)
    \<and> PI_server_portmap self' = PI_server_portmap self \<and> PI_no_explicit_ssl self' = PI_no_explicit_ssl self"
  using assms by (simp add: handle_read_pending_def pending_loop_eq set_current_def active_def)

lemma run_round_cases:
  obtains (answer) self' r where "run_round check guess self = (self', r)"
      "answers check (round_candidates guess self) r"
  | (unknown) self' where "run_round check guess self = (self', Ok P_Unknown)"
  | (pending) self' v vs where
      "run_round check guess self = (self', Err (NeedMoreData (fold (\<lambda>v n. min (RPP_size v) n) vs (RPP_size v))))"
      "\<forall>w \<in> set (v # vs). w \<in> set (PI_read_pending_set self) \<or> asks check (round_candidates guess self) w"
      "PI_read_pending_set self' = []" "\<not> PI_guess_protocols self'"
      "active self' = RPP_protocol ` set (v # vs)"
      "PI_server_portmap self' = PI_server_portmap self"
      "PI_no_explicit_ssl self' = PI_no_explicit_ssl self"
proof -
  let ?C = "round_candidates guess self"
  let ?m1 = "check_taken check self"
  have s1: "scanned check ?C self ?m1"
    by (rule scanned_check_taken) (auto simp: round_candidates_def active_def)
  show thesis
  proof (cases "snd ?m1")
    case (Return r)
    then have "run_round check guess self = (fst ?m1, r)"
      by (simp add: run_round_def flow_bind_cases)
    moreover have "answers check ?C r"
      using s1 Return by (simp add: scanned_def)
    ultimately show thesis by (rule answer)
  next
    case Continue
    let ?self1 = "fst ?m1"
    let ?m2 = "check_next check ?self1"
    have "set (PI_next_check_protocol ?self1) \<subseteq> ?C"
      by (auto simp: check_taken_next round_candidates_def active_def)
    note n2 = scanned_check_next [OF this, of check]
    have s2: "scanned check ?C self ?m2"
      using scanned_trans [of check ?C self ?self1 ?m2] s1 n2 Continue by (metis prod.collapse)
    show thesis
    proof (cases "snd ?m2")
      case (Return r)
      with \<open>snd ?m1 = Continue\<close> have "run_round check guess self = (fst ?m2, r)"
        by (simp add: run_round_def flow_bind_cases)
      moreover have "answers check ?C r"
        using s2 Return by (simp add: scanned_def)
      ultimately show thesis by (rule answer)
    next
      case Continue
      let ?self2 = "fst ?m2"
      let ?m3 = "if PI_guess_protocols ?self2 then check_each check ?self2 guess else (?self2, Continue)"
      have g: "PI_guess_protocols ?self2 = PI_guess_protocols self" "PI_next_check_protocol ?self2 = []"
        using s2 n2 Continue by (simp_all add: scanned_def)
      have "scanned check ?C ?self2 ?m3"
        using g by (auto simp: round_candidates_def intro!: scanned_check_each)
      then have s3: "scanned check ?C self ?m3"
        using scanned_trans [of check ?C self ?self2 ?m3] s2 Continue by (metis prod.collapse)
      obtain self3 fl where m3: "?m3 = (self3, fl)"
        by fastforce
      have q3: "PI_next_check_protocol self3 = []"
        using g m3 check_each_next [of check ?self2 guess] by (auto split: if_splits)
      let ?self4 = "if PI_guess_protocols self then self3\<lparr>PI_guess_protocols := False\<rparr> else self3"
      have self4: "PI_next_check_protocol ?self4 = []" "\<not> PI_guess_protocols ?self4"
          "PI_read_pending_set ?self4 = PI_read_pending_set self3"
          "PI_server_portmap ?self4 = PI_server_portmap self" "PI_no_explicit_ssl ?self4 = PI_no_explicit_ssl self"
        using q3 s3 m3 by (auto simp: scanned_def)
      have run: "run_round check guess self = (case fl of Return r \<Rightarrow> (self3, r)
          | Continue \<Rightarrow> flow_result (handle_read_pending ?self4))"
        using \<open>snd ?m1 = Continue\<close> Continue m3 g
        by (auto simp: run_round_def flow_bind_cases unset_guess_def split: flow.split if_splits)
      show thesis
      proof (cases fl)
        case (Return r)
        then have "run_round check guess self = (self3, r)"
          by (simp add: run)
        moreover have "answers check ?C r"
          using s3 Return m3 by (simp add: scanned_def)
        ultimately show thesis by (rule answer)
      next
        case Continue
        show thesis
        proof (cases "PI_read_pending_set self3")
          case Nil
          then have "run_round check guess self = (?self4, Ok P_Unknown)"
            using run Continue self4(3) by (simp add: handle_read_pending_def)
          then show thesis by (rule unknown)
        next
          case (Cons v vs)
          obtain new where new: "v # vs = PI_read_pending_set self @ new" "\<forall>w \<in> set new. asks check ?C w"
            using s3 Cons m3 by (auto simp: scanned_def)
          then have "\<forall>w \<in> set (v # vs). w \<in> set (PI_read_pending_set self) \<or> asks check ?C w"
            unfolding new(1) by auto
          moreover obtain self' where "handle_read_pending ?self4 =
                (self', Return (Err (NeedMoreData (fold (\<lambda>v n. min (RPP_size v) n) vs (RPP_size v)))))"
              "PI_read_pending_set self' = []" "\<not> PI_guess_protocols self'"
              "active self' = RPP_protocol ` set (v # vs)"
              "PI_server_portmap self' = PI_server_portmap self" "PI_no_explicit_ssl self' = PI_no_explicit_ssl self"
            using handle_read_pending_asks [OF trans [OF self4(3) Cons] self4(1)] self4 by metis
          ultimately show thesis
            using run Continue by (intro pending [of self' vs v]) simp_all
        qed
      qed
    qed
  qed
qed

text \<open>Both entry points are such a round, over the port's protocols and the general guesses.\<close>

definition client_guesses :: "ProtocolInspector \<Rightarrow> u16 \<Rightarrow> MaybeProtocol list" where
  "client_guesses self port =
     (case PI_server_portmap self port of
        Some v \<Rightarrow> (if \<not> PI_no_explicit_ssl self \<and> PPMV_check_ssl v then [MP_Ssl] else []) @ PPMV_protocols v
      | None \<Rightarrow> []) @ GUESS_PROTOCOL_FOR_CLIENT_INITIAL_DATA"

definition server_guesses :: "ProtocolInspector \<Rightarrow> u16 \<Rightarrow> MaybeProtocol list" where
  "server_guesses self port =
     (case PI_server_portmap self port of Some v \<Rightarrow> PPMV_protocols v | None \<Rightarrow> [])
     @ GUESS_PROTOCOL_FOR_SERVER_INITIAL_DATA"

lemma flow_bind_assoc: "flow_bind (flow_bind m k) k' = flow_bind m (\<lambda>s. flow_bind (k s) k')"
  by (simp add: flow_bind_def split: prod.split flow.split)

lemma flow_bind_Continue [simp]: "flow_bind (self, Continue) k = k self"
  by (simp add: flow_bind_def)

lemma check_each_append:
  "check_each check self (ps @ qs) = flow_bind (check_each check self ps) (\<lambda>self. check_each check self qs)"
  by (induction ps arbitrary: self) (simp_all add: flow_bind_assoc)

lemma check_each_single: "check_each check self [p] = check_protocol check self p"
  by (simp add: flow_bind_def split: prod.split flow.split)

lemma flow_bind_cong: "(\<And>s. m = (s, Continue) \<Longrightarrow> k s = k' s) \<Longrightarrow> flow_bind m k = flow_bind m k'"
  by (simp add: flow_bind_def split: prod.split flow.split)

lemma scanned_same_port:
  "scanned check C self (s, Continue) \<Longrightarrow>
    client_guesses s port = client_guesses self port \<and> server_guesses s port = server_guesses self port"
  by (auto simp: scanned_def client_guesses_def server_guesses_def split: option.split)

lemma check_client_initial_data_eq:
  "check_client_initial_data self config port data =
     run_round (\<lambda>s p. check_client_initial_data_for_protocol s p data (data0_size_limit config))
       (client_guesses self port) self"
proof -
  let ?check = "\<lambda>s p. check_client_initial_data_for_protocol s p data (data0_size_limit config)"
  have "flow_bind
      (case PI_server_portmap s port of
         Some v \<Rightarrow>
           flow_bind (if \<not> PI_no_explicit_ssl s \<and> PPMV_check_ssl v then check_protocol ?check s MP_Ssl else (s, Continue))
             (\<lambda>s. check_each ?check s (PPMV_protocols v))
       | None \<Rightarrow> (s, Continue))
      (\<lambda>s. flow_bind (check_each ?check s GUESS_PROTOCOL_FOR_CLIENT_INITIAL_DATA) unset_guess) =
    flow_bind (check_each ?check s (client_guesses s port)) unset_guess" for s
    by (simp add: client_guesses_def check_each_append flow_bind_assoc check_each_single
        del: check_each.simps(2) split: option.split)
  moreover have "client_guesses s2 port = client_guesses self port"
    if "check_taken ?check self = (s1, Continue)" "check_next ?check s1 = (s2, Continue)" for s1 s2
    using scanned_check_taken [of self UNIV ?check] scanned_check_next [of s1 UNIV ?check] that
    by (auto dest!: scanned_same_port [where port = port])
  ultimately show ?thesis
    unfolding check_client_initial_data_def run_round_def Let_def
    by (intro arg_cong [where f = flow_result] flow_bind_cong) simp
qed

lemma check_server_initial_data_eq:
  "check_server_initial_data idna self config port data =
     run_round (\<lambda>s p. check_server_initial_data_for_protocol idna s p data (data0_size_limit config))
       (server_guesses self port) self"
proof -
  let ?check = "\<lambda>s p. check_server_initial_data_for_protocol idna s p data (data0_size_limit config)"
  have "flow_bind
      (case PI_server_portmap s port of
         Some v \<Rightarrow> check_each ?check s (PPMV_protocols v)
       | None \<Rightarrow> (s, Continue))
      (\<lambda>s. flow_bind (check_each ?check s GUESS_PROTOCOL_FOR_SERVER_INITIAL_DATA) unset_guess) =
    flow_bind (check_each ?check s (server_guesses s port)) unset_guess" for s
    by (simp add: server_guesses_def check_each_append flow_bind_assoc split: option.split)
  moreover have "server_guesses s2 port = server_guesses self port"
    if "check_taken ?check self = (s1, Continue)" "check_next ?check s1 = (s2, Continue)" for s1 s2
    using scanned_check_taken [of self UNIV ?check] scanned_check_next [of s1 UNIV ?check] that
    by (auto dest!: scanned_same_port [where port = port])
  ultimately show ?thesis
    unfolding check_server_initial_data_def run_round_def Let_def
    by (intro arg_cong [where f = flow_result] flow_bind_cong) simp
qed

section \<open>The reading loop ends\<close>

definition settled :: "(ProtocolInspector \<times> (Protocol, ServerTaskError) res) option \<Rightarrow> bool" where
  "settled r \<longleftrightarrow> (\<exists>self' q. r = Some (self', q) \<and> (\<forall>e. q \<noteq> Err e))"

text \<open>
  The interface the reading loop relies on. \<open>decided\<close>: once \<open>bound\<close> bytes are there, a check that
  asks for more does not ask again when it gets twelve more bytes. \<open>round_asks\<close>: when a round asks for
  more, it remembers only protocols whose check asked, and of an inspector that does not guess any
  more only protocols it had remembered before.
\<close>

locale inspection_rounds =
  fixes check :: "bytes \<Rightarrow> checker" and bound :: nat
    and round :: "ProtocolInspector \<Rightarrow> bytes \<Rightarrow> ProtocolInspector \<times> (Protocol, ProtocolInspectError) res"
  assumes decided: "bound \<le> length d \<Longrightarrow> snd (check d s p) = Err e \<Longrightarrow> 12 \<le> length ext
      \<Longrightarrow> snd (check (d @ ext) s' p) \<noteq> Err e'"
    and round_asks: "PI_read_pending_set self = [] \<Longrightarrow> round self d = (self', Err e) \<Longrightarrow>
      PI_read_pending_set self' = [] \<and> \<not> PI_guess_protocols self' \<and> active self' \<noteq> {}
      \<and> (\<forall>p \<in> active self'. (PI_guess_protocols self \<or> p \<in> active self) \<and> (\<exists>s e'. snd (check d s p) = Err e'))"
begin

lemma loop_settles_by:
  assumes "PI_read_pending_set self = []" and "\<not> PI_guess_protocols self"
    and "\<And>p s e ext. p \<in> active self \<Longrightarrow> D \<le> length (buf @ ext) \<Longrightarrow> snd (check (buf @ ext) s p) \<noteq> Err e"
    and "\<forall>r \<in> set reads. \<exists>c. r = Read c \<and> c \<noteq> []"
    and "D \<le> length buf + sum_list (map (case_read_event length 0) reads)"
  shows "settled (inspect_loop round closed_err failed_err self buf reads)"
  using assms
proof (induction reads arbitrary: self buf)
  case Nil
  obtain self' r where r: "round self buf = (self', r)"
    by fastforce
  have "r \<noteq> Err e" for e
    using round_asks [OF Nil.prems(1), of buf self' e] r Nil.prems(2,5) Nil.prems(3) [of _ "[]"] by auto
  with r show ?case
    by (cases r) (auto simp: settled_def)
next
  case (Cons rd reads)
  obtain self' r where r: "round self buf = (self', r)"
    by fastforce
  obtain c where c: "rd = Read c" "c \<noteq> []"
    using Cons.prems(4) by auto
  show ?case
  proof (cases r)
    case (Err e)
    have a: "PI_read_pending_set self' = []" "\<not> PI_guess_protocols self'" "active self' \<subseteq> active self"
      using round_asks [OF Cons.prems(1), of buf self' e] r Err Cons.prems(2) by auto
    have "snd (check ((buf @ c) @ ext) s p) \<noteq> Err e"
      if "p \<in> active self'" "D \<le> length ((buf @ c) @ ext)" for p s e ext
      using Cons.prems(3) [of p "c @ ext" s e] a(3) that by auto
    then have "settled (inspect_loop round closed_err failed_err self' (buf @ c) reads)"
      using Cons.prems(4,5) c by (intro Cons.IH [OF a(1,2)]) auto
    with r Err c show ?thesis
      by (auto simp: settled_def)
  qed (use r in \<open>auto simp: settled_def\<close>)
qed

lemma loop_settles:
  assumes "PI_read_pending_set self = []"
    and "\<forall>r \<in> set reads. \<exists>c. r = Read c \<and> c \<noteq> [] \<and> length c \<le> chunk"
    and "length buf \<le> bound + chunk"
    and "bound + chunk + 12 \<le> length buf + sum_list (map (case_read_event length 0) reads)"
  shows "settled (inspect_loop round closed_err failed_err self buf reads)"
  using assms
proof (induction reads arbitrary: self buf)
  case Nil
  then show ?case by simp
next
  case (Cons rd reads)
  obtain self' r where r: "round self buf = (self', r)"
    by fastforce
  obtain c where c: "rd = Read c" "c \<noteq> []" "length c \<le> chunk"
    using Cons.prems(2) by auto
  show ?case
  proof (cases r)
    case (Err e)
    have a: "PI_read_pending_set self' = []" "\<not> PI_guess_protocols self'"
        "\<forall>p \<in> active self'. \<exists>s e'. snd (check buf s p) = Err e'"
      using round_asks [OF Cons.prems(1), of buf self' e] r Err by auto
    have "settled (inspect_loop round closed_err failed_err self' (buf @ c) reads)"
    proof (cases "bound \<le> length buf")
      case True
      have "snd (check ((buf @ c) @ ext) s p) \<noteq> Err e"
        if "p \<in> active self'" "length buf + 12 \<le> length ((buf @ c) @ ext)" for p s e ext
        using decided [OF True, of _ p _ "c @ ext" s e] a(3) that by fastforce
      then show ?thesis
        using Cons.prems(2-4) c by (intro loop_settles_by [OF a(1,2), where D = "length buf + 12"]) auto
    next
      case False
      with Cons.prems c show ?thesis
        by (intro Cons.IH [OF a(1)]) auto
    qed
    with r Err c show ?thesis
      by (auto simp: settled_def)
  qed (use r in \<open>auto simp: settled_def\<close>)
qed

end

text \<open>A round over any check satisfies \<open>round_asks\<close>.\<close>

lemma run_round_asks:
  assumes "PI_read_pending_set self = []" and "run_round check guess self = (self', Err e)"
  shows "PI_read_pending_set self' = [] \<and> \<not> PI_guess_protocols self' \<and> active self' \<noteq> {}
    \<and> (\<forall>p \<in> active self'. (PI_guess_protocols self \<or> p \<in> active self) \<and> (\<exists>s e'. snd (check s p) = Err e'))"
proof (cases rule: run_round_cases [of check guess self])
  case (answer self2 r)
  with assms(2) show ?thesis by (auto simp: answers_def)
next
  case (unknown self2)
  with assms(2) show ?thesis by simp
next
  case (pending self2 v vs)
  with assms have s: "self2 = self'"
    by simp
  have "\<forall>w \<in> set (v # vs). asks check (round_candidates guess self) w"
    using pending(2) assms(1) by simp
  then have "\<forall>p \<in> active self'. p \<in> round_candidates guess self \<and> (\<exists>s e'. snd (check s p) = Err e')"
    using pending(5) unfolding s asks_def by (metis imageE)
  then show ?thesis
    using pending unfolding s by (auto simp: round_candidates_def split: if_splits)
qed

definition client_late_bound :: "ProtocolInspectionSizeLimit \<Rightarrow> nat" where
  "client_late_bound limit = 1537 + http_client_request_uri limit + ldap_request_msg limit"

definition server_late_bound :: "ProtocolInspectionSizeLimit \<Rightarrow> nat" where
  "server_late_bound limit =
     517 + ftp_server_greeting_msg limit + imap_server_greeting_msg limit + nats_server_info_line limit"

lemma check_ensures_late:
  "check_ensures c (check_step s0 late) \<Longrightarrow> late \<Longrightarrow> snd c \<noteq> Err e"
  by (cases e) (auto simp: check_ensures_def check_step_def)

lemma client_check_late:
  assumes "client_late_bound limit \<le> length d" and "p \<noteq> MP_Http"
  shows "snd (client_check s p d limit) \<noteq> Err e"
proof (cases "p = MP_Ldap")
  case True
  then show ?thesis
    using check_ensures_late [OF ldap_step [of s s d limit], of e] ldap_panic_iff [of s d limit] assms(1)
    by (cases "LdapMessage_parse d (ldap_request_msg limit) = Panic")
       (auto simp: client_late_bound_def)
next
  case False
  note l = check_ensures_late [OF ssh_client_step] check_ensures_late [OF dns_step] check_ensures_late [OF ssl_step]
    check_ensures_late [OF rtsp_step] check_ensures_late [OF mqtt_step] check_ensures_late [OF stomp_step]
    check_ensures_late [OF smpp_step] check_ensures_late [OF rtmp_step] check_ensures_late [OF bittorrent_step]
  show ?thesis
    using assms False by (cases p) (simp_all add: l [OF grows_simps(1)] client_late_bound_def give_up_def)
qed

lemma client_decided:
  assumes "client_late_bound limit \<le> length d"
    and "snd (check_client_initial_data_for_protocol s p d limit) = Err e" and "12 \<le> length ext"
  shows "snd (check_client_initial_data_for_protocol s' p (d @ ext) limit) \<noteq> Err e'"
proof (cases "p = MP_Http")
  case True
  have "http_client_request_uri limit + 33 \<le> length d"
    using assms(1) by (simp add: client_late_bound_def)
  with True assms show ?thesis
    using http_late by (auto simp: check_client_initial_data_for_protocol_def split: if_splits)
next
  case False
  with assms client_check_late [OF assms(1) False] show ?thesis
    by (auto simp: check_client_initial_data_for_protocol_def split: if_splits)
qed

lemma server_check_late:
  assumes "server_late_bound limit \<le> length d"
  shows "snd (server_check idna s p d limit) \<noteq> Err e"
proof -
  note l = check_ensures_late [OF ssh_server_step] check_ensures_late [OF ftp_step] check_ensures_late [OF smtp_step]
    check_ensures_late [OF pop3_step] check_ensures_late [OF nntp_step] check_ensures_late [OF imap_step]
    check_ensures_late [OF nats_step] check_ensures_late [OF bittorrent_step]
  show ?thesis
    using assms by (cases p) (simp_all add: l [OF grows_simps(1)] server_late_bound_def give_up_def)
qed

lemma server_decided:
  "server_late_bound limit \<le> length d \<Longrightarrow>
    snd (check_server_initial_data_for_protocol idna s p d limit) \<noteq> Err e"
  by (simp add: check_server_initial_data_for_protocol_def server_check_late)

interpretation client_rounds: inspection_rounds
  "\<lambda>d s p. check_client_initial_data_for_protocol s p d (data0_size_limit config)"
  "client_late_bound (data0_size_limit config)"
  "\<lambda>self d. check_client_initial_data self config port d"
  for config port
  using client_decided run_round_asks unfolding check_client_initial_data_eq
  by unfold_locales blast+

interpretation server_rounds: inspection_rounds
  "\<lambda>d s p. check_server_initial_data_for_protocol idna s p d (data0_size_limit config)"
  "server_late_bound (data0_size_limit config)"
  "\<lambda>self d. check_server_initial_data idna self config port d"
  for idna config port
  using server_decided run_round_asks unfolding check_server_initial_data_eq
  by unfold_locales blast+

section \<open>The invariant of the inspector\<close>

text \<open>
  The checks exist for the protocols without TLS and for TLS itself. The invariant says that an
  inspector only holds such protocols.
\<close>

definition inspector_wf :: "ProtocolInspector \<Rightarrow> bool" where
  "inspector_wf self \<longleftrightarrow>
     portmap_plain (PI_server_portmap self) \<and> (\<forall>p \<in> active self. plain p)
     \<and> (\<forall>v \<in> set (PI_read_pending_set self). plain (RPP_protocol v))"

definition confined :: "MaybeProtocol set \<Rightarrow> ProtocolInspector \<Rightarrow> bool" where
  "confined C self \<longleftrightarrow> active self \<subseteq> C \<and> RPP_protocol ` set (PI_read_pending_set self) \<subseteq> C"

definition keeps :: "MaybeProtocol set \<Rightarrow> inspect_flow \<Rightarrow> bool" where
  "keeps C m \<longleftrightarrow> snd m \<noteq> Return Panic \<longrightarrow> confined C (fst m)"

definition modest :: "checker \<Rightarrow> bool" where
  "modest check \<longleftrightarrow>
     (\<forall>s p. snd (check s p) \<noteq> Panic \<longrightarrow> PIS_current (fst (check s p)) \<in> {None, Some p, PIS_current s})"

lemma keeps_bind:
  assumes "keeps C m" and "\<And>s. m = (s, Continue) \<Longrightarrow> confined C s \<Longrightarrow> keeps C (k s)"
  shows "keeps C (flow_bind m k)"
proof (cases m)
  case (Pair s fl)
  with assms show ?thesis
    by (cases fl) (auto simp: keeps_def flow_bind_def)
qed

lemma keeps_check_protocol:
  assumes "modest check" and "confined C self" and "p \<in> C"
  shows "keeps C (check_protocol check self p)"
proof -
  obtain st r where c: "check (PI_state self) p = (st, r)"
    by fastforce
  have cur: "r \<noteq> Panic \<longrightarrow> PIS_current st \<in> {None, Some p, PIS_current (PI_state self)}"
    using assms(1) c unfolding modest_def by (metis fst_conv snd_conv)
  show ?thesis
  proof (cases r)
    case (Ok m)
    with c cur assms show ?thesis
      by (cases m) (auto simp: check_protocol_def keeps_def confined_def active_def)
  next
    case (Err e)
    with c cur assms show ?thesis
      by (cases e) (auto simp: check_protocol_def keeps_def confined_def active_def)
  qed (simp add: c check_protocol_def keeps_def)
qed

lemma keeps_check_each:
  "modest check \<Longrightarrow> confined C self \<Longrightarrow> set ps \<subseteq> C \<Longrightarrow> keeps C (check_each check self ps)"
proof (induction ps arbitrary: self)
  case (Cons p ps)
  then show ?case
    by (auto intro!: keeps_bind keeps_check_protocol)
qed (simp add: keeps_def)

lemma keeps_check_next:
  "modest check \<Longrightarrow> confined C self \<Longrightarrow> keeps C (check_next check self)"
proof (induction check self rule: check_next.induct)
  case (1 check self)
  show ?case
  proof (cases "PI_next_check_protocol self")
    case Nil
    with 1 show ?thesis by (subst check_next.simps) (simp add: keeps_def)
  next
    case (Cons p ps)
    let ?self = "self\<lparr>PI_next_check_protocol := ps\<rparr>"
    have k: "keeps C (check_protocol check ?self p)"
      using 1 Cons by (intro keeps_check_protocol) (auto simp: confined_def active_def)
    have n: "check_next check self = flow_bind (check_protocol check ?self p) (check_next check)"
      by (subst check_next.simps) (simp add: Cons flow_bind_def split: prod.split flow.split)
    show ?thesis
      unfolding n using "1.IH" [OF Cons] "1.prems" by (intro keeps_bind [OF k]) auto
  qed
qed

lemma keeps_check_taken:
  assumes "modest check" and "confined C self"
  shows "keeps C (check_taken check self)"
proof (cases "PIS_current (PI_state self)")
  case None
  with assms(2) show ?thesis
    by (simp add: check_taken_def take_current_def keeps_def confined_def active_def)
next
  case (Some p)
  have "keeps C (check_protocol check (self\<lparr>PI_state := PI_state self\<lparr>PIS_current := None\<rparr>\<rparr>) p)"
    using assms Some by (intro keeps_check_protocol) (auto simp: confined_def active_def)
  with Some show ?thesis
    by (simp add: check_taken_def take_current_def)
qed

lemma confined_round:
  assumes m: "modest check" and w: "confined C self" and g: "set guess \<subseteq> C"
    and np: "snd (run_round check guess self) \<noteq> Panic"
  shows "confined C (fst (run_round check guess self))"
proof -
  have pend: "keeps C (handle_read_pending s)" if "confined C s" for s
    using that by (auto simp: handle_read_pending_def keeps_def pending_loop_eq confined_def active_def
        set_current_def Let_def split: list.split)
  have unset: "keeps C (unset_guess s)" if "confined C s" for s
    using that by (simp add: unset_guess_def keeps_def confined_def active_def)
  have guessing: "keeps C (if PI_guess_protocols s
      then flow_bind (check_each check s guess) unset_guess else (s, Continue))" if "confined C s" for s
    using m g that by (simp add: keeps_bind keeps_check_each unset) (simp add: keeps_def)
  have "keeps C (flow_bind (check_taken check self) (\<lambda>self.
        flow_bind (check_next check self) (\<lambda>self.
        flow_bind
          (if PI_guess_protocols self
           then flow_bind (check_each check self guess) unset_guess else (self, Continue))
          handle_read_pending)))"
    using m w by (intro keeps_bind keeps_check_taken keeps_check_next pend guessing)
  with np show ?thesis
    unfolding run_round_def by (auto simp: keeps_def flow_result_def split: prod.splits flow.splits)
qed

lemma flow_bind_portmap:
  assumes "PI_server_portmap (fst m) = P"
    and "\<And>s. PI_server_portmap s = P \<Longrightarrow> PI_server_portmap (fst (k s)) = P"
  shows "PI_server_portmap (fst (flow_bind m k)) = P"
  using assms by (cases m; cases "snd m") (simp_all add: flow_bind_def)

lemma run_round_portmap:
  "PI_server_portmap (fst (run_round check guess self)) = PI_server_portmap self"
proof -
  have h: "PI_server_portmap (fst (handle_read_pending s)) = PI_server_portmap s" for s
    by (simp add: handle_read_pending_def pending_loop_eq Let_def split: list.split)
  have r: "PI_server_portmap (fst (flow_result m)) = PI_server_portmap (fst m)" for m
    by (cases m; cases "snd m") simp_all
  have c: "PI_server_portmap (fst (check_taken check s)) = PI_server_portmap s"
    "PI_server_portmap (fst (check_next check s)) = PI_server_portmap s"
    "PI_server_portmap (fst (check_each check s ps)) = PI_server_portmap s" for s ps
    using scanned_check_taken [of s UNIV check] scanned_check_next [of s UNIV check]
      scanned_check_each [of ps UNIV check s] by (simp_all add: scanned_def)
  have g: "PI_server_portmap (fst (if PI_guess_protocols s
      then flow_bind (check_each check s guess) unset_guess else (s, Continue))) = PI_server_portmap s" for s
    using flow_bind_portmap [of "check_each check s guess" "PI_server_portmap s" unset_guess] c(3) [of s guess]
    by (simp add: unset_guess_def)
  show ?thesis
    unfolding run_round_def r by (intro flow_bind_portmap) (simp_all add: c h g)
qed

lemma check_step_relax:
  "check_ensures c (check_step s late) \<Longrightarrow> check_ensures c (check_step s False)"
  by (auto simp: check_ensures_def check_step_def)

lemma give_up_step: "check_ensures (give_up s) (check_step s late)"
  by (intro check_rules) simp

lemmas client_steps =
  ssh_client_step dns_step ssl_step rtsp_step mqtt_step stomp_step smpp_step rtmp_step bittorrent_step http_step

lemmas server_steps =
  ftp_step ssh_server_step smtp_step pop3_step nntp_step imap_step nats_step bittorrent_step

lemma client_check_step:
  assumes "plain p" and "p \<noteq> MP_Ldap"
  shows "check_ensures (client_check s p d limit) (check_step s False)"
  using assms
  by (cases p) (simp_all add: plain_def client_steps [OF grows_simps(1), THEN check_step_relax] give_up_step)

lemma server_check_step:
  assumes "plain p"
  shows "check_ensures (server_check idna s p d limit) (check_step s False)"
  using assms
  by (cases p) (simp_all add: plain_def server_steps [OF grows_simps(1), THEN check_step_relax] give_up_step)

lemma client_check_panic:
  assumes "plain p" and "snd (client_check s p d limit) = Panic"
  shows "5 \<le> length d \<and> LdapMessage_parse d (ldap_request_msg limit) = Panic"
proof (cases "p = MP_Ldap")
  case True
  with assms(2) show ?thesis
    by (simp add: ldap_panic_iff)
next
  case False
  with client_check_step [OF assms(1) False, of s d limit] assms(2) show ?thesis
    by (simp add: check_ensures_def)
qed

lemma client_check_ok:
  assumes "snd (client_check s p d limit) \<noteq> Panic"
  shows "check_step s False (fst (client_check s p d limit)) (snd (client_check s p d limit))"
proof (cases "p = MP_Ldap")
  case True
  show ?thesis
  proof (cases "LdapMessage_parse d (ldap_request_msg limit) = Panic")
    case True
    with assms \<open>p = MP_Ldap\<close> have "length d < 5"
      by (simp add: ldap_panic_iff not_le)
    with \<open>p = MP_Ldap\<close> show ?thesis
      by (simp add: check_ldap_tcp_request_message_def need_more_def)
  next
    case False
    with \<open>p = MP_Ldap\<close> show ?thesis
      using check_step_relax [OF ldap_step [of s s d limit]] by (simp add: check_ensures_def)
  qed
next
  case False
  show ?thesis
  proof (cases "plain p")
    case True
    with False client_check_step [of p s d limit] show ?thesis
      by (simp add: check_ensures_def)
  next
    case False
    then have "snd (client_check s p d limit) = Panic"
      by (cases p) (simp_all add: plain_def)
    with assms show ?thesis by simp
  qed
qed

lemma server_check_ok:
  assumes "snd (server_check idna s p d limit) \<noteq> Panic"
  shows "check_step s False (fst (server_check idna s p d limit)) (snd (server_check idna s p d limit))"
proof (cases "plain p")
  case True
  with server_check_step [of p idna s d limit] show ?thesis
    by (simp add: check_ensures_def)
next
  case False
  then have "snd (server_check idna s p d limit) = Panic"
    by (cases p) (simp_all add: plain_def)
  with assms show ?thesis by simp
qed

lemma client_modest: "modest (\<lambda>s p. check_client_initial_data_for_protocol s p d limit)"
  unfolding modest_def
proof (intro allI impI)
  fix s p
  assume "snd (check_client_initial_data_for_protocol s p d limit) \<noteq> Panic"
  then show "PIS_current (fst (check_client_initial_data_for_protocol s p d limit)) \<in> {None, Some p, PIS_current s}"
    using client_check_ok [of "s\<lparr>PIS_current := Some p\<rparr>" p d limit]
    by (auto simp: check_client_initial_data_for_protocol_def check_step_def grows_def)
qed

lemma server_modest: "modest (\<lambda>s p. check_server_initial_data_for_protocol idna s p d limit)"
  unfolding modest_def
proof (intro allI impI)
  fix s p
  assume "snd (check_server_initial_data_for_protocol idna s p d limit) \<noteq> Panic"
  then show "PIS_current (fst (check_server_initial_data_for_protocol idna s p d limit))
      \<in> {None, Some p, PIS_current s}"
    using server_check_ok [of idna "s\<lparr>PIS_current := Some p\<rparr>" p d limit]
    by (auto simp: check_server_initial_data_for_protocol_def check_step_def grows_def)
qed

lemma guesses_plain:
  assumes "portmap_plain (PI_server_portmap self)"
  shows "\<forall>p \<in> set (client_guesses self port). plain p" "\<forall>p \<in> set (server_guesses self port). plain p"
proof -
  have "\<forall>p \<in> set (case PI_server_portmap self port of Some v \<Rightarrow> PPMV_protocols v | None \<Rightarrow> []). plain p"
    using assms by (cases "PI_server_portmap self port") (auto simp: portmap_plain_def entry_plain_def)
  then show "\<forall>p \<in> set (client_guesses self port). plain p" "\<forall>p \<in> set (server_guesses self port). plain p"
    by (auto simp: client_guesses_def server_guesses_def GUESS_PROTOCOL_FOR_CLIENT_INITIAL_DATA_def
        GUESS_PROTOCOL_FOR_SERVER_INITIAL_DATA_def plain_def split: option.split_asm)
qed

section \<open>Fresh inspectors\<close>

lemma inspector_wf_confined:
  "inspector_wf self \<longleftrightarrow> portmap_plain (PI_server_portmap self) \<and> confined {p. plain p} self"
  by (auto simp: inspector_wf_def confined_def)

lemma inspector_wf_client:
  assumes "inspector_wf self" and "snd (check_client_initial_data self config port d) \<noteq> Panic"
  shows "inspector_wf (fst (check_client_initial_data self config port d))"
  using confined_round [OF client_modest, of "{p. plain p}" self "client_guesses self port" d "data0_size_limit config"]
    assms guesses_plain(1) [of self port]
  by (auto simp: inspector_wf_confined check_client_initial_data_eq run_round_portmap)

lemma inspector_wf_server:
  assumes "inspector_wf self" and "snd (check_server_initial_data idna self config port d) \<noteq> Panic"
  shows "inspector_wf (fst (check_server_initial_data idna self config port d))"
  using confined_round [OF server_modest, of "{p. plain p}" self "server_guesses self port" idna d "data0_size_limit config"]
    assms guesses_plain(2) [of self port]
  by (auto simp: inspector_wf_confined check_server_initial_data_eq run_round_portmap)

lemma round_candidates_plain:
  assumes "inspector_wf self"
  shows "p \<in> round_candidates (client_guesses self port) self \<Longrightarrow> plain p"
    "p \<in> round_candidates (server_guesses self port) self \<Longrightarrow> plain p"
  using assms guesses_plain [of self port]
  by (auto simp: round_candidates_def inspector_wf_def split: if_splits)

lemma client_round_panic:
  assumes "inspector_wf self" and "snd (check_client_initial_data self config port d) = Panic"
  shows "5 \<le> length d \<and> LdapMessage_parse d (ldap_request_msg (data0_size_limit config)) = Panic"
proof -
  let ?check = "\<lambda>s p. check_client_initial_data_for_protocol s p d (data0_size_limit config)"
  from assms(2) obtain p s where "p \<in> round_candidates (client_guesses self port) self" "snd (?check s p) = Panic"
    by (cases rule: run_round_cases [of ?check "client_guesses self port" self])
       (auto simp: check_client_initial_data_eq answers_def)
  then show ?thesis
    using client_check_panic [OF round_candidates_plain(1) [OF assms(1)]]
    by (auto simp: check_client_initial_data_for_protocol_def split: if_splits)
qed

lemma server_round_no_panic:
  assumes "inspector_wf self"
  shows "snd (check_server_initial_data idna self config port d) \<noteq> Panic"
proof
  let ?check = "\<lambda>s p. check_server_initial_data_for_protocol idna s p d (data0_size_limit config)"
  assume "snd (check_server_initial_data idna self config port d) = Panic"
  then obtain p s where "p \<in> round_candidates (server_guesses self port) self" "snd (?check s p) = Panic"
    by (cases rule: run_round_cases [of ?check "server_guesses self port" self])
       (auto simp: check_server_initial_data_eq answers_def)
  then show False
    using server_check_step [OF round_candidates_plain(2) [OF assms]]
    by (auto simp: check_server_initial_data_for_protocol_def check_ensures_def split: if_splits)
qed

lemma fresh_round:
  assumes "PIS_current (PI_state self) = None" and "PI_next_check_protocol self = []"
    and "PI_guess_protocols self"
  shows "run_round check guess self =
    flow_result (flow_bind (check_each check (self\<lparr>PI_state := (PI_state self)\<lparr>PIS_current := None\<rparr>\<rparr>) guess)
      (\<lambda>s. handle_read_pending (s\<lparr>PI_guess_protocols := False\<rparr>)))"
  using assms
  by (simp add: run_round_def check_taken_def take_current_def check_next.simps flow_bind_assoc unset_guess_def [abs_def])

lemma check_protocol_eqs:
  "check (PI_state self) p = (st, Ok (Some q)) \<Longrightarrow>
     check_protocol check self p = (self\<lparr>PI_state := st\<rparr>, Return (Ok q))"
  "check (PI_state self) p = (st, Ok None) \<Longrightarrow> check_protocol check self p = (self\<lparr>PI_state := st\<rparr>, Continue)"
  "check (PI_state self) p = (st, Err (NeedMoreData n)) \<Longrightarrow>
     check_protocol check self p = (self\<lparr>PI_state := st,
       PI_read_pending_set := PI_read_pending_set self @ [\<lparr>RPP_size = n, RPP_protocol = p\<rparr>]\<rparr>, Continue)"
  "check (PI_state self) p = (st, Panic) \<Longrightarrow> check_protocol check self p = (self\<lparr>PI_state := st\<rparr>, Return Panic)"
  by (simp_all add: check_protocol_def)

lemma flow_bind_Return [simp]: "flow_bind (self, Return r) k = (self, Return r)"
  by (simp add: flow_bind_def)

lemma tcp_server_ports:
  "ProtocolPortMap_tcp_server 389 = Some \<lparr>PPMV_check_ssl = False, PPMV_protocols = [MP_Ldap]\<rparr>"
  "ProtocolPortMap_tcp_server 119 = Some \<lparr>PPMV_check_ssl = False, PPMV_protocols = [MP_Nntp]\<rparr>"
  "ProtocolPortMap_tcp_server 8080 = Some \<lparr>PPMV_check_ssl = False, PPMV_protocols = [MP_Http]\<rparr>"
  by code_simp+

lemma inspector_default_wf: "inspector_wf ProtocolInspector_default"
  by (simp add: inspector_wf_def ProtocolInspector_default_def ProtocolInspector_new_def active_def
      ProtocolInspectState_default_def portmap_plain_tcp_server)

lemma LdapMessage_probe_panic:
  "2 \<le> m \<Longrightarrow> LdapMessage_parse [0x30, 0x02, 0x02, 0x01, x] m = Panic"
proof -
  assume "2 \<le> m"
  moreover have "LdapLength_parse [0x02, 0x02, 0x01, x] = Ok \<lparr>LdapLength_value = 2, LdapLength_encoded_len = 1\<rparr>"
    by (simp add: LdapLength_parse_def BerLength_parse_eq ber_length_reference_def)
  moreover have "BerInteger_parse [0x02, 0x01] = Panic"
    by (simp add: BerInteger_parse_def BerInteger_parse_panic_iff BerLength_parse_eq ber_length_reference_def)
  ultimately show ?thesis
    by (simp add: LdapMessage_parse_panic_iff)
qed

lemma ldap_probe:
  assumes "2 \<le> ldap_request_msg (data0_size_limit config)"
  shows "snd (check_client_initial_data ProtocolInspector_default config 389 [0x30, 0x02, 0x02, 0x01, x]) = Panic"
proof -
  let ?d = "[0x30, 0x02, 0x02, 0x01, x]"
  let ?check = "\<lambda>s p. check_client_initial_data_for_protocol s p ?d (data0_size_limit config)"
  have "client_guesses ProtocolInspector_default 389 = MP_Ldap # GUESS_PROTOCOL_FOR_CLIENT_INITIAL_DATA"
    by (simp add: client_guesses_def ProtocolInspector_default_def ProtocolInspector_new_def tcp_server_ports)
  moreover have "snd (check_ldap_tcp_request_message \<lparr>PIS_current = Some MP_Ldap, PIS_excluded = {}\<rparr> ?d
      (data0_size_limit config)) = Panic"
    using LdapMessage_probe_panic [OF assms, of x] by (simp add: ldap_panic_iff)
  then obtain st where "check_ldap_tcp_request_message \<lparr>PIS_current = Some MP_Ldap, PIS_excluded = {}\<rparr> ?d
      (data0_size_limit config) = (st, Panic)"
    by (metis prod.collapse)
  ultimately show ?thesis
    by (simp add: check_client_initial_data_eq fresh_round ProtocolInspector_default_def ProtocolInspector_new_def
        ProtocolInspectState_default_def check_protocol_eqs(4) check_client_initial_data_for_protocol_def excluded_def)
qed

section \<open>A ClientHello in many records\<close>

text \<open>A TLS record of a handshake message: its legacy version and its fragment.\<close>

definition handshake_record :: "(u8 \<times> u8) \<times> bytes \<Rightarrow> bytes" where
  "handshake_record r = 0x16 # fst (fst r) # snd (fst r) # to_be 2 (length (snd r)) @ snd r"

definition record_ok :: "(u8 \<times> u8) \<times> bytes \<Rightarrow> bool" where
  "record_ok r \<longleftrightarrow> check_legacy_version (fst (fst r)) (snd (fst r)) \<noteq> None
     \<and> 0 < length (snd r) \<and> length (snd r) \<le> 16384"

lemma check_fragment_len_to_be:
  "0 < n \<Longrightarrow> n \<le> 16384 \<Longrightarrow> check_fragment_len (of_nat (n div 256)) (of_nat n) = Some n"
  using unat_from_be [of "to_be 2 n", where 'w = 16] be_nat_to_be_id [of n 2]
  by (simp add: check_fragment_len_def to_be_numeral)

lemma handshake_record_simps [simp]:
  "length (handshake_record r) = 5 + length (snd r)"
  "handshake_record r \<noteq> []"
  by (simp_all add: handshake_record_def to_be_numeral)

lemma fill_from_record:
  assumes "record_ok r"
  shows "fill_ssl_client_hello_handshake_header self (handshake_record r @ ext) buf =
    (let n = min (length (snd r)) (length buf) in
     (self, Ok (Some (n, take n (snd r) @ drop n buf))))"
proof -
  obtain v0 v1 f where r: "r = ((v0, v1), f)"
    by (metis prod.collapse)
  let ?d = "0x16 # v0 # v1 # of_nat (length f div 256) # of_nat (length f) # f @ ext"
  have d: "handshake_record r @ ext = ?d"
    by (simp add: handshake_record_def r to_be_numeral)
  have i: "indices ?d [1..<3] = (Ok [v0, v1] :: (bytes, ProtocolInspectError) res)"
      "indices ?d [3..<5] = (Ok [of_nat (length f div 256), of_nat (length f)] :: (bytes, ProtocolInspectError) res)"
    by simp_all
  have c: "check_legacy_version v0 v1 \<noteq> None" "check_fragment_len (of_nat (length f div 256)) (of_nat (length f)) = Some (length f)"
    using assms check_fragment_len_to_be [of "length f"] by (simp_all add: r record_ok_def)
  have s: "slice_from ?d 5 = (Ok (f @ ext) :: (bytes, ProtocolInspectError) res)"
    by simp
  let ?n = "min (length f) (length buf)"
  have m: "copy_nonoverlapping (f @ ext) buf ?n = (Ok (take ?n f @ drop ?n buf) :: (bytes, ProtocolInspectError) res)"
    by (simp add: copy_nonoverlapping_def)
  show ?thesis
    unfolding fill_ssl_client_hello_handshake_header_def Let_def d i s
    using c by (auto simp: r m)
qed

lemma ssl_loop_records:
  assumes "data = pre @ concat (map handshake_record rs) @ rest" and "offset = length pre"
    and "\<forall>r \<in> set rs. record_ok r" and "length got < 6" and "length hdr = 6" and "take (length got) hdr = got"
    and "6 \<le> length (got @ concat (map snd rs))"
  shows "ssl_client_hello_loop self data fragment_len offset (length got) hdr =
    check_ssl_client_hello_full_handshake_header self fragment_len (take 6 (got @ concat (map snd rs)))"
  using assms
proof (induction rs arbitrary: pre offset got hdr)
  case Nil
  then show ?case by simp
next
  case (Cons r rs)
  let ?n = "min (length (snd r)) (6 - length got)"
  let ?more = "concat (map handshake_record rs) @ rest"
  have left: "drop offset data = handshake_record r @ ?more" "offset < length data"
    using Cons.prems(1,2) by simp_all
  have f: "fill_ssl_client_hello_handshake_header self (handshake_record r @ ?more) (drop (length got) hdr) =
      (self, Ok (Some (?n, take ?n (snd r) @ drop ?n (drop (length got) hdr))))"
    using Cons.prems(3,5) by (subst fill_from_record) (auto simp: Let_def)
  let ?hdr = "got @ take ?n (snd r) @ drop ?n (drop (length got) hdr)"
  have len: "length ?hdr = 6"
    using Cons.prems(4,5) by simp
  have step: "ssl_client_hello_loop self data fragment_len offset (length got) hdr =
      (if 6 \<le> length got + ?n then check_ssl_client_hello_full_handshake_header self fragment_len ?hdr
       else ssl_client_hello_loop self data fragment_len (offset + (5 + ?n)) (length got + ?n) ?hdr)"
    using left len Cons.prems(4-6) f
    by (subst ssl_client_hello_loop.simps) (auto simp: Let_def add.commute)
  show ?case
  proof (cases "6 \<le> length got + ?n")
    case True
    then have "?n = 6 - length got" "6 - length got \<le> length (snd r)"
      using Cons.prems(4) by auto
    with Cons.prems(4,5) have hdr: "?hdr = take 6 (got @ concat (map snd (r # rs)))"
      by simp
    show ?thesis
      unfolding step if_P [OF True] hdr ..
  next
    case False
    then have n: "?n = length (snd r)"
      by auto
    have "ssl_client_hello_loop self data fragment_len (offset + (5 + ?n)) (length (got @ snd r)) ?hdr =
        check_ssl_client_hello_full_handshake_header self fragment_len (take 6 ((got @ snd r) @ concat (map snd rs)))"
      using Cons.prems False len n
      by (intro Cons.IH [of "pre @ handshake_record r"]) auto
    with False step n show ?thesis by simp
  qed
qed

definition hello_protocol :: "u8 \<Rightarrow> u8 \<Rightarrow> Protocol option" where
  "hello_protocol major minor =
     (if (major, minor) = (1, 1) then Some P_TlsTlcp
      else if (major, minor) \<in> {(2, 0), (3, 0)} then Some P_SslLegacy
      else if (major, minor) \<in> {(3, 1), (3, 2)} then Some P_TlsLegacy
      else if (major, minor) \<in> {(3, 3), (3, 4)} then Some P_TlsModern
      else None)"

text \<open>The start of a ClientHello: its type, a length that covers the first record, its version.\<close>

definition hello_start :: "nat \<Rightarrow> bytes \<Rightarrow> Protocol \<Rightarrow> bool" where
  "hello_start first_len msg q \<longleftrightarrow>
     6 \<le> length msg \<and> msg ! 0 = 1 \<and> first_len \<le> be_nat (take 3 (drop 1 msg)) + 4
     \<and> hello_protocol (msg ! 4) (msg ! 5) = Some q"

lemma ssl_full_header_hello:
  assumes "hello_start fragment_len msg q" and "take 6 buf = take 6 msg"
  shows "check_ssl_client_hello_full_handshake_header self fragment_len buf = (self, Ok (Some q))"
proof -
  have len: "6 \<le> length msg" "6 \<le> length buf"
    using assms by (auto simp: hello_start_def) (metis length_take min.absorb_iff2 min_def)
  have nth: "buf ! i = msg ! i" if "i < 6" for i
    using assms(2) that by (metis nth_take)
  have l: "take 3 (drop 1 buf) = take 3 (drop 1 msg)"
    using nth len by (intro nth_equalityI) auto
  have v: "take 2 (drop 4 buf) = [msg ! 4, msg ! 5]"
    using nth len by (intro nth_equalityI) (auto simp: less_2_cases_iff numeral_2_eq_2 less_Suc_eq)
  have u: "unat (from_be (0 # take 3 (drop 1 msg)) :: u32) = be_nat (take 3 (drop 1 msg))"
    using unat_from_be [of "0 # take 3 (drop 1 msg)", where 'w = 32] len by simp
  have i: "index buf 0 = (Ok (msg ! 0) :: (u8, ProtocolInspectError) res)"
      "indices buf [1..<4] = (Ok (take 3 (drop 1 msg)) :: (bytes, ProtocolInspectError) res)"
      "indices buf [4..<6] = (Ok [msg ! 4, msg ! 5] :: (bytes, ProtocolInspectError) res)"
    using len nth l v by (auto simp: index_def)
  show ?thesis
    unfolding check_ssl_client_hello_full_handshake_header_def Let_def i
    using assms(1) u by (auto simp: hello_start_def hello_protocol_def split: if_splits)
qed

lemma check_ssl_hello:
  assumes ok: "\<forall>r \<in> set (r # rs). record_ok r"
    and hello: "hello_start (length (snd r)) (concat (map snd (r # rs))) q"
  shows "snd (check_ssl_client_hello self (concat (map handshake_record (r # rs)) @ rest)) = Ok (Some q)"
proof -
  let ?msg = "concat (map snd (r # rs))" and ?data = "concat (map handshake_record (r # rs)) @ rest"
  obtain v0 v1 f where r: "r = ((v0, v1), f)"
    by (metis prod.collapse)
  let ?tail = "concat (map handshake_record rs) @ rest"
  have d: "?data = 0x16 # v0 # v1 # of_nat (length f div 256) # of_nat (length f) # f @ ?tail"
    by (simp add: handshake_record_def r to_be_numeral)
  have sum: "length (concat (map snd rs)) \<le> length (concat (map handshake_record rs))"
    by (induction rs) simp_all
  have len: "11 \<le> length ?data"
    using hello sum by (simp add: hello_start_def r)
  have c: "check_legacy_version v0 v1 \<noteq> None"
      "check_fragment_len (of_nat (length f div 256)) (of_nat (length f)) = Some (length f)" "0 < length f"
    using ok check_fragment_len_to_be [of "length f"] by (auto simp: r record_ok_def)
  have i: "indices ?data [1..<3] = (Ok [v0, v1] :: (bytes, ProtocolInspectError) res)"
      "indices ?data [3..<5] = (Ok [of_nat (length f div 256), of_nat (length f)] :: (bytes, ProtocolInspectError) res)"
      "slice_from ?data 5 = (Ok (f @ ?tail) :: (bytes, ProtocolInspectError) res)"
      "index ?data 0 = (Ok 0x16 :: (u8, ProtocolInspectError) res)"
    unfolding d by simp_all
  show ?thesis
  proof (cases "6 \<le> length f")
    case True
    then have "check_ssl_client_hello_full_handshake_header s (length f) (f @ ?tail) = (s, Ok (Some q))" for s
      using hello by (intro ssl_full_header_hello [of _ ?msg]) (simp_all add: r)
    with True c len show ?thesis
      unfolding check_ssl_client_hello_def Let_def i by auto
  next
    case False
    let ?hdr = "f @ replicate (6 - length f) 0"
    have m: "copy_nonoverlapping (f @ ?tail) (replicate 6 0) (length f) = (Ok ?hdr :: (bytes, ProtocolInspectError) res)"
      using False by (simp add: copy_nonoverlapping_def)
    have "ssl_client_hello_loop s ?data (length f) (5 + length f) (length f) ?hdr =
        check_ssl_client_hello_full_handshake_header s (length f) (take 6 (f @ concat (map snd rs)))" for s
      using ok hello False
      by (intro ssl_loop_records [where pre = "handshake_record r" and rest = rest])
         (auto simp: r hello_start_def)
    moreover have "check_ssl_client_hello_full_handshake_header s (length f) (take 6 (f @ concat (map snd rs))) =
        (s, Ok (Some q))" for s
      using hello False by (intro ssl_full_header_hello [of _ ?msg]) (simp_all add: r min_def)
    ultimately show ?thesis
      using False c len unfolding check_ssl_client_hello_def Let_def i by (auto simp: m)
  qed
qed

lemma other_check_on_tls:
  assumes "plain p" and "p \<noteq> MP_Ssl" and "p \<noteq> MP_Dns"
    and "PIS_current s = Some p" and "MP_Ssl \<notin> PIS_excluded s"
  shows "(\<exists>s'. MP_Ssl \<notin> PIS_excluded s' \<and> client_check s p (0x16 # d) limit = (s', Ok None))
    \<or> (\<exists>n. client_check s p (0x16 # d) limit = (s, Err (NeedMoreData n)))"
proof -
  have g: "MP_Ssl \<notin> PIS_excluded (exclude_current s)"
    using assms by simp
  have b: "check_bind s (index (0x16 # d) 0) k = k 0x16" for k :: "u8 \<Rightarrow> inspection"
    by simp
  show ?thesis
    using assms(1-3) g
    by (cases p)
       (simp_all add: Let_def plain_def give_up_def need_more_def b check_ssh_client_protocol_version_exchange_def
         check_http_request_def check_ldap_tcp_request_message_def check_rtsp_client_setup_request_def
         check_mqtt_client_connect_request_def check_stomp_client_connect_request_def
         check_smpp_session_request_def check_rtmp_tcp_client_handshake_def check_bittorrent_tcp_handshake_def)
qed

lemma check_each_until_tls:
  assumes "\<forall>p \<in> set ps. plain p \<and> p \<noteq> MP_Ssl \<and> p \<noteq> MP_Dns"
    and "MP_Ssl \<notin> PIS_excluded (PI_state self)"
    and hello: "\<And>s. snd (check_ssl_client_hello s (0x16 # d)) = Ok (Some q)"
  shows "snd (check_each (\<lambda>s p. check_client_initial_data_for_protocol s p (0x16 # d) limit) self (ps @ MP_Ssl # qs)) =
    Return (Ok q)"
  using assms(1,2)
proof (induction ps arbitrary: self)
  case Nil
  let ?check = "\<lambda>s p. check_client_initial_data_for_protocol s p (0x16 # d) limit"
  have "snd (?check (PI_state self) MP_Ssl) = Ok (Some q)"
    using Nil hello by (simp add: check_client_initial_data_for_protocol_def excluded_def)
  then obtain st where "?check (PI_state self) MP_Ssl = (st, Ok (Some q))"
    by (metis prod.collapse)
  then show ?case
    by (simp add: check_protocol_eqs(1))
next
  case (Cons p ps)
  let ?check = "\<lambda>s p. check_client_initial_data_for_protocol s p (0x16 # d) limit"
  let ?s = "(PI_state self)\<lparr>PIS_current := Some p\<rparr>"
  have "(\<exists>st. MP_Ssl \<notin> PIS_excluded st \<and> ?check (PI_state self) p = (st, Ok None))
      \<or> (\<exists>st n. MP_Ssl \<notin> PIS_excluded st \<and> ?check (PI_state self) p = (st, Err (NeedMoreData n)))"
    using other_check_on_tls [of p ?s d limit] Cons.prems
    by (auto simp: check_client_initial_data_for_protocol_def)
  then obtain self' where "check_protocol ?check self p = (self', Continue)" "MP_Ssl \<notin> PIS_excluded (PI_state self')"
    using check_protocol_eqs(2,3) [of ?check self p] by fastforce
  with Cons show ?case
    by simp
qed

lemma client_guesses_until_tls:
  assumes "portmap_plain m" and "\<And>v. m port = Some v \<Longrightarrow> PPMV_check_ssl v \<or> MP_Dns \<notin> set (PPMV_protocols v)"
  shows "\<exists>ps qs. client_guesses (ProtocolInspector_new m) port = ps @ MP_Ssl # qs
    \<and> (\<forall>p \<in> set ps. plain p \<and> p \<noteq> MP_Ssl \<and> p \<noteq> MP_Dns)"
proof (cases "m port")
  case None
  then show ?thesis
    by - (rule exI [of _ "[]"], simp add: client_guesses_def ProtocolInspector_new_def GUESS_PROTOCOL_FOR_CLIENT_INITIAL_DATA_def)
next
  case (Some v)
  have e: "\<forall>p \<in> set (PPMV_protocols v). plain p \<and> p \<noteq> MP_Ssl"
    using assms(1) Some by (simp add: portmap_plain_def entry_plain_def)
  show ?thesis
  proof (cases "PPMV_check_ssl v")
    case True
    then show ?thesis
      using Some by - (rule exI [of _ "[]"], simp add: client_guesses_def ProtocolInspector_new_def)
  next
    case False
    with Some assms(2) e show ?thesis
      by - (rule exI [of _ "PPMV_protocols v"], auto simp: client_guesses_def ProtocolInspector_new_def
          GUESS_PROTOCOL_FOR_CLIENT_INITIAL_DATA_def)
  qed
qed

section \<open>A greeting in two pieces\<close>

lemma nntp_round_trip_states:
  assumes "length g \<ge> 5" and "length g \<le> 512" and "g ! 0 = byte CHR ''2''" and "g ! 1 = byte CHR ''0''"
    and "g ! 2 \<in> {byte CHR ''0'', byte CHR ''1''}" and "g ! (length g - 1) \<noteq> 0x0A"
  shows "check_nntp_server_greeting s g =
    (exclude_others (exclude_others s [MP_Ssh, MP_Nntp, MP_Nnsp, MP_Imap, MP_Nats, MP_BitTorrent])
       [MP_Ftp, MP_Smtp, MP_Odmr], Err (NeedMoreData 1))"
proof -
  have "index g i = (Ok (g ! i) :: (u8, ProtocolInspectError) res)" if "i \<in> {0, 1, 2, length g - 1}" for i
    using that assms(1) by (auto simp: index_def)
  with assms show ?thesis
    by (auto simp: check_nntp_server_greeting_def Let_def need_more_def)
qed

lemma nntp_split_rounds:
  assumes "length g \<ge> 5" and "length g \<le> 512" and "g ! 0 = byte CHR ''2''" and "g ! 1 = byte CHR ''0''"
    and "g ! 2 \<in> {byte CHR ''0'', byte CHR ''1''}" and "g ! (length g - 1) \<noteq> 0x0A"
  shows "\<exists>self. check_server_initial_data idna ProtocolInspector_default config 119 g = (self, Err (NeedMoreData 1))
    \<and> (\<forall>d. snd (check_server_initial_data idna self config 119 d) = Ok P_Unknown)"
proof -
  let ?check = "\<lambda>d s p. check_server_initial_data_for_protocol idna s p d (data0_size_limit config)"
  let ?E = "[MP_Ssh, MP_Nntp, MP_Nnsp, MP_Imap, MP_Nats, MP_BitTorrent]" and ?F = "[MP_Ftp, MP_Smtp, MP_Odmr]"
  let ?s0 = "\<lparr>PIS_current = Some MP_Nntp, PIS_excluded = {}\<rparr>"
  let ?s1 = "exclude_others (exclude_others ?s0 ?E) ?F"
  let ?i1 = "ProtocolInspector_default\<lparr>PI_state := ?s1,
      PI_read_pending_set := [\<lparr>RPP_size = 1, RPP_protocol = MP_Nntp\<rparr>]\<rparr>"
  let ?i2 = "?i1\<lparr>PI_guess_protocols := False, PI_read_pending_set := [], PI_state := set_current ?s1 MP_Nntp\<rparr>"
  have g: "server_guesses ProtocolInspector_default 119 = [MP_Nntp, MP_Ssh, MP_Ftp, MP_Nats, MP_BitTorrent]"
    by (simp add: server_guesses_def ProtocolInspector_default_def ProtocolInspector_new_def tcp_server_ports
        GUESS_PROTOCOL_FOR_SERVER_INITIAL_DATA_def)
  have first: "check_protocol (?check g) ProtocolInspector_default MP_Nntp = (?i1, Continue)"
    using nntp_round_trip_states [OF assms, of ?s0]
    by (simp add: check_protocol_def check_server_initial_data_for_protocol_def excluded_def
        ProtocolInspector_default_def ProtocolInspector_new_def ProtocolInspectState_default_def)
  have skip: "check_protocol (?check d) ?i1 p = (?i1, Continue)" if "p \<in> set ?E \<union> set ?F" for p d
  proof -
    have "?check d (PI_state ?i1) p = (?s1, Ok None)"
      using that by (auto simp: check_server_initial_data_for_protocol_def excluded_def)
    then show ?thesis
      using check_protocol_eqs(2) [of "?check d" ?i1 p ?s1] by simp
  qed
  have r1: "check_server_initial_data idna ProtocolInspector_default config 119 g = (?i2, Err (NeedMoreData 1))"
    unfolding check_server_initial_data_eq g
    using first skip
    by (simp add: fresh_round ProtocolInspector_default_def ProtocolInspector_new_def ProtocolInspectState_default_def
        handle_read_pending_def)
  have "check_server_initial_data idna ?i2 config 119 d =
      (?i2\<lparr>PI_state := ?s1\<lparr>PIS_current := None\<rparr>\<rparr>, Ok P_Unknown)" for d
    unfolding check_server_initial_data_eq run_round_def
    by (simp add: check_taken_def take_current_def set_current_def check_protocol_def check_next.simps
        check_server_initial_data_for_protocol_def excluded_def handle_read_pending_def
        ProtocolInspector_default_def ProtocolInspector_new_def)
  with r1 show ?thesis by auto
qed

section \<open>The answer of the reading loop\<close>

text \<open>
  The bytes the reads bring; a loop panics only where a round does, on the bytes read so far. An
  answer is a protocol, not a panic.
\<close>

definition read_bytes :: "read_event list \<Rightarrow> bytes" where
  "read_bytes reads = concat (map (case_read_event (\<lambda>c. c) []) reads)"

lemma read_bytes_simps [simp]:
  "read_bytes [] = []" "read_bytes (Read c # reads) = c @ read_bytes reads"
  "read_bytes (ReadFailed # reads) = read_bytes reads"
  by (simp_all add: read_bytes_def)

lemma inspect_loop_panic:
  assumes "inspect_loop rnd closed_err failed_err self buf reads = Some (self', Panic)" and "I self"
    and "\<And>s d. I s \<Longrightarrow> snd (rnd s d) \<noteq> Panic \<Longrightarrow> I (fst (rnd s d))"
  shows "\<exists>s n. I s \<and> snd (rnd s (take n (buf @ read_bytes reads))) = Panic"
  using assms(1,2)
proof (induction reads arbitrary: self buf)
  case Nil
  then have "snd (rnd self (take (length buf) (buf @ read_bytes []))) = Panic"
    by (auto split: prod.splits res.splits if_splits)
  then show ?case using Nil.prems(2) by blast
next
  case (Cons rd reads)
  obtain s r where r: "rnd self buf = (s, r)" by fastforce
  show ?case
  proof (cases "r = Panic")
    case True
    then have "snd (rnd self (take (length buf) (buf @ read_bytes (rd # reads)))) = Panic" using r by simp
    then show ?thesis using Cons.prems(2) by blast
  next
    case False
    have I: "I s" using assms(3) [OF Cons.prems(2), of buf] r False by simp
    obtain c where c: "rd = Read c" "inspect_loop rnd closed_err failed_err s (buf @ c) reads = Some (self', Panic)"
      using Cons.prems(1) r False
      by (cases rd) (auto split: res.splits if_splits simp del: inspect_loop.simps
          simp: inspect_loop.simps [of _ _ _ self])
    show ?thesis
      using Cons.IH [OF c(2) I] by (simp add: c(1))
  qed
qed

definition answered :: "(ProtocolInspector \<times> (Protocol, ServerTaskError) res) option \<Rightarrow> bool" where
  "answered r \<longleftrightarrow> (\<exists>self' p. r = Some (self', Ok p))"

lemma settled_answered: "settled r \<Longrightarrow> (\<And>self'. r \<noteq> Some (self', Panic)) \<Longrightarrow> answered r"
proof -
  assume *: "settled r" "\<And>self'. r \<noteq> Some (self', Panic)"
  then obtain self' q where "r = Some (self', q)" "\<forall>e. q \<noteq> Err e" by (auto simp: settled_def)
  then show ?thesis using *(2) by (cases q) (auto simp: answered_def)
qed

section \<open>The properties\<close>

text \<open>
  C4. The loops that feed the inspector end with an answer: whatever bytes a server sends in whatever
  pieces (of at most \<open>chunk\<close> bytes), once the buffer and the reads hold as many bytes as the size
  limits ask for, the inspection has named a protocol, unknown included; it never waits for the end of
  an endless first line, and it does not panic. The same holds for the bytes of a client of which no
  beginning is an LDAP message that its parser panics on.
\<close>

theorem inspection_decides:
  assumes "inspector_wf self" and "PI_read_pending_set self = []"
    and "\<forall>r \<in> set reads. \<exists>c. r = Read c \<and> c \<noteq> [] \<and> length c \<le> chunk"
    and "bound = max (client_late_bound (data0_size_limit config)) (server_late_bound (data0_size_limit config))"
    and "length buf \<le> client_late_bound (data0_size_limit config)"
    and "length buf \<le> server_late_bound (data0_size_limit config)"
    and "bound + chunk + 12 \<le> length buf + length (read_bytes reads)"
  shows "answered (inspect_server_data idna config port self buf reads)
    \<and> ((\<forall>n. LdapMessage_parse (take n (buf @ read_bytes reads)) (ldap_request_msg (data0_size_limit config)) \<noteq> Panic)
        \<longrightarrow> answered (inspect_client_data config port self buf reads))"
proof -
  have "length (read_bytes reads) = sum_list (map (case_read_event length 0) reads)"
    unfolding read_bytes_def length_concat map_map
    by (rule arg_cong [where f = sum_list]) (simp split: read_event.split)
  then have "settled (inspect_client_data config port self buf reads)"
    "settled (inspect_server_data idna config port self buf reads)"
    unfolding inspect_client_data_def inspect_server_data_def
    using assms client_rounds.loop_settles [OF assms(2,3), of buf config port]
      server_rounds.loop_settles [OF assms(2,3), of buf config idna port]
    by simp_all
  moreover have "inspect_server_data idna config port self buf reads \<noteq> Some (self', Panic)" for self'
    using inspect_loop_panic [where I = inspector_wf, OF _ assms(1)] inspector_wf_server server_round_no_panic
    unfolding inspect_server_data_def by blast
  moreover have "inspect_client_data config port self buf reads \<noteq> Some (self', Panic)"
    if "\<forall>n. LdapMessage_parse (take n (buf @ read_bytes reads)) (ldap_request_msg (data0_size_limit config)) \<noteq> Panic"
    for self'
    using inspect_loop_panic [where I = inspector_wf, OF _ assms(1)] inspector_wf_client client_round_panic that
    unfolding inspect_client_data_def by blast
  ultimately show ?thesis
    using settled_answered by blast
qed

theorem inspection_decides_witness:
  "answered (inspect_client_data ProtocolInspectionConfig_default 80 ProtocolInspector_default (ascii ''GET /'')
      (replicate 7000 (Read [0x61])))
   \<and> answered (inspect_server_data (\<lambda>_. None) ProtocolInspectionConfig_default 80 ProtocolInspector_default
      (ascii ''GET /'') (replicate 7000 (Read [0x61])))"
proof -
  let ?reads = "replicate 7000 (Read [0x61])" and ?l = "data0_size_limit ProtocolInspectionConfig_default"
  have bounds: "client_late_bound ?l = 6657" "server_late_bound ?l = 2565"
    by (simp_all add: client_late_bound_def server_late_bound_def ProtocolInspectionConfig_default_def
        ProtocolInspectionSizeLimit_default_def)
  have bytes: "length (read_bytes ?reads) = 7000"
    by (simp add: read_bytes_def length_concat sum_list_replicate)
  have http: "LdapMessage_parse (take n (ascii ''GET /'' @ read_bytes ?reads)) (ldap_request_msg ?l) \<noteq> Panic" for n
    by (cases n) (simp_all add: ascii_def LdapMessage_parse_def)
  have "PI_read_pending_set ProtocolInspector_default = []"
    by (simp add: ProtocolInspector_default_def ProtocolInspector_new_def)
  from inspection_decides [OF inspector_default_wf this, of ?reads 1 6657 ProtocolInspectionConfig_default
      "ascii ''GET /''" "\<lambda>_. None" 80] http show ?thesis
    by (simp add: bounds bytes)
qed

text \<open>
  C31. The invariant of the inspector, that it only ever holds protocols with a check of their own, is
  established by \<open>new\<close> on a well formed port map and kept by every operation, an inspection round
  that returns included.
\<close>

theorem inspector_wf_invariant:
  assumes "portmap_plain m" and "inspector_wf self" and "plain p"
  shows "inspector_wf (ProtocolInspector_new m) \<and> inspector_wf ProtocolInspector_default
    \<and> inspector_wf (push_protocol self p) \<and> inspector_wf (push_alpn_protocol self a)
    \<and> inspector_wf (reset_state self) \<and> inspector_wf (set_no_explicit_ssl self)
    \<and> inspector_wf (unset_no_explicit_ssl self)
    \<and> (snd (check_client_initial_data self config port d) \<noteq> Panic
         \<longrightarrow> inspector_wf (fst (check_client_initial_data self config port d)))
    \<and> inspector_wf (fst (check_server_initial_data idna self config port d))"
proof -
  have a: "plain (MaybeProtocol_from_alpn a)"
    by (cases a) (simp_all add: plain_def)
  have "inspector_wf (push_protocol self q)" if "plain q" for q
    using assms(2) that by (auto simp: inspector_wf_def push_protocol_def active_def)
  moreover have "inspector_wf (ProtocolInspector_new m)"
    using assms(1) by (simp add: inspector_wf_def ProtocolInspector_new_def active_def ProtocolInspectState_default_def)
  moreover have "inspector_wf (reset_state self)" "inspector_wf (set_no_explicit_ssl self)"
      "inspector_wf (unset_no_explicit_ssl self)"
    using assms(2)
    by (auto simp: inspector_wf_def reset_state_def ProtocolInspectState_reset_state_def set_no_explicit_ssl_def
        unset_no_explicit_ssl_def active_def)
  ultimately show ?thesis
    using assms a inspector_default_wf inspector_wf_client inspector_wf_server server_round_no_panic
    by (simp add: push_alpn_protocol_def)
qed

theorem inspector_wf_invariant_witness:
  "inspector_wf (push_alpn_protocol ProtocolInspector_default Alpn_Http2)
    \<and> inspector_wf (fst (check_server_initial_data (\<lambda>_. None) ProtocolInspector_default
        ProtocolInspectionConfig_default 25 (ascii ''220 mail'')))"
  using inspector_wf_invariant [OF portmap_plain_empty inspector_default_wf, of MP_Http Alpn_Http2
      ProtocolInspectionConfig_default 25 "ascii ''220 mail''" "\<lambda>_. None"]
  by (simp add: plain_def)

text \<open>
  C14. Which first bytes can make the inspector panic. The server side never does. The client side only
  does when the LDAP check meets a complete message whose message id has no content byte; every
  other check reads inside the data, on any bytes.
\<close>

theorem inspection_panics_only_on_ldap:
  assumes "inspector_wf self"
  shows "snd (check_server_initial_data idna self config port d) \<noteq> Panic
    \<and> (snd (check_client_initial_data self config port d) = Panic \<longrightarrow>
         5 \<le> length d \<and> LdapMessage_parse d (ldap_request_msg (data0_size_limit config)) = Panic)"
  using server_round_no_panic [OF assms] client_round_panic [OF assms] by blast

theorem inspection_panics_only_on_ldap_witness:
  "snd (check_client_initial_data ProtocolInspector_default ProtocolInspectionConfig_default 389
     [0x30, 0x03, 0x02]) \<noteq> Panic"
  using inspection_panics_only_on_ldap [OF inspector_default_wf, of "\<lambda>_. None" ProtocolInspectionConfig_default 389
      "[0x30, 0x03, 0x02]"]
  by simp

text \<open>
  Five bytes from a client on the LDAP port make the inspector panic: a message of two content
  bytes that hold the tag and the length of the message id and not the id, and any fifth byte.
\<close>

lemma ldap_probe_panics:
  "snd (check_client_initial_data ProtocolInspector_default ProtocolInspectionConfig_default 389
     [0x30, 0x02, 0x02, 0x01, x]) = Panic"
  by (rule ldap_probe) (simp add: ProtocolInspectionConfig_default_def ProtocolInspectionSizeLimit_default_def)

text \<open>
  C9. A TLS ClientHello is recognised by a fresh inspector on every port (ports where plain DNS is
  tried before TLS excepted), with the version it offers, even if its first bytes are spread over
  many records: records of any sizes whose fragments together start like a ClientHello that covers
  the first record, whatever follows them.
\<close>

theorem tls_client_hello_identified:
  assumes "portmap_plain m"
    and "\<And>v. m port = Some v \<Longrightarrow> PPMV_check_ssl v \<or> MP_Dns \<notin> set (PPMV_protocols v)"
    and "\<forall>r \<in> set (r # rs). record_ok r"
    and "hello_start (length (snd r)) (concat (map snd (r # rs))) q"
  shows "snd (check_client_initial_data (ProtocolInspector_new m) config port
    (concat (map handshake_record (r # rs)) @ rest)) = Ok q"
proof -
  let ?data = "concat (map handshake_record (r # rs)) @ rest"
  obtain d where d: "?data = 0x16 # d"
    by (simp add: handshake_record_def)
  obtain ps qs where g: "client_guesses (ProtocolInspector_new m) port = ps @ MP_Ssl # qs"
      "\<forall>p \<in> set ps. plain p \<and> p \<noteq> MP_Ssl \<and> p \<noteq> MP_Dns"
    using client_guesses_until_tls [OF assms(1,2)] by blast
  let ?check = "\<lambda>s p. check_client_initial_data_for_protocol s p ?data (data0_size_limit config)"
  have "snd (check_each ?check (ProtocolInspector_new m) (ps @ MP_Ssl # qs)) = Return (Ok q)"
    using check_ssl_hello [OF assms(3,4), of _ rest] unfolding d
    by (intro check_each_until_tls [OF g(2)]) (simp_all add: ProtocolInspector_new_def ProtocolInspectState_default_def)
  then show ?thesis
    unfolding check_client_initial_data_eq g(1)
    by (subst fresh_round)
       (simp_all add: ProtocolInspector_new_def ProtocolInspectState_default_def flow_bind_cases)
qed

theorem tls_client_hello_identified_witness:
  "snd (check_client_initial_data (ProtocolInspector_new ProtocolPortMap_empty) ProtocolInspectionConfig_default 443
     ([0x16, 3, 1, 0, 2, 1, 0] @ [0x16, 3, 1, 0, 5, 0, 0x7C, 3, 3, 0xAA])) = Ok P_TlsModern"
  using tls_client_hello_identified [OF portmap_plain_empty, where port = 443 and r = "((3, 1), [1, 0])"
      and rs = "[((3, 1), [0, 0x7C, 3, 3, 0xAA])]" and q = P_TlsModern and rest = "[]"
      and config = ProtocolInspectionConfig_default]
  by (simp add: ProtocolPortMap_empty_def record_ok_def check_legacy_version_def hello_start_def hello_protocol_def
      handshake_record_def to_be_numeral)

text \<open>
  C32. An NNTP greeting that arrives in two pieces is not recognised: the check excludes NNTP itself
  before it asks for the rest of the line, so the next round skips it and gives up. (In one piece the
  same greeting is recognised.)
\<close>

theorem nntp_split_greeting_lost:
  assumes "5 \<le> length g" and "length (g @ e) \<le> 512" and "g ! 0 = byte CHR ''2''" and "g ! 1 = byte CHR ''0''"
    and "g ! 2 \<in> {byte CHR ''0'', byte CHR ''1''}" and "g ! (length g - 1) \<noteq> 0x0A"
    and "\<exists>l. g @ e = l @ [0x0D, 0x0A]"
  shows "(\<exists>self. inspect_server_data idna config 119 ProtocolInspector_default g [Read e] = Some (self, Ok P_Unknown))
    \<and> snd (check_server_initial_data idna ProtocolInspector_default config 119 (g @ e)) = Ok P_Nntp"
proof
  have e: "e \<noteq> []"
    using assms(6,7) by (metis append.right_neutral append_is_Nil_conv last.simps last_appendR last_conv_nth list.discI)
  obtain self where s: "check_server_initial_data idna ProtocolInspector_default config 119 g = (self, Err (NeedMoreData 1))"
      "\<And>d. snd (check_server_initial_data idna self config 119 d) = Ok P_Unknown"
    using nntp_split_rounds [of g idna config] assms(1-6) by auto
  then show "\<exists>self. inspect_server_data idna config 119 ProtocolInspector_default g [Read e] = Some (self, Ok P_Unknown)"
    using e assms(1) s(2) [of "g @ e"]
    by (cases "check_server_initial_data idna self config 119 (g @ e)") (auto simp: inspect_server_data_def)
next
  let ?check = "\<lambda>s p. check_server_initial_data_for_protocol idna s p (g @ e) (data0_size_limit config)"
  obtain l where l: "g @ e = l @ [0x0D, 0x0A]"
    using assms(7) by blast
  let ?n = "length (g @ e)"
  have i: "index (g @ e) 0 = (Ok (g ! 0) :: (u8, ProtocolInspectError) res)"
      "index (g @ e) 1 = (Ok (g ! 1) :: (u8, ProtocolInspectError) res)"
      "index (g @ e) 2 = (Ok (g ! 2) :: (u8, ProtocolInspectError) res)"
    using assms(1) by (auto simp: index_def nth_append)
  have t: "index (g @ e) (?n - 1) = (Ok 0x0A :: (u8, ProtocolInspectError) res)"
      "index (g @ e) (?n - 2) = (Ok 0x0D :: (u8, ProtocolInspectError) res)"
    unfolding l by (simp_all add: index_def nth_append)
  have "snd (check_nntp_server_greeting s (g @ e)) = Ok (Some P_Nntp)" for s
    unfolding check_nntp_server_greeting_def Let_def i t
    using assms(1-5) by auto
  then have "snd (?check ProtocolInspectState_default MP_Nntp) = Ok (Some P_Nntp)"
    by (simp add: check_server_initial_data_for_protocol_def excluded_def ProtocolInspectState_default_def)
  then obtain st where "?check ProtocolInspectState_default MP_Nntp = (st, Ok (Some P_Nntp))"
    by (metis prod.collapse)
  moreover have "server_guesses ProtocolInspector_default 119 = MP_Nntp # GUESS_PROTOCOL_FOR_SERVER_INITIAL_DATA"
    by (simp add: server_guesses_def ProtocolInspector_default_def ProtocolInspector_new_def tcp_server_ports)
  ultimately show "snd (check_server_initial_data idna ProtocolInspector_default config 119 (g @ e)) = Ok P_Nntp"
    unfolding check_server_initial_data_eq
    by (simp add: fresh_round ProtocolInspector_default_def ProtocolInspector_new_def ProtocolInspectState_default_def
        check_protocol_eqs(1))
qed

theorem nntp_split_greeting_lost_witness:
  "(\<exists>self. inspect_server_data (\<lambda>_. None) ProtocolInspectionConfig_default 119 ProtocolInspector_default
      (ascii ''200 news'') [Read (ascii '' ready'' @ [0x0D, 0x0A])] = Some (self, Ok P_Unknown))
    \<and> snd (check_server_initial_data (\<lambda>_. None) ProtocolInspector_default ProtocolInspectionConfig_default 119
      (ascii ''200 news ready'' @ [0x0D, 0x0A])) = Ok P_Nntp"
  using nntp_split_greeting_lost [of "ascii ''200 news''" "ascii '' ready'' @ [0x0D, 0x0A]" "\<lambda>_. None"
      ProtocolInspectionConfig_default]
  by (simp add: ascii_def)

end
