(* ===== verification/Atomic_Cell.thy ===== *)
theory Atomic_Cell
  imports Rust_Prelude
begin

text \<open>
  A shared atomic integer and the calls that update it in a load / compare-exchange loop: the
  semaphores, token buckets and rate limiters of the proxy are such cells. One pass of such a loop
  either returns without writing (\<open>Give_Up\<close>) or proposes a new value (\<open>Exchange\<close>). The steps
  of the threads interleave at the accesses to the cell; the theorems show that the calls still
  behave as if each ran alone at one moment, and that the threads together always get on.
\<close>

section \<open>Calls and threads\<close>

datatype ('v, 'r) attempt = Give_Up 'r | Exchange 'v 'r

type_synonym ('c, 'v, 'r) loop_body = "'c \<Rightarrow> 'v \<Rightarrow> ('v, 'r) attempt"

text \<open>The call on its own: no other thread writes between the load and the exchange.\<close>

definition atomic_call :: "('c, 'v, 'r) loop_body \<Rightarrow> 'c \<Rightarrow> 'v \<Rightarrow> 'v \<times> 'r" where
  "atomic_call body c v = (case body c v of Give_Up r \<Rightarrow> (v, r) | Exchange v' r \<Rightarrow> (v', r))"

fun sequential :: "('c, 'v, 'r) loop_body \<Rightarrow> 'v \<Rightarrow> ('c \<times> 'r) list \<Rightarrow> 'v \<Rightarrow> bool" where
  "sequential body v [] v' \<longleftrightarrow> v' = v"
| "sequential body v ((c, r) # es) v' \<longleftrightarrow>
     snd (atomic_call body c v) = r \<and> sequential body (fst (atomic_call body c v)) es v'"

text \<open>A thread is outside the loop, or about to compare-exchange the value it read last.\<close>

datatype ('v, 'c) thread = Idle | Trying 'c 'v

definition resume :: "('c, 'v, 'r) loop_body \<Rightarrow> 'c \<Rightarrow> 'v \<Rightarrow> ('v, 'c) thread \<times> ('c \<times> 'r) option" where
  "resume body c v =
     (case body c v of Give_Up r \<Rightarrow> (Idle, Some (c, r)) | Exchange _ _ \<Rightarrow> (Trying c v, None))"

text \<open>
  The accesses to the cell: the first load of a call, an exchange that finds the value it expects, an
  exchange that finds another one and starts over, and the calls that are one instruction
  (\<open>fetch_sub\<close>). A step that completes a call is labelled with the call and its result.
\<close>

inductive cell_step ::
  "('c, 'v, 'r) loop_body \<Rightarrow> ('c \<Rightarrow> bool) \<Rightarrow> 'v \<times> ('v, 'c) thread list \<Rightarrow> ('c \<times> 'r) option
    \<Rightarrow> 'v \<times> ('v, 'c) thread list \<Rightarrow> bool"
  for body rmw where
  load: "i < length ths \<Longrightarrow> ths ! i = Idle \<Longrightarrow> \<not> rmw c \<Longrightarrow> resume body c v = (th, e)
    \<Longrightarrow> cell_step body rmw (v, ths) e (v, ths[i := th])"
| exchange: "i < length ths \<Longrightarrow> ths ! i = Trying c v \<Longrightarrow> body c v = Exchange v' r
    \<Longrightarrow> cell_step body rmw (v, ths) (Some (c, r)) (v', ths[i := Idle])"
| retry: "i < length ths \<Longrightarrow> ths ! i = Trying c w \<Longrightarrow> w \<noteq> v \<Longrightarrow> resume body c v = (th, e)
    \<Longrightarrow> cell_step body rmw (v, ths) e (v, ths[i := th])"
| rmw: "i < length ths \<Longrightarrow> ths ! i = Idle \<Longrightarrow> rmw c \<Longrightarrow> body c v = Exchange v' r
    \<Longrightarrow> cell_step body rmw (v, ths) (Some (c, r)) (v', ths)"

text \<open>
  A run of \<open>n\<close> steps with the calls it completes, in the order of their last access to the cell. An
  exchange that fails for no reason (\<open>compare_exchange_weak\<close>) reads the value it had and leaves the
  state as it is, so it is not a step.
\<close>

inductive cell_run ::
  "('c, 'v, 'r) loop_body \<Rightarrow> ('c \<Rightarrow> bool) \<Rightarrow> nat \<Rightarrow> 'v \<times> ('v, 'c) thread list \<Rightarrow> ('c \<times> 'r) list
    \<Rightarrow> 'v \<times> ('v, 'c) thread list \<Rightarrow> bool"
  for body rmw where
  start: "cell_run body rmw 0 s [] s"
| silent: "cell_run body rmw n s es s' \<Longrightarrow> cell_step body rmw s' None s'' \<Longrightarrow> cell_run body rmw (Suc n) s es s''"
| complete: "cell_run body rmw n s es s' \<Longrightarrow> cell_step body rmw s' (Some e) s''
    \<Longrightarrow> cell_run body rmw (Suc n) s (es @ [e]) s''"

inductive_cases cell_step_NoneE: "cell_step body rmw s None s'"
inductive_cases cell_step_SomeE: "cell_step body rmw s (Some e) s'"

section \<open>The calls are atomic\<close>

lemma sequential_append [simp]:
  "sequential body v (es @ es') v' \<longleftrightarrow> (\<exists>w. sequential body v es w \<and> sequential body w es' v')"
  by (induction body v es v' rule: sequential.induct) auto

lemma resume_cases:
  assumes "resume body c v = (th, e)"
  obtains (given_up) r where "body c v = Give_Up r" "th = Idle" "e = Some (c, r)"
    | (trying) v' r where "body c v = Exchange v' r" "th = Trying c v" "e = None"
  using assms by (auto simp: resume_def split: attempt.splits)

lemma cell_step_None: "cell_step body rmw s None s' \<Longrightarrow> fst s' = fst s"
  by (auto elim!: cell_step_NoneE)

lemma cell_step_Some:
  "cell_step body rmw s (Some (c, r)) s' \<Longrightarrow> atomic_call body c (fst s) = (fst s', r)"
  by (auto elim!: cell_step_SomeE resume_cases simp: atomic_call_def)

text \<open>Every interleaving is explained by running the completed calls one after the other.\<close>

theorem cell_run_sequential:
  "cell_run body rmw n s es s' \<Longrightarrow> sequential body (fst s) es (fst s')"
proof (induction rule: cell_run.induct)
  case (complete n s es s' e s'')
  then show ?case
    by (cases e) (auto dest!: cell_step_Some)
qed (auto dest: cell_step_None)

section \<open>The threads get on\<close>

fun lag :: "'v \<Rightarrow> ('v, 'c) thread \<Rightarrow> nat" where
  "lag v Idle = 2"
| "lag v (Trying c w) = (if w = v then 0 else 1)"

definition total_lag :: "'v \<times> ('v, 'c) thread list \<Rightarrow> nat" where
  "total_lag s = sum_list (map (lag (fst s)) (snd s))"

lemma lag_change: "lag v th \<le> Suc (lag w th)" "lag v th \<le> 2"
  by (cases th; simp)+

lemma sum_list_map_mono: "(\<And>x. x \<in> set xs \<Longrightarrow> f x \<le> (g x :: nat)) \<Longrightarrow> sum_list (map f xs) \<le> sum_list (map g xs)"
  by (induction xs) (auto intro: add_mono)

lemma total_lag_change: "total_lag (v, ths) \<le> length ths + total_lag (w, ths)"
proof -
  have "sum_list (map (lag v) ths) \<le> sum_list (map (\<lambda>th. Suc (lag w th)) ths)"
    by (intro sum_list_map_mono) (simp add: lag_change)
  also have "\<dots> = length ths + sum_list (map (lag w) ths)"
    by (induction ths) auto
  finally show ?thesis
    by (simp add: total_lag_def)
qed

lemma total_lag_update:
  "i < length ths \<Longrightarrow> total_lag (v, ths[i := th]) + lag v (ths ! i) = total_lag (v, ths) + lag v th"
proof (induction ths arbitrary: i)
  case (Cons a ths)
  then show ?case
    by (cases i) (force simp: total_lag_def)+
qed simp

lemma silent_lag: "cell_step body rmw s None s' \<Longrightarrow> Suc (total_lag s') \<le> total_lag s"
proof (erule cell_step_NoneE, goal_cases)
  case (1 i ths c v th)
  then have "th = Trying c v"
    by (auto elim: resume_cases)
  with 1 total_lag_update [of i ths v th] show ?case
    by simp
next
  case (2 i ths c w v th)
  then have "th = Trying c v"
    by (auto elim: resume_cases)
  with 2 total_lag_update [of i ths v th] show ?case
    by simp
qed

lemma cell_step_threads: "cell_step body rmw s e s' \<Longrightarrow> length (snd s') = length (snd s)"
  by (auto elim: cell_step.cases)

lemma complete_lag: "cell_step body rmw s (Some e) s' \<Longrightarrow> total_lag s' \<le> total_lag s + length (snd s) + 2"
proof (erule cell_step_SomeE, goal_cases)
  case (1 i ths c v th)
  with total_lag_update [of i ths v th] lag_change(2) [of v th] show ?case
    by simp
next
  case (2 i ths c v v' r)
  with total_lag_update [of i ths v' Idle] total_lag_change [of v' ths v] show ?case
    by simp
next
  case (3 i ths c w v th)
  with total_lag_update [of i ths v th] lag_change(2) [of v th] show ?case
    by simp
next
  case (4 i ths c v v' r)
  with total_lag_change [of v' ths v] show ?case
    by simp
qed

lemma cell_run_lag:
  "cell_run body rmw n s es s' \<Longrightarrow>
     length (snd s') = length (snd s) \<and> n + total_lag s' \<le> total_lag s + (length (snd s) + 3) * length es"
proof (induction rule: cell_run.induct)
  case (silent n s es s' s'')
  then show ?case
    using silent_lag [OF silent.hyps(2)] cell_step_threads [OF silent.hyps(2)] by simp
next
  case (complete n s es s' e s'')
  then show ?case
    using complete_lag [OF complete.hyps(2)] cell_step_threads [OF complete.hyps(2)] by simp
qed simp

text \<open>
  A run that takes many steps completes many calls: threads cannot keep each other in their loops.
\<close>

theorem cell_run_lock_free:
  assumes "cell_run body rmw n s es s'"
    and "2 * length (snd s) + (length (snd s) + 3) * k < n"
  shows "k < length es"
proof (rule ccontr)
  assume "\<not> k < length es"
  then have "(length (snd s) + 3) * length es \<le> (length (snd s) + 3) * k"
    by (intro mult_le_mono) auto
  moreover have "total_lag s \<le> sum_list (map (\<lambda>_. 2) (snd s))"
    unfolding total_lag_def by (intro sum_list_map_mono) (simp add: lag_change)
  then have "total_lag s \<le> 2 * length (snd s)"
    by (simp add: sum_list_triv)
  ultimately show False
    using cell_run_lag [OF assms(1)] assms(2) by linarith
qed

text \<open>A call that runs alone ends after its load and one exchange.\<close>

lemma cell_run_alone:
  assumes "i < length ths" and "ths ! i = Idle" and "\<not> rmw c"
  shows "\<exists>n \<le> 2. cell_run body rmw n (v, ths) [(c, snd (atomic_call body c v))]
    (fst (atomic_call body c v), ths)"
proof (cases "body c v")
  case (Give_Up r)
  then have "cell_step body rmw (v, ths) (Some (c, r)) (v, ths[i := Idle])"
    using assms by (intro cell_step.load) (auto simp: resume_def)
  then have "cell_run body rmw (Suc 0) (v, ths) ([] @ [(c, r)]) (v, ths)"
    using assms(2) by (intro cell_run.complete [OF cell_run.start]) (metis list_update_id)
  with Give_Up show ?thesis
    by (auto simp: atomic_call_def intro!: exI [of _ "Suc 0"])
next
  case (Exchange v' r)
  then have "cell_step body rmw (v, ths) None (v, ths[i := Trying c v])"
    using assms by (intro cell_step.load) (auto simp: resume_def)
  then have "cell_run body rmw (Suc 0) (v, ths) [] (v, ths[i := Trying c v])"
    by (rule cell_run.silent [OF cell_run.start])
  moreover have "cell_step body rmw (v, ths[i := Trying c v]) (Some (c, r)) (v', ths[i := Trying c v, i := Idle])"
    using assms(1) Exchange by (intro cell_step.exchange) auto
  ultimately have "cell_run body rmw (Suc (Suc 0)) (v, ths) ([] @ [(c, r)]) (v', ths)"
    using assms(2) cell_run.complete by (metis list_update_id list_update_overwrite)
  with Exchange show ?thesis
    by (auto simp: atomic_call_def intro!: exI [of _ "Suc (Suc 0)"])
qed

lemma cell_run_trans:
  "cell_run body rmw m s' es' s'' \<Longrightarrow> cell_run body rmw n s es s' \<Longrightarrow> cell_run body rmw (n + m) s (es @ es') s''"
proof (induction rule: cell_run.induct)
  case (silent m s' es' s1 s2)
  then show ?case
    using cell_run.silent by fastforce
next
  case (complete m s' es' s1 e s2)
  then show ?case
    using cell_run.complete [of body rmw "n + m" s "es @ es'" s1 e s2] by simp
qed simp

text \<open>Conversely every sequence of calls is a run, of a single thread.\<close>

lemma sequential_cell_run:
  assumes "sequential body v es v'" and "\<And>c. \<not> rmw c"
  shows "\<exists>n. cell_run body rmw n (v, [Idle]) es (v', [Idle])"
  using assms(1)
proof (induction es arbitrary: v)
  case Nil
  then show ?case
    by (auto intro: cell_run.start)
next
  case (Cons e es)
  obtain c r where e: "e = (c, r)"
    by (cases e)
  let ?w = "fst (atomic_call body c v)"
  have "sequential body ?w es v'" and r: "r = snd (atomic_call body c v)"
    using Cons.prems e by auto
  then obtain m where m: "cell_run body rmw m (?w, [Idle]) es (v', [Idle])"
    using Cons.IH by blast
  obtain n where "cell_run body rmw n (v, [Idle]) [(c, snd (atomic_call body c v))] (?w, [Idle])"
    using cell_run_alone [of 0 "[Idle]" rmw c body v] assms(2) by auto
  from cell_run_trans [OF m this] show ?case
    using e r by auto
qed

section \<open>Cells with an invariant and an account\<close>

text \<open>
  What a component promises of its cell: every pass of a loop keeps the invariant, and what a call
  puts into the cell and what it takes out of it account for the change of the value.
\<close>

locale accounted_cell =
  fixes body :: "('c, nat, 'r) loop_body" and inv :: "nat \<Rightarrow> bool"
    and takes :: "'c \<times> 'r \<Rightarrow> nat" and gives :: "'c \<times> 'r \<Rightarrow> nat"
  assumes inv_exchange: "inv v \<Longrightarrow> body c v = Exchange v' r \<Longrightarrow> inv v'"
    and exchange_account: "body c v = Exchange v' r \<Longrightarrow> v' + takes (c, r) \<le> v + gives (c, r)"
    and give_up_account: "body c v = Give_Up r \<Longrightarrow> takes (c, r) = 0"
begin

lemma atomic_call_account:
  "atomic_call body c v = (v', r) \<Longrightarrow> v' + takes (c, r) \<le> v + gives (c, r) \<and> (inv v \<longrightarrow> inv v')"
  using exchange_account [of c v v' r] give_up_account [of c v r] inv_exchange [of v c v' r]
  by (auto simp: atomic_call_def split: attempt.splits)

lemma sequential_account:
  "sequential body v es v' \<Longrightarrow>
     v' + sum_list (map takes es) \<le> v + sum_list (map gives es) \<and> (inv v \<longrightarrow> inv v')"
proof (induction es arbitrary: v)
  case (Cons e es)
  obtain c r where e: "e = (c, r)"
    by (cases e)
  obtain w where w: "atomic_call body c v = (w, r)"
    using Cons.prems e by (cases "atomic_call body c v") auto
  show ?case
    using atomic_call_account [OF w] Cons.IH [of w] Cons.prems e w by auto
qed simp

lemma run_account:
  "cell_run body rmw n s es s' \<Longrightarrow>
     fst s' + sum_list (map takes es) \<le> fst s + sum_list (map gives es) \<and> (inv (fst s) \<longrightarrow> inv (fst s'))"
  by (rule sequential_account) (rule cell_run_sequential)

end

end
