(* ===== verification/Gauge_Semaphore.thy ===== *)
theory Gauge_Semaphore
  imports Atomic_Cell "HOL-Library.Multiset"
begin

text \<open>
  The counting semaphore of \<open>g3-types/src/limit/gauge_semaphore.rs\<close>. Semaphores made by
  \<open>new_updated\<close> share one gauge, so the gauge is the cell, and a call carries the number of permits
  of the semaphore it is made on. \<open>try_acquire_n\<close> is a compare-exchange loop, the drop of a permit one
  instruction.
\<close>

section \<open>The semaphore\<close>

datatype GaugeSemaphoreAcquireError = Overflow | NoPermits

record GaugeSemaphorePermit =
  GSP_count :: nat
  GSP_gauge :: nat

record GaugeSemaphore =
  GS_permits :: nat
  GS_gauge :: nat

text \<open>\<open>GS_gauge\<close> names the shared cell; a store gives each cell its value.\<close>

type_synonym gauges = "nat \<Rightarrow> nat"

definition GaugeSemaphore_new :: "gauges \<Rightarrow> nat \<Rightarrow> nat \<Rightarrow> gauges \<times> GaugeSemaphore" where
  "GaugeSemaphore_new gs a permits = (gs(a := 0), \<lparr>GS_permits = permits, GS_gauge = a\<rparr>)"

definition GaugeSemaphore_new_updated :: "GaugeSemaphore \<Rightarrow> nat \<Rightarrow> GaugeSemaphore" where
  "GaugeSemaphore_new_updated self permits = \<lparr>GS_permits = permits, GS_gauge = GS_gauge self\<rparr>"

text \<open>One pass of the loop of \<open>try_acquire_n\<close>.\<close>

definition try_acquire_n_pass ::
  "nat \<Rightarrow> nat \<Rightarrow> nat \<Rightarrow> (nat, (nat, GaugeSemaphoreAcquireError) res) attempt" where
  "try_acquire_n_pass permits num_permits cur =
     (case checked_add cur num_permits of
        None \<Rightarrow> Give_Up (Err Overflow)
      | Some next \<Rightarrow>
          if 0 < permits \<and> permits < next then Give_Up (Err NoPermits)
          else Exchange next (Ok num_permits))"

text \<open>\<open>fetch_sub\<close> wraps around.\<close>

definition permit_drop_pass :: "nat \<Rightarrow> nat \<Rightarrow> (nat, (nat, GaugeSemaphoreAcquireError) res) attempt" where
  "permit_drop_pass num cur = Exchange ((cur + 2 ^ 64 - num) mod 2 ^ 64) (Ok num)"

datatype sem_call = TryAcquireN nat nat | DropPermit nat

fun sem_body :: "(sem_call, nat, (nat, GaugeSemaphoreAcquireError) res) loop_body" where
  "sem_body (TryAcquireN permits num_permits) cur = try_acquire_n_pass permits num_permits cur"
| "sem_body (DropPermit num) cur = permit_drop_pass num cur"

fun is_drop :: "sem_call \<Rightarrow> bool" where
  "is_drop (DropPermit num) = True"
| "is_drop (TryAcquireN permits num_permits) = False"

text \<open>The operations as one caller sees them.\<close>

definition try_acquire_n ::
  "gauges \<Rightarrow> GaugeSemaphore \<Rightarrow> nat \<Rightarrow> gauges \<times> (GaugeSemaphorePermit, GaugeSemaphoreAcquireError) res" where
  "try_acquire_n gs self num_permits =
     (let (v, r) = atomic_call sem_body (TryAcquireN (GS_permits self) num_permits) (gs (GS_gauge self)) in
      (gs(GS_gauge self := v), res_bind r (\<lambda>num. Ok \<lparr>GSP_count = num, GSP_gauge = GS_gauge self\<rparr>)))"

definition try_acquire ::
  "gauges \<Rightarrow> GaugeSemaphore \<Rightarrow> gauges \<times> (GaugeSemaphorePermit, GaugeSemaphoreAcquireError) res" where
  "try_acquire gs self = try_acquire_n gs self 1"

definition GaugeSemaphorePermit_drop :: "gauges \<Rightarrow> GaugeSemaphorePermit \<Rightarrow> gauges" where
  "GaugeSemaphorePermit_drop gs p =
     gs(GSP_gauge p := fst (atomic_call sem_body (DropPermit (GSP_count p)) (gs (GSP_gauge p))))"

definition available_permits :: "gauges \<Rightarrow> GaugeSemaphore \<Rightarrow> nat option" where
  "available_permits gs self =
     (if GS_permits self = 0 then None else Some (GS_permits self - gs (GS_gauge self)))"

section \<open>Threads that share a gauge\<close>

text \<open>
  The states that threads reach when they acquire permits through semaphores with one of the permit
  counts \<open>P\<close> and drop permits they hold, in any interleaving. \<open>held\<close> is the multiset of the counts
  of the permits that exist.
\<close>

inductive sem_reach :: "nat set \<Rightarrow> nat \<times> (nat, sem_call) thread list \<Rightarrow> nat multiset \<Rightarrow> bool" for P where
  new: "\<forall>th \<in> set ths. th = Idle \<Longrightarrow> sem_reach P (0, ths) {#}"
| silent: "sem_reach P s held \<Longrightarrow> cell_step sem_body is_drop s None s' \<Longrightarrow> sem_reach P s' held"
| acquired: "sem_reach P s held \<Longrightarrow> p \<in> P \<Longrightarrow> cell_step sem_body is_drop s (Some (TryAcquireN p n, Ok k)) s'
    \<Longrightarrow> sem_reach P s' (add_mset k held)"
| refused: "sem_reach P s held \<Longrightarrow> cell_step sem_body is_drop s (Some (TryAcquireN p n, Err e)) s'
    \<Longrightarrow> sem_reach P s' held"
| dropped: "sem_reach P s held \<Longrightarrow> n \<in># held \<Longrightarrow> cell_step sem_body is_drop s (Some (DropPermit n, r)) s'
    \<Longrightarrow> sem_reach P s' (held - {#n#})"

lemma try_acquire_n_cases:
  assumes "atomic_call sem_body (TryAcquireN p n) v = (v', r)"
  shows "case r of
      Ok k \<Rightarrow> k = n \<and> v' = v + n \<and> v + n \<le> u64_max \<and> (0 < p \<longrightarrow> v + n \<le> p)
    | Err Overflow \<Rightarrow> v' = v \<and> u64_max < v + n
    | Err NoPermits \<Rightarrow> v' = v \<and> 0 < p \<and> p < v + n
    | Panic \<Rightarrow> False"
  using assms
  by (auto simp: atomic_call_def try_acquire_n_pass_def checked_add_def split: if_splits)

lemma drop_cases:
  assumes "atomic_call sem_body (DropPermit n) v = (v', r)" and "n \<le> v" and "v \<le> u64_max"
  shows "v' = v - n"
proof -
  have "v < 2 ^ 64"
    using assms(3) by (simp add: u64_max_def)
  then have "v - n < 2 ^ 64"
    by (rule le_less_trans [OF diff_le_self])
  moreover have "v + 2 ^ 64 - n = (v - n) + 2 ^ 64"
    using assms(2) by (rule add_diff_assoc2 [symmetric])
  ultimately have "(v + 2 ^ 64 - n) mod 2 ^ 64 = v - n"
    by (simp only: mod_add_self2 mod_less)
  then show ?thesis
    using assms(1) by (simp add: atomic_call_def permit_drop_pass_def)
qed

lemma sum_mset_member_le: "n \<in># held \<Longrightarrow> n \<le> sum_mset (held :: nat multiset)"
  by (auto dest!: multi_member_split)

lemma sem_reach_gauge: "sem_reach P s held \<Longrightarrow> fst s = sum_mset held \<and> fst s \<le> u64_max"
proof (induction rule: sem_reach.induct)
  case (silent s held s')
  then show ?case
    by (auto dest: cell_step_None)
next
  case (acquired s held p n k s')
  then show ?case
    using try_acquire_n_cases [OF cell_step_Some [OF acquired.hyps(3)]] by simp
next
  case (refused s held p n e s')
  then show ?case
    using try_acquire_n_cases [OF cell_step_Some [OF refused.hyps(2)]]
    by (cases e) auto
next
  case (dropped s held n r s')
  moreover have "n \<le> fst s"
    using dropped sum_mset_member_le by metis
  ultimately show ?case
    using drop_cases [OF cell_step_Some [OF dropped.hyps(3)]]
    by (auto simp: sum_mset_diff)
qed simp

lemma sum_mset_remove_le: "sum_mset (held - {#n#}) \<le> sum_mset (held :: nat multiset)"
  by (cases "n \<in># held") (auto simp: sum_mset_diff)

lemma sem_reach_bound:
  assumes "sem_reach P s held" and P: "\<forall>p \<in> P. 0 < p \<and> p \<le> M"
  shows "sum_mset held \<le> M"
  using assms(1)
proof (induction rule: sem_reach.induct)
  case (acquired s held p n k s')
  have "0 < p" "p \<le> M"
    using P acquired.hyps(2) by auto
  then show ?case
    using try_acquire_n_cases [OF cell_step_Some [OF acquired.hyps(3)]] sem_reach_gauge [OF acquired.hyps(1)]
    by simp
next
  case (dropped s held n r s')
  then show ?case
    using sum_mset_remove_le le_trans by blast
qed simp_all

section \<open>The properties\<close>

text \<open>
  C10. Whatever the interleaving of acquiring and dropping threads, the gauge is the number of permits
  that exist. A call succeeds only if they and its own fit the permits of the semaphore, and fails
  only if they do not (or if the gauge would overflow); so while every semaphore on the gauge has at
  most \<open>M\<close> permits, no more than \<open>M\<close> are ever held.
\<close>

theorem semaphore_counts_permits:
  assumes "sem_reach P (g, ths) held"
  shows "g = sum_mset held
    \<and> ((\<forall>p \<in> P. 0 < p \<and> p \<le> M) \<longrightarrow> sum_mset held \<le> M)
    \<and> (cell_step sem_body is_drop (g, ths) (Some (TryAcquireN p n, r)) s' \<longrightarrow>
        (case r of
           Ok k \<Rightarrow> k = n \<and> (0 < p \<longrightarrow> sum_mset held + n \<le> p)
         | Err NoPermits \<Rightarrow> 0 < p \<and> p < sum_mset held + n
         | Err Overflow \<Rightarrow> u64_max < sum_mset held + n
         | Panic \<Rightarrow> False))"
proof -
  have g: "g = sum_mset held"
    using sem_reach_gauge [OF assms] by simp
  have "case r of
      Ok k \<Rightarrow> k = n \<and> (0 < p \<longrightarrow> g + n \<le> p)
    | Err NoPermits \<Rightarrow> 0 < p \<and> p < g + n
    | Err Overflow \<Rightarrow> u64_max < g + n
    | Panic \<Rightarrow> False"
    if "cell_step sem_body is_drop (g, ths) (Some (TryAcquireN p n, r)) s'"
    using try_acquire_n_cases [OF cell_step_Some [OF that]]
    by (simp split: res.splits GaugeSemaphoreAcquireError.splits)
  then show ?thesis
    using g sem_reach_bound [OF assms, of M] by blast
qed

text \<open>Two threads race for a semaphore of one permit: the second to exchange is refused.\<close>

lemma race_for_one:
  "sem_reach {1} (1, [Idle, Trying (TryAcquireN 1 1) 0]) {#1#}"
proof -
  let ?c = "TryAcquireN 1 1"
  have 0: "sem_reach {1} (0, [Idle, Idle]) {#}"
    by (rule sem_reach.new) simp
  have "cell_step sem_body is_drop (0, [Idle, Idle]) None (0, [Idle, Idle][1 := Trying ?c 0])"
    by (rule cell_step.load [where i = 1 and c = ?c])
       (auto simp: resume_def try_acquire_n_pass_def checked_add_def u64_max_def)
  with 0 have 1: "sem_reach {1} (0, [Idle, Trying ?c 0]) {#}"
    by (auto dest: sem_reach.silent)
  have "cell_step sem_body is_drop (0, [Idle, Trying ?c 0]) None (0, [Idle, Trying ?c 0][0 := Trying ?c 0])"
    by (rule cell_step.load [where i = 0 and c = ?c])
       (auto simp: resume_def try_acquire_n_pass_def checked_add_def u64_max_def)
  with 1 have 2: "sem_reach {1} (0, [Trying ?c 0, Trying ?c 0]) {#}"
    by (auto dest: sem_reach.silent)
  have "cell_step sem_body is_drop (0, [Trying ?c 0, Trying ?c 0]) (Some (?c, Ok 1))
      (1, [Trying ?c 0, Trying ?c 0][0 := Idle])"
    by (rule cell_step.exchange) (auto simp: try_acquire_n_pass_def checked_add_def u64_max_def)
  from sem_reach.acquired [OF 2 _ this] show ?thesis
    by simp
qed

theorem semaphore_counts_permits_witness:
  "(1 :: nat) = sum_mset {#1#}
    \<and> \<not> cell_step sem_body is_drop (1, [Idle, Trying (TryAcquireN 1 1) 0]) (Some (TryAcquireN 1 1, Ok 1)) (2, [Idle, Idle])"
  using semaphore_counts_permits [OF race_for_one, of 1 1 1 "Ok 1" "(2, [Idle, Idle])"] by simp

end
