(* ===== verification/Rate_Limiter.thy ===== *)
theory Rate_Limiter
  imports Atomic_Cell
begin

text \<open>
  The rate limiter of \<open>g3-types/src/limit/rate\<close>, a generic cell rate algorithm (GCRA): quotas and how
  they are read from text, the limiter, and its state, one atomic integer that holds the theoretical
  arrival time of the next request. Durations and instants are nanoseconds. A \<open>str\<close> is the list of
  its Unicode scalar values.
\<close>

section \<open>Text\<close>

type_synonym str = "nat list"

definition str_of :: "string \<Rightarrow> str" where
  "str_of s = map of_char s"

fun split_once :: "nat \<Rightarrow> str \<Rightarrow> (str \<times> str) option" where
  "split_once d [] = None"
| "split_once d (c # s) =
     (if c = d then Some ([], s) else map_option (\<lambda>(a, b). (c # a, b)) (split_once d s))"

text \<open>\<open>char::is_whitespace\<close>: the Unicode property White_Space.\<close>

definition is_whitespace :: "nat \<Rightarrow> bool" where
  "is_whitespace c \<longleftrightarrow>
     9 \<le> c \<and> c \<le> 13 \<or> c = 0x20 \<or> c = 0x85 \<or> c = 0xA0 \<or> c = 0x1680 \<or> 0x2000 \<le> c \<and> c \<le> 0x200A
     \<or> c = 0x2028 \<or> c = 0x2029 \<or> c = 0x202F \<or> c = 0x205F \<or> c = 0x3000"

definition trim :: "str \<Rightarrow> str" where
  "trim s = rev (dropWhile is_whitespace (rev (dropWhile is_whitespace s)))"

text \<open>\<open>u32::from_str\<close> and \<open>NonZeroU32::from_str\<close>.\<close>

fun parse_digits :: "nat \<Rightarrow> nat \<Rightarrow> str \<Rightarrow> nat option" where
  "parse_digits limit acc [] = Some acc"
| "parse_digits limit acc (c # s) =
     (if 48 \<le> c \<and> c \<le> 57 \<and> acc * 10 + (c - 48) \<le> limit
      then parse_digits limit (acc * 10 + (c - 48)) s else None)"

definition NonZeroU32_from_str :: "str \<Rightarrow> nat option" where
  "NonZeroU32_from_str s =
     (let digits = (case s of c # s' \<Rightarrow> if c = 43 then s' else s | [] \<Rightarrow> []) in
      if digits = [] then None
      else
        (case parse_digits (2 ^ 32 - 1) 0 digits of
           Some v \<Rightarrow> if v = 0 then None else Some v
         | None \<Rightarrow> None))"

section \<open>Quotas\<close>

definition as_nanos_u64 :: "nat \<Rightarrow> nat" where
  "as_nanos_u64 nanos = (if nanos \<le> u64_max then nanos else u64_max)"

definition saturating_mul :: "nat \<Rightarrow> nat \<Rightarrow> nat" where
  "saturating_mul a b = min (a * b) u64_max"

record RateLimitQuota =
  RLQ_max_burst :: nat
  RLQ_replenish_nanos :: nat

datatype quota_error = TooLargeMaxBurst | InvalidFirstPart | InvalidUnit | InvalidNumber

definition RateLimitQuota_new :: "nat \<Rightarrow> nat \<Rightarrow> (RateLimitQuota, quota_error) res" where
  "RateLimitQuota_new period max_burst =
     (let replenish_nanos = as_nanos_u64 period div max_burst in
      if replenish_nanos = 0 then Err TooLargeMaxBurst
      else Ok \<lparr>RLQ_max_burst = max_burst, RLQ_replenish_nanos = replenish_nanos\<rparr>)"

definition RateLimitQuota_per_second :: "nat \<Rightarrow> (RateLimitQuota, quota_error) res" where
  "RateLimitQuota_per_second max_burst = RateLimitQuota_new 1000000000 max_burst"

definition RateLimitQuota_per_minute :: "nat \<Rightarrow> (RateLimitQuota, quota_error) res" where
  "RateLimitQuota_per_minute max_burst = RateLimitQuota_new 60000000000 max_burst"

definition RateLimitQuota_per_hour :: "nat \<Rightarrow> (RateLimitQuota, quota_error) res" where
  "RateLimitQuota_per_hour max_burst = RateLimitQuota_new 3600000000000 max_burst"

definition RateLimitQuota_with_period :: "nat \<Rightarrow> RateLimitQuota option" where
  "RateLimitQuota_with_period period =
     (let replenish_nanos = as_nanos_u64 period in
      if replenish_nanos = 0 then None
      else Some \<lparr>RLQ_max_burst = 1, RLQ_replenish_nanos = replenish_nanos\<rparr>)"

definition RateLimitQuota_allow_burst :: "RateLimitQuota \<Rightarrow> nat \<Rightarrow> RateLimitQuota" where
  "RateLimitQuota_allow_burst self max_burst = self\<lparr>RLQ_max_burst := max_burst\<rparr>"

definition RateLimitQuota_from_str :: "str \<Rightarrow> (RateLimitQuota, quota_error) res" where
  "RateLimitQuota_from_str s =
     (case split_once 47 s of
        Some (v1, v2) \<Rightarrow>
          res_bind (ok_or InvalidFirstPart (NonZeroU32_from_str (trim v1))) (\<lambda>u.
          if v2 = str_of ''s'' then RateLimitQuota_per_second u
          else if v2 = str_of ''m'' then RateLimitQuota_per_minute u
          else if v2 = str_of ''h'' then RateLimitQuota_per_hour u
          else Err InvalidUnit)
      | None \<Rightarrow>
          res_bind (ok_or InvalidNumber (NonZeroU32_from_str s)) RateLimitQuota_per_second)"

text \<open>The values of the types \<open>NonZeroU32\<close> and \<open>NonZeroU64\<close>.\<close>

definition quota_wf :: "RateLimitQuota \<Rightarrow> bool" where
  "quota_wf q \<longleftrightarrow> 0 < RLQ_max_burst q \<and> RLQ_max_burst q < 2 ^ 32
     \<and> 0 < RLQ_replenish_nanos q \<and> RLQ_replenish_nanos q \<le> u64_max"

section \<open>The limiter\<close>

record RateLimiter =
  RL_start :: nat
  RL_replenish_nanos :: nat
  RL_max_burst_nanos :: nat

text \<open>The state is the cell; a fresh one holds 0.\<close>

definition RateLimiter_with_state :: "nat \<Rightarrow> RateLimitQuota \<Rightarrow> RateLimiter" where
  "RateLimiter_with_state now quota =
     \<lparr>RL_start = now, RL_replenish_nanos = RLQ_replenish_nanos quota,
      RL_max_burst_nanos = saturating_mul (RLQ_max_burst quota - 1) (RLQ_replenish_nanos quota)\<rparr>"

definition RateLimiter_reload :: "RateLimiter \<Rightarrow> RateLimitQuota \<Rightarrow> RateLimiter" where
  "RateLimiter_reload self quota =
     \<lparr>RL_start = RL_start self, RL_replenish_nanos = RLQ_replenish_nanos quota,
      RL_max_burst_nanos = saturating_mul (RLQ_max_burst quota) (RLQ_replenish_nanos quota)\<rparr>"

text \<open>The closure of \<open>check_with_t\<close>; the sum panics when it overflows.\<close>

definition check_update :: "RateLimiter \<Rightarrow> nat \<Rightarrow> nat \<Rightarrow> (nat, nat) res" where
  "check_update self now_nanos tat =
     (let earliest_nanos = tat - RL_max_burst_nanos self in
      if now_nanos < earliest_nanos then Err (earliest_nanos - now_nanos)
      else
        (case checked_add (max tat now_nanos) (RL_replenish_nanos self) of
           Some next \<Rightarrow> Ok next
         | None \<Rightarrow> Panic))"

text \<open>One pass of the loop of \<open>fetch_and_update\<close>.\<close>

definition fetch_and_update_pass :: "(nat \<Rightarrow> (nat, nat) res) \<Rightarrow> nat \<Rightarrow> (nat, (unit, nat) res) attempt" where
  "fetch_and_update_pass update cur =
     (case update cur of
        Ok decision \<Rightarrow> Exchange decision (Ok ())
      | Err wait \<Rightarrow> Give_Up (Err wait)
      | Panic \<Rightarrow> Give_Up Panic)"

definition check_with_t :: "RateLimiter \<Rightarrow> (nat, nat, (unit, nat) res) loop_body" where
  "check_with_t self now_nanos = fetch_and_update_pass (check_update self now_nanos)"

definition RateLimiter_check :: "RateLimiter \<Rightarrow> nat \<Rightarrow> nat \<Rightarrow> nat \<times> (unit, nat) res" where
  "RateLimiter_check self now tat = atomic_call (check_with_t self) (as_nanos_u64 (now - RL_start self)) tat"

section \<open>Quotas are well formed\<close>

lemma parse_digits_le: "parse_digits limit acc s = Some v \<Longrightarrow> acc \<le> limit \<Longrightarrow> v \<le> limit"
  by (induction limit acc s rule: parse_digits.induct) (auto split: if_splits)

lemma NonZeroU32_from_str_range: "NonZeroU32_from_str s = Some v \<Longrightarrow> 0 < v \<and> v < 2 ^ 32"
  using parse_digits_le [of "2 ^ 32 - 1" 0 _ v]
  by (fastforce simp: NonZeroU32_from_str_def Let_def split: if_splits option.splits)

lemma RateLimitQuota_new_wf:
  assumes "0 < b" and "b < 2 ^ 32" and "RateLimitQuota_new period b = Ok q"
  shows "quota_wf q \<and> RLQ_max_burst q = b \<and> RLQ_replenish_nanos q * b \<le> period"
proof -
  have n: "as_nanos_u64 period \<le> period" "as_nanos_u64 period \<le> u64_max"
    by (auto simp: as_nanos_u64_def)
  have q: "q = \<lparr>RLQ_max_burst = b, RLQ_replenish_nanos = as_nanos_u64 period div b\<rparr>" "as_nanos_u64 period div b \<noteq> 0"
    using assms(3) by (auto simp: RateLimitQuota_new_def Let_def split: if_splits)
  have "as_nanos_u64 period div b * b \<le> period" "as_nanos_u64 period div b \<le> u64_max"
    using n le_trans [OF div_times_less_eq_dividend] le_trans [OF div_le_dividend] by blast+
  with q assms(1,2) show ?thesis
    by (simp add: quota_wf_def)
qed

section \<open>The algorithm\<close>

definition accepted :: "(nat \<times> (unit, nat) res) list \<Rightarrow> nat" where
  "accepted es = length (filter (\<lambda>e. snd e = Ok ()) es)"

lemma accepted_simps [simp]:
  "accepted [] = 0"
  "accepted ((t, r) # es) = (if r = Ok () then Suc (accepted es) else accepted es)"
  by (simp_all add: accepted_def)

lemma check_with_t_cases:
  assumes "atomic_call (check_with_t self) now tat = (tat', r)"
  shows "case r of
      Ok u \<Rightarrow> tat \<le> now + RL_max_burst_nanos self \<and> tat' = max tat now + RL_replenish_nanos self
    | Err d \<Rightarrow> tat' = tat \<and> tat = now + d + RL_max_burst_nanos self \<and> 0 < d
    | Panic \<Rightarrow> tat' = tat \<and> u64_max < max tat now + RL_replenish_nanos self"
  using assms
  by (auto simp: atomic_call_def check_with_t_def fetch_and_update_pass_def check_update_def Let_def checked_add_def
      split: if_splits)

lemma check_with_t_eqs:
  "tat \<le> now + RL_max_burst_nanos self \<Longrightarrow> max tat now + RL_replenish_nanos self \<le> u64_max
    \<Longrightarrow> atomic_call (check_with_t self) now tat = (max tat now + RL_replenish_nanos self, Ok ())"
  "now + RL_max_burst_nanos self < tat
    \<Longrightarrow> atomic_call (check_with_t self) now tat = (tat, Err (tat - RL_max_burst_nanos self - now))"
  by (auto simp: atomic_call_def check_with_t_def fetch_and_update_pass_def check_update_def Let_def checked_add_def)

lemma check_with_t_tat:
  assumes "atomic_call (check_with_t self) now tat = (tat', r)"
  shows "tat + (if r = Ok () then RL_replenish_nanos self else 0) \<le> tat'"
  using check_with_t_cases [OF assms] by (cases r) auto

lemma sequential_tat:
  "sequential (check_with_t self) tat es tat' \<Longrightarrow> tat + accepted es * RL_replenish_nanos self \<le> tat'"
proof (induction es arbitrary: tat)
  case (Cons e es)
  obtain now r where e: "e = (now, r)"
    by (cases e)
  obtain tat1 where c: "atomic_call (check_with_t self) now tat = (tat1, r)"
    using Cons.prems e by (cases "atomic_call (check_with_t self) now tat") auto
  then have "tat1 + accepted es * RL_replenish_nanos self \<le> tat'"
    using Cons e by auto
  with check_with_t_tat [OF c] e show ?case
    by (auto split: if_splits)
qed simp


section \<open>The properties\<close>

text \<open>
  C11. Whatever the interleaving of the callers, between two requests the limiter accepts (both
  counted) it accepts at most the burst of the quota plus one for each replenishment interval that
  passed between them.
\<close>

theorem gcra_rate_bound:
  assumes "quota_wf quota"
    and "cell_run (check_with_t (RateLimiter_with_state start quota)) (\<lambda>_. False) n s
      (es0 @ (t1, Ok ()) # es @ (t2, Ok ()) # es1) s'"
    and "t1 \<le> t2"
  shows "accepted es + 2 \<le> RLQ_max_burst quota + (t2 - t1) div RLQ_replenish_nanos quota"
proof -
  let ?self = "RateLimiter_with_state start quota"
  let ?R = "RLQ_replenish_nanos quota" and ?B = "RLQ_max_burst quota"
  obtain tat1 tat2 where tats: "atomic_call (check_with_t ?self) t1 tat1 = (fst (atomic_call (check_with_t ?self) t1 tat1), Ok ())"
      "sequential (check_with_t ?self) (fst (atomic_call (check_with_t ?self) t1 tat1)) es tat2"
      "atomic_call (check_with_t ?self) t2 tat2 = (fst (atomic_call (check_with_t ?self) t2 tat2), Ok ())"
    using cell_run_sequential [OF assms(2)] by (auto simp: prod_eq_iff)
  have "t1 + ?R \<le> fst (atomic_call (check_with_t ?self) t1 tat1)"
    using check_with_t_cases [OF tats(1)] by (simp add: RateLimiter_with_state_def)
  moreover have "fst (atomic_call (check_with_t ?self) t1 tat1) + accepted es * ?R \<le> tat2"
    using sequential_tat [OF tats(2)] by (simp add: RateLimiter_with_state_def)
  moreover have "tat2 \<le> t2 + (?B - 1) * ?R"
    using check_with_t_cases [OF tats(3)] by (auto simp: RateLimiter_with_state_def saturating_mul_def)
  ultimately have "t1 + Suc (accepted es) * ?R \<le> t2 + (?B - 1) * ?R"
    by simp
  then have d: "(Suc (accepted es) - (?B - 1)) * ?R \<le> t2 - t1"
    using assms(3) unfolding diff_mult_distrib by linarith
  have "0 < ?R" "0 < ?B"
    using assms(1) by (simp_all add: quota_wf_def)
  then show ?thesis
    using div_le_mono [OF d, of ?R] by simp
qed

theorem gcra_rate_bound_witness:
  "accepted [(11, Ok ()), (12, Err 3)] + 2 \<le> 2 + (15 - 10) div (5 :: nat)"
proof -
  let ?q = "\<lparr>RLQ_max_burst = 2, RLQ_replenish_nanos = 5\<rparr>"
  have "sequential (check_with_t (RateLimiter_with_state 0 ?q)) 0
      ([] @ (10, Ok ()) # [(11, Ok ()), (12, Err 3)] @ (15, Ok ()) # []) 25"
    by (simp add: check_with_t_eqs RateLimiter_with_state_def saturating_mul_def u64_max_def)
  from sequential_cell_run [OF this, of "\<lambda>_. False"] obtain n where
    n: "cell_run (check_with_t (RateLimiter_with_state 0 ?q)) (\<lambda>_. False) n (0, [Idle])
      ([] @ (10, Ok ()) # [(11, Ok ()), (12, Err 3)] @ (15, Ok ()) # []) (25, [Idle])"
    by blast
  from gcra_rate_bound [OF _ n] show ?thesis
    by (simp add: quota_wf_def u64_max_def)
qed

text \<open>
  The wait of a refused request is exact: at the same state a request that comes any earlier is
  refused again, one that comes after the wait is accepted.
\<close>

theorem gcra_wait_exact:
  assumes "atomic_call (check_with_t self) now tat = (tat', Err wait)"
  shows "(\<forall>w < wait. atomic_call (check_with_t self) (now + w) tat = (tat, Err (wait - w)))
    \<and> (tat + RL_replenish_nanos self \<le> u64_max \<longrightarrow>
         atomic_call (check_with_t self) (now + wait) tat = (tat + RL_replenish_nanos self, Ok ()))"
proof -
  have "tat = now + wait + RL_max_burst_nanos self"
    using check_with_t_cases [OF assms] by simp
  then show ?thesis
    by (auto simp: check_with_t_eqs)
qed

theorem gcra_wait_exact_witness:
  "atomic_call (check_with_t \<lparr>RL_start = 0, RL_replenish_nanos = 5, RL_max_burst_nanos = 15\<rparr>) (21 + 4) 40 = (45, Ok ())"
  using gcra_wait_exact [of "\<lparr>RL_start = 0, RL_replenish_nanos = 5, RL_max_burst_nanos = 15\<rparr>" 21 40 40 4]
  by (simp add: check_with_t_eqs u64_max_def)

lemma gcra_burst_step:
  "t + k * R \<le> t + RL_max_burst_nanos self \<Longrightarrow> RL_replenish_nanos self = R \<Longrightarrow> t + Suc k * R \<le> u64_max
    \<Longrightarrow> atomic_call (check_with_t self) t (t + k * R) = (t + Suc k * R, Ok ())"
  by (simp add: check_with_t_eqs add_ac)

lemma gcra_burst:
  assumes "RL_replenish_nanos self = R" and "t + n * R \<le> u64_max"
    and "k \<le> n" and "(n - 1) * R \<le> RL_max_burst_nanos self"
  shows "sequential (check_with_t self) (t + k * R) (replicate (n - k) (t, Ok ())) (t + n * R)"
  using assms(3)
proof (induction "n - k" arbitrary: k)
  case (Suc d)
  then have k: "Suc k \<le> n" "n - k = Suc (n - Suc k)"
    by auto
  then have "k * R \<le> RL_max_burst_nanos self" "Suc k * R \<le> n * R"
    by (intro le_trans [OF mult_le_mono1 assms(4)] mult_le_mono; simp)+
  then have "atomic_call (check_with_t self) t (t + k * R) = (t + Suc k * R, Ok ())"
    using assms by (intro gcra_burst_step) auto
  with Suc(1) [of "Suc k"] Suc.hyps(2) k show ?case
    by simp
qed simp

text \<open>
  C37. A limiter accepts exactly the burst of its quota at one instant, and refuses the next request for
  one interval. A limiter that \<open>reload\<close> makes from the same quota accepts one request more.
\<close>

theorem gcra_reload_extra_request:
  assumes "quota_wf q" and "R = RLQ_replenish_nanos q" and "B = RLQ_max_burst q" and "t + Suc B * R \<le> u64_max"
  shows "sequential (check_with_t (RateLimiter_with_state start q)) 0 (replicate B (t, Ok ())) (t + B * R)
    \<and> atomic_call (check_with_t (RateLimiter_with_state start q)) t (t + B * R) = (t + B * R, Err R)
    \<and> sequential (check_with_t (RateLimiter_reload self q)) 0 (replicate (Suc B) (t, Ok ())) (t + Suc B * R)"
proof -
  let ?new = "RateLimiter_with_state start q" and ?re = "RateLimiter_reload self q"
  have B: "0 < B" "0 < R"
    using assms by (auto simp: quota_wf_def)
  have m: "B * R \<le> u64_max" "t + B * R \<le> u64_max"
    using assms(4) by auto
  have m': "(B - 1) * R \<le> u64_max"
    by (rule le_trans [OF mult_le_mono1 m(1)]) simp
  have R: "RL_replenish_nanos ?new = R" "RL_max_burst_nanos ?new = (B - 1) * R"
      "RL_replenish_nanos ?re = R" "RL_max_burst_nanos ?re = B * R"
    using assms(2,3) m m' by (simp_all add: RateLimiter_with_state_def RateLimiter_reload_def saturating_mul_def min_absorb1)
  have first: "sequential (check_with_t s) 0 (replicate (Suc n) (t, Ok ())) (t + Suc n * R)"
    if "RL_replenish_nanos s = R" "t + Suc n * R \<le> u64_max" "n * R \<le> RL_max_burst_nanos s" for s n
  proof -
    have "atomic_call (check_with_t s) t 0 = (t + R, Ok ())"
      using that by (simp add: check_with_t_eqs)
    then show ?thesis
      using gcra_burst [of s R t "Suc n" 1] that by simp
  qed
  have "sequential (check_with_t ?new) 0 (replicate B (t, Ok ())) (t + B * R)"
    using first [of ?new "B - 1"] R B m by simp
  moreover have "atomic_call (check_with_t ?new) t (t + B * R) = (t + B * R, Err R)"
    using R B by (subst check_with_t_eqs(2)) (auto simp: diff_mult_distrib)
  moreover have "sequential (check_with_t ?re) 0 (replicate (Suc B) (t, Ok ())) (t + Suc B * R)"
    using first [of ?re B] R assms(4) by simp
  ultimately show ?thesis
    by blast
qed

theorem gcra_reload_extra_request_witness:
  "let q = \<lparr>RLQ_max_burst = 4, RLQ_replenish_nanos = 5\<rparr>; limiter = RateLimiter_with_state 0 q in
   atomic_call (check_with_t limiter) 10 30 = (30, Err 5)
     \<and> sequential (check_with_t (RateLimiter_reload limiter q)) 0 (replicate 5 (10, Ok ())) 35"
  using gcra_reload_extra_request [of "\<lparr>RLQ_max_burst = 4, RLQ_replenish_nanos = 5\<rparr>" 5 4 10 0
      "RateLimiter_with_state 0 \<lparr>RLQ_max_burst = 4, RLQ_replenish_nanos = 5\<rparr>"]
  by (simp add: quota_wf_def u64_max_def)

end
