(* ===== verification/Stream_Limit.thy ===== *)
theory Stream_Limit
  imports Atomic_Cell
begin

text \<open>
  Speed limits of byte streams (\<open>g3-io-ext/src/limit\<close>): the fixed time window of a connection, the
  token bucket that connections share, and the limiter that applies the window and any number of
  buckets to one connection. Lengths and token counts are natural numbers with the overflows of
  \<open>u64\<close> written out, the arithmetic of time windows is on 64 bit words. A bucket is reached through
  the trait \<open>GlobalStreamLimit\<close>; the trait object is a record of its methods, and a store gives the
  buckets their values, because connections share them.
\<close>

section \<open>Fixed windows\<close>

record FixedWindow =
  FW_max_delay_millis :: u64
  FW_time_value_mask :: u64
  FW_time_slice_mask :: u64
  FW_slice_id_offset :: u64

definition FixedWindow_default :: FixedWindow where
  "FixedWindow_default =
     \<lparr>FW_max_delay_millis = 1, FW_time_value_mask = 0, FW_time_slice_mask = - 1, FW_slice_id_offset = 0\<rparr>"

definition RATE_LIMIT_SHIFT_MILLIS_MAX :: nat where
  "RATE_LIMIT_SHIFT_MILLIS_MAX = 12"

text \<open>\<open>rand\<close> is what \<open>fastrand::u64\<close> draws.\<close>

definition FixedWindow_new :: "u64 \<Rightarrow> nat \<Rightarrow> u64 option \<Rightarrow> FixedWindow" where
  "FixedWindow_new rand shift_millis cur_millis =
     (let shift = (if RATE_LIMIT_SHIFT_MILLIS_MAX < shift_millis then RATE_LIMIT_SHIFT_MILLIS_MAX else shift_millis);
          max_delay_millis = push_bit shift 1;
          time_value_mask = max_delay_millis - 1;
          time_slice_mask = (- 1) XOR time_value_mask
      in
      \<lparr>FW_max_delay_millis = max_delay_millis, FW_time_value_mask = time_value_mask,
       FW_time_slice_mask = time_slice_mask,
       FW_slice_id_offset =
         (case cur_millis of Some cur \<Rightarrow> cur - (cur AND time_slice_mask) | None \<Rightarrow> rand)\<rparr>)"

definition FixedWindow_enabled :: "FixedWindow \<Rightarrow> bool" where
  "FixedWindow_enabled self \<longleftrightarrow> 1 < FW_max_delay_millis self"

text \<open>
  The offset is at most \<open>2 ^ 12\<close>, so the sum below reaches \<open>2 ^ 64\<close> only for a clock within five
  seconds of its end; it is the sum of words.
\<close>

definition FixedWindow_slice_id :: "FixedWindow \<Rightarrow> u64 \<Rightarrow> u64" where
  "FixedWindow_slice_id self cur_millis = (FW_time_slice_mask self AND cur_millis) + FW_slice_id_offset self"

definition FixedWindow_delay :: "FixedWindow \<Rightarrow> u64 \<Rightarrow> u64" where
  "FixedWindow_delay self cur_millis = FW_max_delay_millis self - (FW_time_value_mask self AND cur_millis)"

section \<open>The window of one connection\<close>

text \<open>The \<open>Instant\<close> of \<open>DelayUntil\<close> is in nanoseconds.\<close>

datatype StreamLimitAction = AdvanceBy nat | DelayUntil nat | DelayFor u64

record LocalStreamLimiter =
  LSL_window :: FixedWindow
  LSL_max_bytes :: nat
  LSL_time_slice_id :: u64
  LSL_cur_bytes :: nat

definition LocalStreamLimiter_default :: LocalStreamLimiter where
  "LocalStreamLimiter_default =
     \<lparr>LSL_window = FixedWindow_default, LSL_max_bytes = 0, LSL_time_slice_id = 0, LSL_cur_bytes = 0\<rparr>"

definition LocalStreamLimiter_new :: "u64 \<Rightarrow> nat \<Rightarrow> nat \<Rightarrow> LocalStreamLimiter" where
  "LocalStreamLimiter_new rand shift_millis max_bytes =
     \<lparr>LSL_window = FixedWindow_new rand shift_millis None, LSL_max_bytes = max_bytes,
      LSL_time_slice_id = 0, LSL_cur_bytes = 0\<rparr>"

definition LocalStreamLimiter_reset :: "u64 \<Rightarrow> nat \<Rightarrow> nat \<Rightarrow> u64 \<Rightarrow> LocalStreamLimiter" where
  "LocalStreamLimiter_reset rand shift_millis max_bytes cur_millis =
     (let window = FixedWindow_new rand shift_millis (Some cur_millis) in
      \<lparr>LSL_window = window, LSL_max_bytes = max_bytes,
       LSL_time_slice_id = FixedWindow_slice_id window cur_millis, LSL_cur_bytes = 0\<rparr>)"

definition LocalStreamLimiter_is_set :: "LocalStreamLimiter \<Rightarrow> bool" where
  "LocalStreamLimiter_is_set self = FixedWindow_enabled (LSL_window self)"

definition LocalStreamLimiter_check ::
  "LocalStreamLimiter \<Rightarrow> u64 \<Rightarrow> nat \<Rightarrow> (LocalStreamLimiter \<times> StreamLimitAction, unit) res" where
  "LocalStreamLimiter_check self cur_millis to_advance =
     (let time_slice_id = FixedWindow_slice_id (LSL_window self) cur_millis;
          self = (if LSL_time_slice_id self \<noteq> time_slice_id
                  then self\<lparr>LSL_cur_bytes := 0, LSL_time_slice_id := time_slice_id\<rparr> else self)
      in
      res_bind (usize_sub (LSL_max_bytes self) (LSL_cur_bytes self)) (\<lambda>left.
      if left = 0 then Ok (self, DelayFor (FixedWindow_delay (LSL_window self) cur_millis))
      else Ok (self, AdvanceBy (min to_advance left))))"

definition usize_add :: "nat \<Rightarrow> nat \<Rightarrow> (nat, 'e) res" where
  "usize_add a b = (case checked_add a b of Some c \<Rightarrow> Ok c | None \<Rightarrow> Panic)"

definition LocalStreamLimiter_set_advance :: "LocalStreamLimiter \<Rightarrow> nat \<Rightarrow> (LocalStreamLimiter, unit) res" where
  "LocalStreamLimiter_set_advance self sz =
     res_bind (usize_add (LSL_cur_bytes self) sz) (\<lambda>n. Ok (self\<lparr>LSL_cur_bytes := n\<rparr>))"

section \<open>The token bucket\<close>

record GlobalStreamSpeedLimitConfig =
  GSC_replenish_interval :: nat
  GSC_replenish_bytes :: nat
  GSC_max_burst_bytes :: nat

definition GSC_per_second :: "nat \<Rightarrow> GlobalStreamSpeedLimitConfig" where
  "GSC_per_second sz =
     \<lparr>GSC_replenish_interval = 1000000000, GSC_replenish_bytes = sz, GSC_max_burst_bytes = sz\<rparr>"

text \<open>The check of a configuration raises the burst to the replenished bytes.\<close>

definition GSC_check :: "GlobalStreamSpeedLimitConfig \<Rightarrow> (GlobalStreamSpeedLimitConfig, unit) res" where
  "GSC_check self =
     (if GSC_replenish_bytes self = 0 then Err ()
      else if GSC_max_burst_bytes self < GSC_replenish_bytes self
      then Ok (self\<lparr>GSC_max_burst_bytes := GSC_replenish_bytes self\<rparr>)
      else Ok self)"

datatype GlobalLimitGroup = Server | User | UserSite

record GlobalStreamLimiter =
  GSL_group :: GlobalLimitGroup
  GSL_config :: GlobalStreamSpeedLimitConfig
  GSL_byte_tokens :: nat
  GSL_last_updated :: nat

definition GlobalStreamLimiter_new :: "nat \<Rightarrow> GlobalLimitGroup \<Rightarrow> GlobalStreamSpeedLimitConfig \<Rightarrow> GlobalStreamLimiter" where
  "GlobalStreamLimiter_new now grp config =
     \<lparr>GSL_group = grp, GSL_config = config, GSL_byte_tokens = GSC_replenish_bytes config, GSL_last_updated = now\<rparr>"

definition GlobalStreamLimiter_update :: "GlobalStreamLimiter \<Rightarrow> GlobalStreamSpeedLimitConfig \<Rightarrow> GlobalStreamLimiter" where
  "GlobalStreamLimiter_update self config = self\<lparr>GSL_config := config\<rparr>"

text \<open>One pass of the loops of \<open>add_bytes\<close> and \<open>try_consume\<close>; the subtraction saturates.\<close>

definition add_bytes_pass :: "nat \<Rightarrow> nat \<Rightarrow> nat \<Rightarrow> (nat, (nat option, unit) res) attempt" where
  "add_bytes_pass sz max_burst cur_tokens =
     (if max_burst \<le> cur_tokens then Give_Up (Ok None)
      else
        (case checked_add cur_tokens sz of
           Some next \<Rightarrow> Exchange (min next max_burst) (Ok None)
         | None \<Rightarrow> Give_Up Panic))"

definition try_consume_pass :: "nat \<Rightarrow> nat \<Rightarrow> (nat, (nat option, unit) res) attempt" where
  "try_consume_pass sz cur_tokens =
     (if cur_tokens = 0 then Give_Up (Ok None)
      else
        let left_tokens = cur_tokens - sz in
        Exchange left_tokens (Ok (Some (cur_tokens - left_tokens))))"

text \<open>The calls on a bucket: \<open>check\<close>, \<open>release\<close>, and a round of the replenishing task.\<close>

datatype bucket_call = TryConsume nat | Release nat | Replenish

fun bucket_body :: "GlobalStreamSpeedLimitConfig \<Rightarrow> (bucket_call, nat, (nat option, unit) res) loop_body" where
  "bucket_body config (TryConsume sz) cur = try_consume_pass sz cur"
| "bucket_body config (Release sz) cur = add_bytes_pass sz (GSC_max_burst_bytes config) cur"
| "bucket_body config Replenish cur = add_bytes_pass (GSC_replenish_bytes config) (GSC_max_burst_bytes config) cur"

definition bucket_call ::
  "GlobalStreamLimiter \<Rightarrow> bucket_call \<Rightarrow> GlobalStreamLimiter \<times> (nat option, unit) res" where
  "bucket_call self c =
     (let (v, r) = atomic_call (bucket_body (GSL_config self)) c (GSL_byte_tokens self) in
      (self\<lparr>GSL_byte_tokens := v\<rparr>, r))"

definition replenish_round :: "GlobalStreamLimiter \<Rightarrow> nat \<Rightarrow> (GlobalStreamLimiter, unit) res" where
  "replenish_round self now =
     (let (self, r) = bucket_call self Replenish in
      res_bind r (\<lambda>_. Ok (self\<lparr>GSL_last_updated := now\<rparr>)))"

definition wait_until :: "GlobalStreamLimiter \<Rightarrow> nat" where
  "wait_until self = GSL_last_updated self + GSC_replenish_interval (GSL_config self)"

definition GlobalStreamLimiter_try_consume ::
  "GlobalStreamLimiter \<Rightarrow> nat \<Rightarrow> GlobalStreamLimiter \<times> nat option" where
  "GlobalStreamLimiter_try_consume self sz =
     (case bucket_call self (TryConsume sz) of
        (self, Ok r) \<Rightarrow> (self, r)
      | (self, _) \<Rightarrow> (self, None))"

definition GlobalStreamLimiter_check :: "GlobalStreamLimiter \<Rightarrow> nat \<Rightarrow> GlobalStreamLimiter \<times> StreamLimitAction" where
  "GlobalStreamLimiter_check self to_advance =
     (case GlobalStreamLimiter_try_consume self to_advance of
        (self, Some n) \<Rightarrow> (self, AdvanceBy n)
      | (self, None) \<Rightarrow> (self, DelayUntil (wait_until self)))"

definition GlobalStreamLimiter_release :: "GlobalStreamLimiter \<Rightarrow> nat \<Rightarrow> (GlobalStreamLimiter, unit) res" where
  "GlobalStreamLimiter_release self sz =
     (let (self, r) = bucket_call self (Release sz) in res_bind r (\<lambda>_. Ok self))"

section \<open>The limiter of one connection\<close>

text \<open>The trait \<open>GlobalStreamLimit\<close>, and its implementation by the token bucket.\<close>

record 'g GlobalStreamLimit =
  gsl_group :: "'g \<Rightarrow> GlobalLimitGroup"
  gsl_check :: "'g \<Rightarrow> nat \<Rightarrow> 'g \<times> StreamLimitAction"
  gsl_release :: "'g \<Rightarrow> nat \<Rightarrow> ('g, unit) res"

definition token_bucket :: "GlobalStreamLimiter GlobalStreamLimit" where
  "token_bucket =
     \<lparr>gsl_group = GSL_group, gsl_check = GlobalStreamLimiter_check, gsl_release = GlobalStreamLimiter_release\<rparr>"

text \<open>\<open>GL_inner\<close> is the address of the shared bucket.\<close>

record GlobalLimiter =
  GL_inner :: nat
  GL_checked_bytes :: "nat option"

definition GlobalLimiter_new :: "nat \<Rightarrow> GlobalLimiter" where
  "GlobalLimiter_new inner = \<lparr>GL_inner = inner, GL_checked_bytes = None\<rparr>"

record StreamLimiter =
  SL_is_set :: bool
  SL_local_is_set :: bool
  SL_local :: LocalStreamLimiter
  SL_global :: "GlobalLimiter list"

definition StreamLimiter_default :: StreamLimiter where
  "StreamLimiter_default =
     \<lparr>SL_is_set = False, SL_local_is_set = False, SL_local = LocalStreamLimiter_default, SL_global = []\<rparr>"

definition StreamLimiter_with_local :: "u64 \<Rightarrow> nat \<Rightarrow> nat \<Rightarrow> StreamLimiter" where
  "StreamLimiter_with_local rand shift_millis max_bytes =
     (let local = LocalStreamLimiter_new rand shift_millis max_bytes;
          local_is_set = LocalStreamLimiter_is_set local
      in \<lparr>SL_is_set = local_is_set, SL_local_is_set = local_is_set, SL_local = local, SL_global = []\<rparr>)"

definition StreamLimiter_reset_local :: "u64 \<Rightarrow> StreamLimiter \<Rightarrow> nat \<Rightarrow> nat \<Rightarrow> u64 \<Rightarrow> StreamLimiter" where
  "StreamLimiter_reset_local rand self shift_millis max_bytes cur_millis =
     (let self = self\<lparr>SL_local := LocalStreamLimiter_reset rand shift_millis max_bytes cur_millis\<rparr>;
          self = self\<lparr>SL_local_is_set := LocalStreamLimiter_is_set (SL_local self)\<rparr>
      in if SL_global self = [] then self\<lparr>SL_is_set := SL_local_is_set self\<rparr> else self)"

definition StreamLimiter_add_global :: "StreamLimiter \<Rightarrow> nat \<Rightarrow> StreamLimiter" where
  "StreamLimiter_add_global self limiter =
     self\<lparr>SL_global := SL_global self @ [GlobalLimiter_new limiter], SL_is_set := True\<rparr>"

text \<open>Dropping a \<open>GlobalLimiter\<close> gives back what was taken and not used.\<close>

definition GlobalLimiter_drop :: "'g GlobalStreamLimit \<Rightarrow> (nat \<Rightarrow> 'g) \<Rightarrow> GlobalLimiter \<Rightarrow> (nat \<Rightarrow> 'g, unit) res" where
  "GlobalLimiter_drop lim st l =
     (case GL_checked_bytes l of
        Some taken \<Rightarrow> res_bind (gsl_release lim (st (GL_inner l)) taken) (\<lambda>g. Ok (st(GL_inner l := g)))
      | None \<Rightarrow> Ok st)"

fun drop_all :: "'g GlobalStreamLimit \<Rightarrow> (nat \<Rightarrow> 'g) \<Rightarrow> GlobalLimiter list \<Rightarrow> (nat \<Rightarrow> 'g, unit) res" where
  "drop_all lim st [] = Ok st"
| "drop_all lim st (l # ls) = res_bind (GlobalLimiter_drop lim st l) (\<lambda>st. drop_all lim st ls)"

definition StreamLimiter_remove_global_by_group ::
  "'g GlobalStreamLimit \<Rightarrow> (nat \<Rightarrow> 'g) \<Rightarrow> StreamLimiter \<Rightarrow> GlobalLimitGroup \<Rightarrow> ((nat \<Rightarrow> 'g) \<times> StreamLimiter, unit) res" where
  "StreamLimiter_remove_global_by_group lim st self grp =
     (let keep = (\<lambda>l. gsl_group lim (st (GL_inner l)) \<noteq> grp) in
      res_bind (drop_all lim st (filter (\<lambda>l. \<not> keep l) (SL_global self))) (\<lambda>st'.
      Ok (st', self\<lparr>SL_global := filter keep (SL_global self)\<rparr>)))"

definition StreamLimiter_retain_global_by_group ::
  "'g GlobalStreamLimit \<Rightarrow> (nat \<Rightarrow> 'g) \<Rightarrow> StreamLimiter \<Rightarrow> GlobalLimitGroup \<Rightarrow> ((nat \<Rightarrow> 'g) \<times> StreamLimiter, unit) res" where
  "StreamLimiter_retain_global_by_group lim st self grp =
     (let keep = (\<lambda>l. gsl_group lim (st (GL_inner l)) = grp) in
      res_bind (drop_all lim st (filter (\<lambda>l. \<not> keep l) (SL_global self))) (\<lambda>st'.
      Ok (st', self\<lparr>SL_global := filter keep (SL_global self)\<rparr>)))"

fun release_loop ::
  "'g GlobalStreamLimit \<Rightarrow> (nat \<Rightarrow> 'g) \<Rightarrow> GlobalLimiter list \<Rightarrow> ((nat \<Rightarrow> 'g) \<times> GlobalLimiter list, unit) res" where
  "release_loop lim st [] = Ok (st, [])"
| "release_loop lim st (l # ls) =
     (case GL_checked_bytes l of
        None \<Rightarrow> Ok (st, l # ls)
      | Some taken \<Rightarrow>
          res_bind (gsl_release lim (st (GL_inner l)) taken) (\<lambda>g.
          res_bind (release_loop lim (st(GL_inner l := g)) ls) (\<lambda>(st, ls).
          Ok (st, l\<lparr>GL_checked_bytes := None\<rparr> # ls))))"

definition StreamLimiter_release_global ::
  "'g GlobalStreamLimit \<Rightarrow> (nat \<Rightarrow> 'g) \<Rightarrow> StreamLimiter \<Rightarrow> ((nat \<Rightarrow> 'g) \<times> StreamLimiter, unit) res" where
  "StreamLimiter_release_global lim st self =
     res_bind (release_loop lim st (SL_global self)) (\<lambda>(st, ls). Ok (st, self\<lparr>SL_global := ls\<rparr>))"

text \<open>The loop over the buckets: it ends with the bytes all of them allow, or with the first delay.\<close>

fun check_loop ::
  "'g GlobalStreamLimit \<Rightarrow> (nat \<Rightarrow> 'g) \<Rightarrow> nat \<Rightarrow> GlobalLimiter list
    \<Rightarrow> (nat \<Rightarrow> 'g) \<times> GlobalLimiter list \<times> StreamLimitAction" where
  "check_loop lim st to_advance [] = (st, [], AdvanceBy to_advance)"
| "check_loop lim st to_advance (l # ls) =
     (case gsl_check lim (st (GL_inner l)) to_advance of
        (g, AdvanceBy sz) \<Rightarrow>
          let (st, ls, r) = check_loop lim (st(GL_inner l := g)) sz ls
          in (st, l\<lparr>GL_checked_bytes := Some sz\<rparr> # ls, r)
      | (g, delay) \<Rightarrow> (st(GL_inner l := g), l # ls, delay))"

fun shrink_loop ::
  "'g GlobalStreamLimit \<Rightarrow> (nat \<Rightarrow> 'g) \<Rightarrow> nat \<Rightarrow> GlobalLimiter list \<Rightarrow> ((nat \<Rightarrow> 'g) \<times> GlobalLimiter list, unit) res" where
  "shrink_loop lim st to_advance [] = Ok (st, [])"
| "shrink_loop lim st to_advance (l # ls) =
     (case GL_checked_bytes l of
        None \<Rightarrow> Panic
      | Some checked \<Rightarrow>
          res_bind (if to_advance < checked then gsl_release lim (st (GL_inner l)) (checked - to_advance)
                    else Ok (st (GL_inner l))) (\<lambda>g.
          res_bind (shrink_loop lim (st(GL_inner l := g)) to_advance ls) (\<lambda>(st, ls).
          Ok (st, l\<lparr>GL_checked_bytes := Some to_advance\<rparr> # ls))))"

definition StreamLimiter_check ::
  "'g GlobalStreamLimit \<Rightarrow> (nat \<Rightarrow> 'g) \<Rightarrow> StreamLimiter \<Rightarrow> u64 \<Rightarrow> nat
    \<Rightarrow> ((nat \<Rightarrow> 'g) \<times> StreamLimiter \<times> StreamLimitAction, unit) res" where
  "StreamLimiter_check lim st self cur_millis target =
     res_bind
       (if SL_local_is_set self
        then res_bind (LocalStreamLimiter_check (SL_local self) cur_millis target)
               (\<lambda>(local, a). Ok (self\<lparr>SL_local := local\<rparr>, a))
        else Ok (self, AdvanceBy target))
       (\<lambda>(self, a).
        case a of
          AdvanceBy to_advance \<Rightarrow>
            let (st, ls, a) = check_loop lim st to_advance (SL_global self);
                self = self\<lparr>SL_global := ls\<rparr>
            in
            (case a of
               AdvanceBy to_advance \<Rightarrow>
                 if to_advance < target
                 then res_bind (shrink_loop lim st to_advance ls)
                        (\<lambda>(st, ls). Ok (st, self\<lparr>SL_global := ls\<rparr>, AdvanceBy to_advance))
                 else Ok (st, self, AdvanceBy to_advance)
             | _ \<Rightarrow> res_bind (StreamLimiter_release_global lim st self) (\<lambda>(st, self). Ok (st, self, a)))
        | _ \<Rightarrow> Ok (st, self, a))"

fun set_advance_loop ::
  "'g GlobalStreamLimit \<Rightarrow> (nat \<Rightarrow> 'g) \<Rightarrow> nat \<Rightarrow> GlobalLimiter list \<Rightarrow> ((nat \<Rightarrow> 'g) \<times> GlobalLimiter list, unit) res" where
  "set_advance_loop lim st sz [] = Ok (st, [])"
| "set_advance_loop lim st sz (l # ls) =
     (case GL_checked_bytes l of
        None \<Rightarrow> Ok (st, l # ls)
      | Some taken \<Rightarrow>
          res_bind (if sz < taken then gsl_release lim (st (GL_inner l)) (taken - sz)
                    else Ok (st (GL_inner l))) (\<lambda>g.
          res_bind (set_advance_loop lim (st(GL_inner l := g)) sz ls) (\<lambda>(st, ls).
          Ok (st, l\<lparr>GL_checked_bytes := None\<rparr> # ls))))"

definition StreamLimiter_set_advance ::
  "'g GlobalStreamLimit \<Rightarrow> (nat \<Rightarrow> 'g) \<Rightarrow> StreamLimiter \<Rightarrow> nat \<Rightarrow> ((nat \<Rightarrow> 'g) \<times> StreamLimiter, unit) res" where
  "StreamLimiter_set_advance lim st self sz =
     res_bind
       (if SL_local_is_set self
        then res_bind (LocalStreamLimiter_set_advance (SL_local self) sz) (\<lambda>local. Ok (self\<lparr>SL_local := local\<rparr>))
        else Ok self)
       (\<lambda>self.
        res_bind (set_advance_loop lim st sz (SL_global self)) (\<lambda>(st, ls).
        Ok (st, self\<lparr>SL_global := ls\<rparr>)))"

section \<open>Time windows\<close>

text \<open>A window is what \<open>FixedWindow_new\<close> makes: \<open>k\<close> is the shift it uses.\<close>

definition window_of :: "FixedWindow \<Rightarrow> nat \<Rightarrow> bool" where
  "window_of w k \<longleftrightarrow> k \<le> 12 \<and> FW_max_delay_millis w = push_bit k 1 \<and> FW_time_value_mask w = mask k
     \<and> FW_time_slice_mask w = NOT (mask k)"

lemma minus_1_xor: "(- 1 :: 'a :: len word) XOR x = NOT x"
  by (rule bit_eqI) (simp add: bit_simps)

lemma window_of_new: "window_of (FixedWindow_new rand shift cur) (min shift 12)"
  by (auto simp: window_of_def FixedWindow_new_def RATE_LIMIT_SHIFT_MILLIS_MAX_def Let_def minus_1_xor
      mask_eq_exp_minus_1 push_bit_eq_mult min_def)

lemma unat_and_mask: "unat (mask k AND (t :: u64)) = unat t mod 2 ^ k"
  by (simp add: and.commute [of "mask k"] flip: take_bit_eq_mask take_bit_eq_mod unsigned_take_bit_eq)

lemma unat_and_not_mask: "unat (NOT (mask k) AND (t :: u64)) = unat t div 2 ^ k * 2 ^ k"
proof -
  have "NOT (mask k) AND t = push_bit k (drop_bit k t)"
    by (rule bit_eqI) (auto simp: bit_simps)
  moreover have "unat t div 2 ^ k * 2 ^ k < 2 ^ 64"
    using unsigned_less [of t, where ?'a = nat] by (intro le_less_trans [OF div_times_less_eq_dividend]) simp
  moreover have "unat (push_bit k (drop_bit k t)) = take_bit 64 (unat t div 2 ^ k * 2 ^ k)"
    using unsigned_less [of t, where ?'a = nat] unfolding unsigned_push_bit_eq unsigned_drop_bit_eq
    by (simp add: push_bit_eq_mult drop_bit_eq_div take_bit_nat_eq_self)
  ultimately show ?thesis
    by (simp only: take_bit_nat_eq_self)
qed

lemma slice_id_eq_iff:
  "window_of w k \<Longrightarrow> FixedWindow_slice_id w t = FixedWindow_slice_id w t' \<longleftrightarrow> unat t div 2 ^ k = unat t' div 2 ^ k"
  by (simp add: FixedWindow_slice_id_def window_of_def word_unat_eq_iff [of "NOT _ AND _"] unat_and_not_mask)

lemma unat_window_length: "k \<le> 12 \<Longrightarrow> unat (push_bit k 1 :: u64) = 2 ^ k"
  unfolding unsigned_push_bit_eq by (simp add: take_bit_nat_eq_self push_bit_eq_mult power_strict_increasing)

lemma unat_delay:
  assumes "window_of w k"
  shows "unat (FixedWindow_delay w t) = 2 ^ k - unat t mod 2 ^ k"
proof -
  have l: "unat (push_bit k 1 :: u64) = 2 ^ k"
    using assms by (intro unat_window_length) (simp add: window_of_def)
  then have "mask k AND t \<le> push_bit k 1"
    unfolding word_le_nat_alt unat_and_mask by (simp add: less_imp_le)
  then show ?thesis
    using assms l by (simp add: FixedWindow_delay_def window_of_def unat_sub unat_and_mask)
qed

lemma unat_add_delay: "unat t + d \<le> u64_max \<Longrightarrow> unat ((t :: u64) + of_nat d) = unat t + d"
  by (simp add: unat_word_ariths unat_of_nat u64_max_def mod_add_eq)

lemma div_window: "t mod p + d < p \<Longrightarrow> (t + d) div p = t div (p :: nat)"
proof -
  assume a: "t mod p + d < p"
  have "t + d = (t mod p + d) + t div p * p"
    using mod_div_mult_eq [of t p] by simp
  then have "(t + d) div p = ((t mod p + d) + t div p * p) div p"
    by simp
  also have "\<dots> = t div p"
    using a by (subst div_mult_self1) auto
  finally show ?thesis .
qed

lemma window_delay_exact:
  assumes "window_of w k" and "unat t + unat (FixedWindow_delay w t) \<le> u64_max"
  shows "d < unat (FixedWindow_delay w t) \<Longrightarrow> FixedWindow_slice_id w (t + of_nat d) = FixedWindow_slice_id w t"
    and "FixedWindow_slice_id w (t + FixedWindow_delay w t) \<noteq> FixedWindow_slice_id w t"
proof -
  let ?d = "2 ^ k - unat t mod 2 ^ k"
  note delay = unat_delay [OF assms(1), of t]
  {
    assume d: "d < unat (FixedWindow_delay w t)"
    then have "unat (t + of_nat d) = unat t + d"
      using assms(2) by (intro unat_add_delay) simp
    then show "FixedWindow_slice_id w (t + of_nat d) = FixedWindow_slice_id w t"
      using d delay by (simp add: slice_id_eq_iff [OF assms(1)] div_window)
  }
  have "unat (t + of_nat ?d) = unat t + ?d"
    using assms(2) delay by (intro unat_add_delay) simp
  then have "unat (t + FixedWindow_delay w t) = unat t + ?d"
    using delay by (metis of_nat_unat ucast_id)
  moreover have "unat t + ?d = (unat t div 2 ^ k + 1) * 2 ^ k"
  proof -
    have "unat t mod 2 ^ k < 2 ^ k" "unat t = unat t div 2 ^ k * 2 ^ k + unat t mod 2 ^ k"
      using div_mult_mod_eq [of "unat t" "2 ^ k"] by simp_all
    then show ?thesis
      unfolding add_mult_distrib by linarith
  qed
  ultimately show "FixedWindow_slice_id w (t + FixedWindow_delay w t) \<noteq> FixedWindow_slice_id w t"
    by (simp add: slice_id_eq_iff [OF assms(1)])
qed

lemma window_delay_rest:
  assumes "window_of w k" and "unat t + unat (FixedWindow_delay w t) \<le> u64_max" and "e < unat (FixedWindow_delay w t)"
  shows "FixedWindow_delay w (t + of_nat e) = FixedWindow_delay w t - of_nat e"
proof -
  note delay = unat_delay [OF assms(1)]
  have "unat t mod 2 ^ k + e < 2 ^ k"
    using assms(3) delay by simp
  then have "(unat t + e) mod 2 ^ k = unat t mod 2 ^ k + e"
    by (metis mod_add_left_eq mod_less)
  moreover have "unat (t + of_nat e) = unat t + e"
    using assms(2,3) by (intro unat_add_delay) simp
  ultimately have l: "unat (FixedWindow_delay w (t + of_nat e)) = unat (FixedWindow_delay w t) - e"
    using delay by simp
  have e: "unat (of_nat e :: u64) = e"
    using assms(2,3) by (simp add: unat_of_nat u64_max_def)
  then have "(of_nat e :: u64) \<le> FixedWindow_delay w t"
    using assms(3) by (simp add: word_le_nat_alt)
  then have "unat (FixedWindow_delay w t - of_nat e) = unat (FixedWindow_delay w t) - e"
    using e by (simp add: unat_sub)
  with l show ?thesis
    by (simp add: word_unat_eq_iff)
qed

section \<open>A connection in its window\<close>

definition local_wf :: "LocalStreamLimiter \<Rightarrow> bool" where
  "local_wf l \<longleftrightarrow> LSL_cur_bytes l \<le> LSL_max_bytes l \<and> LSL_max_bytes l \<le> u64_max \<and> (\<exists>k. window_of (LSL_window l) k)"

text \<open>The limiter once it has noticed the window of the time \<open>t\<close>.\<close>

definition turn :: "LocalStreamLimiter \<Rightarrow> u64 \<Rightarrow> LocalStreamLimiter" where
  "turn l t =
     (let s = FixedWindow_slice_id (LSL_window l) t in
      l\<lparr>LSL_cur_bytes := (if LSL_time_slice_id l = s then LSL_cur_bytes l else 0), LSL_time_slice_id := s\<rparr>)"

lemma turn_sel [simp]:
  "LSL_window (turn l t) = LSL_window l"
  "LSL_max_bytes (turn l t) = LSL_max_bytes l"
  "LSL_time_slice_id (turn l t) = FixedWindow_slice_id (LSL_window l) t"
  "LSL_cur_bytes (turn l t) =
     (if LSL_time_slice_id l = FixedWindow_slice_id (LSL_window l) t then LSL_cur_bytes l else 0)"
  by (simp_all add: turn_def Let_def)

lemma local_wf_turn: "local_wf l \<Longrightarrow> local_wf (turn l t)"
  by (auto simp: local_wf_def)

lemma local_check_eq:
  assumes "local_wf l"
  shows "LocalStreamLimiter_check l t want =
    Ok (turn l t,
      if LSL_cur_bytes (turn l t) = LSL_max_bytes l then DelayFor (FixedWindow_delay (LSL_window l) t)
      else AdvanceBy (min want (LSL_max_bytes l - LSL_cur_bytes (turn l t))))"
proof -
  have "(if LSL_time_slice_id l \<noteq> s then l\<lparr>LSL_cur_bytes := 0, LSL_time_slice_id := s\<rparr> else l) = turn l t"
    if "s = FixedWindow_slice_id (LSL_window l) t" for s
    using that by (cases l) (auto simp: turn_def Let_def)
  moreover have "LSL_cur_bytes (turn l t) \<le> LSL_max_bytes l"
    using local_wf_turn [OF assms] by (simp add: local_wf_def)
  ultimately show ?thesis
    unfolding LocalStreamLimiter_check_def Let_def by (auto simp: usize_sub_def)
qed

lemma local_set_advance:
  "LSL_cur_bytes l + n \<le> LSL_max_bytes l \<Longrightarrow> LSL_max_bytes l \<le> u64_max
    \<Longrightarrow> LocalStreamLimiter_set_advance l n = Ok (l\<lparr>LSL_cur_bytes := LSL_cur_bytes l + n\<rparr>)"
  by (simp add: LocalStreamLimiter_set_advance_def usize_add_def checked_add_def)

text \<open>
  A connection that asks for \<open>want\<close> bytes at time \<open>t\<close> and of what it is allowed really sends at
  most \<open>can\<close>; the log has what it sent when.
\<close>

fun local_sends :: "LocalStreamLimiter \<Rightarrow> (u64 \<times> nat \<times> nat) list \<Rightarrow> (LocalStreamLimiter \<times> (u64 \<times> nat) list, unit) res" where
  "local_sends l [] = Ok (l, [])"
| "local_sends l ((t, want, can) # xs) =
     res_bind (LocalStreamLimiter_check l t want) (\<lambda>(l, a).
     case a of
       AdvanceBy n \<Rightarrow>
         res_bind (LocalStreamLimiter_set_advance l (min can n)) (\<lambda>l.
         res_bind (local_sends l xs) (\<lambda>(l, log). Ok (l, (t, min can n) # log)))
     | _ \<Rightarrow> local_sends l xs)"

definition sent_in :: "FixedWindow \<Rightarrow> u64 \<Rightarrow> (u64 \<times> nat) list \<Rightarrow> nat" where
  "sent_in w s log = sum_list (map snd (filter (\<lambda>(t, _). FixedWindow_slice_id w t = s) log))"

lemma sent_in_simps [simp]:
  "sent_in w s [] = 0"
  "sent_in w s ((t, n) # log) = (if FixedWindow_slice_id w t = s then n else 0) + sent_in w s log"
  by (simp_all add: sent_in_def)

lemma slices_contiguous:
  assumes "window_of w k" and "t1 \<le> t2" and "t2 \<le> t3" and "FixedWindow_slice_id w t1 = FixedWindow_slice_id w t3"
  shows "FixedWindow_slice_id w t2 = FixedWindow_slice_id w t1"
proof -
  have "unat t1 div 2 ^ k \<le> unat t2 div 2 ^ k" "unat t2 div 2 ^ k \<le> unat t3 div 2 ^ k"
    using assms(2,3) by (simp_all add: word_le_nat_alt div_le_mono)
  then show ?thesis
    using assms(4) by (simp add: slice_id_eq_iff [OF assms(1)])
qed

lemma local_sends_bound:
  assumes "window_of w k" and "LSL_window l = w" and "local_wf l" and "sorted (t0 # map fst xs)"
    and "LSL_time_slice_id l = FixedWindow_slice_id w t0"
  shows "\<exists>l' log. local_sends l xs = Ok (l', log)
    \<and> (\<forall>s. (if s = LSL_time_slice_id l then LSL_cur_bytes l else 0) + sent_in w s log \<le> LSL_max_bytes l)
    \<and> (\<forall>e \<in> set log. fst e \<in> fst ` set xs)"
  using assms(2-)
proof (induction xs arbitrary: l t0)
  case Nil
  then show ?case
    by (auto simp: local_wf_def)
next
  case (Cons x xs)
  obtain t want can where x: "x = (t, want, can)"
    by (cases x)
  have t: "t0 \<le> t" "\<forall>t' \<in> fst ` set xs. t \<le> t'" "sorted (t # map fst xs)"
    using Cons.prems x by auto
  let ?max = "LSL_max_bytes l" and ?cur = "LSL_cur_bytes (turn l t)" and ?id = "FixedWindow_slice_id w t"
  define m where "m = min can (min want (?max - ?cur))"
  have wf: "?cur + m \<le> ?max" "?max \<le> u64_max" "local_wf (turn l t)"
    using Cons.prems local_wf_turn [of l t] by (auto simp: local_wf_def m_def)
  define l2 where "l2 = (if ?cur = ?max then turn l t else (turn l t)\<lparr>LSL_cur_bytes := ?cur + m\<rparr>)"
  have l2: "LSL_window l2 = w" "LSL_max_bytes l2 = ?max" "LSL_time_slice_id l2 = ?id" "LSL_cur_bytes l2 = ?cur + m"
      "local_wf l2"
    using Cons.prems wf by (auto simp: l2_def local_wf_def)
  obtain l' log where r: "local_sends l2 xs = Ok (l', log)"
      "\<And>s. (if s = ?id then ?cur + m else 0) + sent_in w s log \<le> ?max" "\<forall>e \<in> set log. fst e \<in> fst ` set xs"
    using Cons.IH [OF l2(1) l2(5) t(3) l2(3)] unfolding l2(2-4) by blast
  let ?log = "if ?cur = ?max then log else (t, m) # log"
  have "local_sends l (x # xs) = Ok (l', ?log)"
  proof (cases "?cur = ?max")
    case True
    then show ?thesis
      using r(1) by (simp only: x local_sends.simps local_check_eq [OF Cons.prems(2)]) (simp add: l2_def)
  next
    case False
    have "LocalStreamLimiter_set_advance (turn l t) m = Ok l2"
      using False wf(1,2) local_set_advance [of "turn l t" m] by (simp only: l2_def if_False turn_sel(2))
    then show ?thesis
      using r(1) False
      by (simp only: x local_sends.simps local_check_eq [OF Cons.prems(2)] res_bind.simps prod.case if_False
          StreamLimitAction.case flip: m_def)
  qed
  moreover have "(if s = LSL_time_slice_id l then LSL_cur_bytes l else 0) + sent_in w s ?log \<le> ?max" for s
  proof (cases "s = LSL_time_slice_id l \<and> s \<noteq> ?id")
    case True
    then have "FixedWindow_slice_id w t' \<noteq> s" if "t' \<in> fst ` set xs" for t'
      using slices_contiguous [OF assms(1) t(1), of t'] t(2) that Cons.prems(4) by auto
    then have "\<forall>e \<in> set log. FixedWindow_slice_id w (fst e) \<noteq> s"
      using r(3) by blast
    then have "filter (\<lambda>(t, _). FixedWindow_slice_id w t = s) log = []"
      by (auto simp: filter_empty_conv)
    then have "sent_in w s log = 0"
      by (simp add: sent_in_def)
    with True Cons.prems show ?thesis
      by (auto simp: local_wf_def)
  next
    case False
    have m: "?cur = ?max \<Longrightarrow> m = 0" and cur: "?cur = (if LSL_time_slice_id l = ?id then LSL_cur_bytes l else 0)"
      using Cons.prems(1) by (simp_all add: m_def)
    show ?thesis
    proof (cases "s = ?id")
      case True
      then have "(if s = LSL_time_slice_id l then LSL_cur_bytes l else 0) = ?cur"
        unfolding cur by auto
      moreover have "sent_in w s ?log = m + sent_in w s log"
        using True m by simp
      moreover have "?cur + m + sent_in w s log \<le> ?max"
        using r(2) [of s] True by (simp only: refl if_True)
      ultimately show ?thesis
        by linarith
    next
      case s: False
      then have "sent_in w s ?log = sent_in w s log"
        by simp
      with s False r(2) [of s] show ?thesis
        by simp
    qed
  qed
  moreover have "\<forall>e \<in> set ?log. fst e \<in> fst ` set (x # xs)"
    using r(3) by (auto simp: x)
  ultimately show ?case
    by blast
qed

lemma local_wf_new:
  "max_bytes \<le> u64_max \<Longrightarrow> local_wf (LocalStreamLimiter_new rand shift max_bytes)"
  "max_bytes \<le> u64_max \<Longrightarrow> local_wf (LocalStreamLimiter_reset rand shift max_bytes cur)"
  using window_of_new
  by (auto simp: local_wf_def LocalStreamLimiter_new_def LocalStreamLimiter_reset_def Let_def)

lemma turn_again:
  "FixedWindow_slice_id (LSL_window l) t' = FixedWindow_slice_id (LSL_window l) t \<Longrightarrow> turn (turn l t) t' = turn l t"
  by (simp add: turn_def Let_def)

lemma local_check_turn:
  "local_wf l \<Longrightarrow> LocalStreamLimiter_check (turn l t) t want = LocalStreamLimiter_check l t want"
  by (simp only: local_check_eq local_wf_turn turn_again turn_sel(1,2))

lemma local_sends_turn:
  "local_wf l \<Longrightarrow> local_sends (turn l t) ((t, want, can) # xs) = local_sends l ((t, want, can) # xs)"
  by (simp add: local_check_turn)

lemma local_sends_slices:
  assumes "sorted (map fst xs)" and "max_bytes \<le> u64_max"
  shows "\<exists>l log. local_sends (LocalStreamLimiter_new rand shift max_bytes) xs = Ok (l, log)
    \<and> (\<forall>s. sent_in (FixedWindow_new rand shift None) s log \<le> max_bytes)"
proof (cases xs)
  case (Cons x xs')
  obtain t want can where x: "x = (t, want, can)"
    by (cases x)
  let ?l = "LocalStreamLimiter_new rand shift max_bytes" and ?w = "FixedWindow_new rand shift None"
  have wf: "local_wf ?l"
    using assms(2) by (rule local_wf_new)
  have s: "sorted (t # map fst xs)"
    using assms(1) Cons x by auto
  have "local_sends ?l xs = local_sends (turn ?l t) xs"
    using local_sends_turn [OF wf] Cons x by simp
  moreover have "LSL_window (turn ?l t) = ?w" "LSL_max_bytes (turn ?l t) = max_bytes"
      "LSL_time_slice_id (turn ?l t) = FixedWindow_slice_id ?w t"
    by (simp_all add: LocalStreamLimiter_new_def)
  ultimately show ?thesis
    using local_sends_bound [OF window_of_new, of "turn ?l t" rand shift None t xs] local_wf_turn [OF wf, of t] s
    by (metis add_leD2)
qed simp

text \<open>The bytes sent from a time on and before another, in milliseconds of the clock.\<close>

definition sent_between :: "nat \<Rightarrow> nat \<Rightarrow> (u64 \<times> nat) list \<Rightarrow> nat" where
  "sent_between a b log = sum_list (map snd (filter (\<lambda>(t, _). a \<le> unat t \<and> unat t < b) log))"

lemma sent_between_slice:
  assumes "window_of w k" and "unat t div 2 ^ k = j"
  shows "sent_between (j * 2 ^ k) ((j + 1) * 2 ^ k) log = sent_in w (FixedWindow_slice_id w t) log"
proof -
  have "j * 2 ^ k \<le> unat t' \<and> unat t' < (j + 1) * 2 ^ k \<longleftrightarrow> unat t' div 2 ^ k = unat t div 2 ^ k" for t' :: u64
    using div_nat_eqI [of "2 ^ k" j "unat t'"] div_times_less_eq_dividend [of "unat t'" "2 ^ k"]
      dividend_less_div_times [of "2 ^ k" "unat t'"]
    unfolding assms(2) by (auto simp: mult.commute add.commute)
  then show ?thesis
    by (simp add: sent_between_def sent_in_def slice_id_eq_iff [OF assms(1)])
qed

lemma sent_between_window:
  assumes "window_of w k" and "\<And>s. sent_in w s log \<le> m"
  shows "sent_between (j * 2 ^ k) ((j + 1) * 2 ^ k) log \<le> m"
proof (cases "filter (\<lambda>(t, _). j * 2 ^ k \<le> unat t \<and> unat t < (j + 1) * 2 ^ k) log")
  case Nil
  then show ?thesis by (simp add: sent_between_def)
next
  case (Cons e es)
  then have "e \<in> set (filter (\<lambda>(t, _). j * 2 ^ k \<le> unat t \<and> unat t < (j + 1) * 2 ^ k) log)" by simp
  then have "j * 2 ^ k \<le> unat (fst e)" "unat (fst e) < (j + 1) * 2 ^ k" by auto
  then have "unat (fst e) div 2 ^ k = j" by (intro div_nat_eqI) (simp_all add: mult.commute)
  from sent_between_slice [OF assms(1) this, of log] assms(2) show ?thesis by simp
qed

lemma sent_between_split: "sent_between a c log \<le> sent_between a b log + sent_between b c log"
  by (induction log) (auto simp: sent_between_def)

lemma sent_between_mono: "a' \<le> a \<Longrightarrow> b \<le> b' \<Longrightarrow> sent_between a b log \<le> sent_between a' b' log"
  by (induction log) (auto simp: sent_between_def)

text \<open>
  C35. A connection never sends more than \<open>max_bytes\<close> in a window of the clock, the windows being
  the \<open>2 ^ shift\<close> milliseconds (\<open>2 ^ 12\<close> at most) from each multiple of that length on, and so
  never more than twice as much in any period of this length; however it asks for bytes and however
  many of the allowed bytes it then sends, as long as its clock does not go backwards. No check and
  no update of the limiter panics.
\<close>

theorem local_stream_rate_bound:
  assumes "sorted (map fst xs)" and "max_bytes \<le> u64_max" and "window = 2 ^ min shift 12"
  shows "\<exists>l log. local_sends (LocalStreamLimiter_new rand shift max_bytes) xs = Ok (l, log)
    \<and> (\<forall>j. sent_between (j * window) ((j + 1) * window) log \<le> max_bytes)
    \<and> (\<forall>t. sent_between t (t + window) log \<le> 2 * max_bytes)"
proof -
  let ?w = "FixedWindow_new rand shift None"
  obtain l log where run: "local_sends (LocalStreamLimiter_new rand shift max_bytes) xs = Ok (l, log)"
      and slices: "\<And>s. sent_in ?w s log \<le> max_bytes"
    using local_sends_slices [OF assms(1,2), of rand shift] by blast
  have aligned: "sent_between (j * window) ((j + 1) * window) log \<le> max_bytes" for j
    unfolding assms(3) by (rule sent_between_window [OF window_of_new slices])
  have "sent_between t (t + window) log \<le> 2 * max_bytes" for t
  proof -
    let ?j = "t div window"
    have pos: "0 < window" by (simp add: assms(3))
    have "?j * window \<le> t" "t + window \<le> (?j + 1 + 1) * window"
      using dividend_less_div_times [OF pos, of t] by (simp_all add: add.commute)
    then have "sent_between t (t + window) log \<le> sent_between (?j * window) ((?j + 1 + 1) * window) log"
      by (rule sent_between_mono)
    also have "\<dots> \<le> sent_between (?j * window) ((?j + 1) * window) log
        + sent_between ((?j + 1) * window) ((?j + 1 + 1) * window) log"
      by (rule sent_between_split)
    finally show ?thesis using aligned [of ?j] aligned [of "?j + 1"] by linarith
  qed
  with run aligned show ?thesis by blast
qed

theorem local_stream_rate_bound_witness:
  "\<exists>l log. local_sends (LocalStreamLimiter_new 7 10 1000) [(0, 500, 500), (10, 520, 600), (20, 20, 20), (1024, 20, 20)]
      = Ok (l, log)
    \<and> sent_between 0 1024 log \<le> 1000"
proof -
  have "\<exists>l log. local_sends (LocalStreamLimiter_new 7 10 1000) [(0, 500, 500), (10, 520, 600), (20, 20, 20), (1024, 20, 20)]
      = Ok (l, log) \<and> (\<forall>j. sent_between (j * 1024) ((j + 1) * 1024) log \<le> 1000)
    \<and> (\<forall>t. sent_between t (t + 1024) log \<le> 2 * 1000)"
    by (rule local_stream_rate_bound) (simp_all add: u64_max_def)
  then obtain l log where "local_sends (LocalStreamLimiter_new 7 10 1000)
      [(0, 500, 500), (10, 520, 600), (20, 20, 20), (1024, 20, 20)] = Ok (l, log)"
      "\<forall>j. sent_between (j * 1024) ((j + 1) * 1024) log \<le> 1000"
    by blast
  then show ?thesis by (metis add_0 mult_1 mult_zero_left)
qed

text \<open>
  C38. The delay a full window reports is exact: a check at any moment before it is over is told to wait
  for the rest of it, the check at its end is allowed to send.
\<close>

theorem local_stream_delay_exact:
  assumes "local_wf l" and "LocalStreamLimiter_check l t want = Ok (l', DelayFor d)" and "0 < LSL_max_bytes l"
    and "unat t + unat d \<le> u64_max"
  shows "(\<forall>e < unat d. LocalStreamLimiter_check l' (t + of_nat e) want' = Ok (l', DelayFor (d - of_nat e)))
    \<and> (\<exists>l2. LocalStreamLimiter_check l' (t + d) want' = Ok (l2, AdvanceBy (min want' (LSL_max_bytes l))))"
proof -
  obtain k where k: "window_of (LSL_window l) k"
    using assms(1) by (auto simp: local_wf_def)
  have l': "l' = turn l t" "LSL_cur_bytes (turn l t) = LSL_max_bytes l" and d: "d = FixedWindow_delay (LSL_window l) t"
    using assms(2) by (auto simp: local_check_eq [OF assms(1)] split: if_splits)
  have "LocalStreamLimiter_check l' (t + of_nat e) want' = Ok (l', DelayFor (d - of_nat e))" if "e < unat d" for e
  proof -
    have "FixedWindow_slice_id (LSL_window l) (t + of_nat e) = FixedWindow_slice_id (LSL_window l) t"
      using window_delay_exact(1) [OF k] assms(4) that d by simp
    moreover have "FixedWindow_delay (LSL_window l) (t + of_nat e) = d - of_nat e"
      using window_delay_rest [OF k] assms(4) that d by simp
    ultimately show ?thesis
      using l'(2) unfolding l'(1) local_check_eq [OF local_wf_turn [OF assms(1)]] by (simp only: turn_again turn_sel(1,2)) simp
  qed
  moreover have "FixedWindow_slice_id (LSL_window l) (t + d) \<noteq> FixedWindow_slice_id (LSL_window l) t"
    using window_delay_exact(2) [OF k] assms(4) d by simp
  then have "LocalStreamLimiter_check l' (t + d) want' = Ok (turn l' (t + d), AdvanceBy (min want' (LSL_max_bytes l)))"
    using local_wf_turn [OF assms(1), of t] l' assms(3) by (simp add: local_check_eq)
  ultimately show ?thesis
    by blast
qed

theorem local_stream_delay_exact_witness:
  "let l = \<lparr>LSL_window = FixedWindow_new 7 10 None, LSL_max_bytes = 1000, LSL_time_slice_id = 7, LSL_cur_bytes = 1000\<rparr> in
   LocalStreamLimiter_check l (20 + of_nat 4) 1 = Ok (l, DelayFor (1004 - of_nat 4))
     \<and> (\<exists>l2. LocalStreamLimiter_check l (20 + 1004) 1 = Ok (l2, AdvanceBy (min 1 1000)))"
proof -
  let ?l = "\<lparr>LSL_window = FixedWindow_new 7 10 None, LSL_max_bytes = 1000, LSL_time_slice_id = 7, LSL_cur_bytes = 1000\<rparr>"
  have wf: "local_wf ?l"
    using window_of_new by (auto simp: local_wf_def u64_max_def)
  have "LocalStreamLimiter_check ?l 20 20 = Ok (?l, DelayFor 1004)"
    by (simp add: LocalStreamLimiter_check_def FixedWindow_slice_id_def FixedWindow_delay_def FixedWindow_new_def
        RATE_LIMIT_SHIFT_MILLIS_MAX_def usize_sub_def)
  note exact = local_stream_delay_exact [OF wf this, of 1]
  have "LocalStreamLimiter_check ?l (20 + of_nat 4) 1 = Ok (?l, DelayFor (1004 - of_nat 4))"
    by (rule exact [THEN conjunct1, rule_format]) (simp_all add: u64_max_def)
  moreover have "\<exists>l2. LocalStreamLimiter_check ?l (20 + 1004) 1 = Ok (l2, AdvanceBy (min 1 1000))"
    using exact by (simp add: u64_max_def)
  ultimately show ?thesis
    unfolding Let_def by blast
qed

section \<open>The token bucket\<close>

fun bucket_takes :: "bucket_call \<times> (nat option, unit) res \<Rightarrow> nat" where
  "bucket_takes (TryConsume n, Ok (Some k)) = k"
| "bucket_takes _ = 0"

fun bucket_gives :: "nat \<Rightarrow> bucket_call \<times> (nat option, unit) res \<Rightarrow> nat" where
  "bucket_gives replenish (Release n, _) = n"
| "bucket_gives replenish (Replenish, _) = replenish"
| "bucket_gives replenish (TryConsume n, _) = 0"

interpretation bucket: accounted_cell "bucket_body config" "\<lambda>v. v \<le> GSC_max_burst_bytes config"
  bucket_takes "bucket_gives (GSC_replenish_bytes config)" for config
proof (unfold_locales, goal_cases)
  case (1 v c v' r)
  then show ?case
    by (cases c) (auto simp: try_consume_pass_def add_bytes_pass_def Let_def split: if_splits option.splits)
next
  case (2 c v v' r)
  then show ?case
    by (cases c) (auto simp: try_consume_pass_def add_bytes_pass_def checked_add_eq_Some Let_def split: if_splits option.splits)
next
  case (3 c v r)
  then show ?case
    by (cases c) (auto simp: try_consume_pass_def add_bytes_pass_def Let_def split: if_splits option.splits)
qed

text \<open>What each call does on its own.\<close>

definition bucket_spec :: "GlobalStreamSpeedLimitConfig \<Rightarrow> nat \<Rightarrow> bucket_call \<Rightarrow> nat \<times> (nat option, unit) res" where
  "bucket_spec config v c =
     (let add = (\<lambda>n. if GSC_max_burst_bytes config \<le> v then (v, Ok None)
                     else if u64_max < v + n then (v, Panic)
                     else (min (v + n) (GSC_max_burst_bytes config), Ok None))
      in
      case c of
        TryConsume n \<Rightarrow> (v - n, Ok (if v = 0 then None else Some (min n v)))
      | Release n \<Rightarrow> add n
      | Replenish \<Rightarrow> add (GSC_replenish_bytes config))"

lemma bucket_atomic_call: "atomic_call (bucket_body config) c v = bucket_spec config v c"
  by (cases c)
     (auto simp: atomic_call_def bucket_spec_def try_consume_pass_def add_bytes_pass_def checked_add_def min_def)

fun bucket_specs :: "GlobalStreamSpeedLimitConfig \<Rightarrow> nat \<Rightarrow> bucket_call list \<Rightarrow> nat \<times> (nat option, unit) res list" where
  "bucket_specs config v [] = (v, [])"
| "bucket_specs config v (c # cs) =
     (let (v, r) = bucket_spec config v c; (v, rs) = bucket_specs config v cs in (v, r # rs))"

lemma sequential_bucket_specs:
  "sequential (bucket_body config) v es v' \<longleftrightarrow> bucket_specs config v (map fst es) = (v', map snd es)"
proof (induction es arbitrary: v)
  case (Cons e es)
  then show ?case
    by (cases e; cases "bucket_spec config v (fst e)"; cases "bucket_specs config (fst (bucket_spec config v (fst e))) (map fst es)")
       (auto simp: bucket_atomic_call)
qed auto

text \<open>
  C8. The compare-exchange loops of the shared token bucket implement atomic operations: whatever way
  the threads that consume, release and replenish interleave, there is an order of the completed
  calls (the order of their last access to the counter) in which the specification, run one call
  at a time, gives every call its result and the counter its value.
\<close>

theorem token_bucket_linearizable:
  assumes "cell_run (bucket_body config) (\<lambda>_. False) n (v, ths) es (v', ths')"
  shows "bucket_specs config v (map fst es) = (v', map snd es)"
  using cell_run_sequential [OF assms] by (simp add: sequential_bucket_specs)

text \<open>
  Two threads consume from a bucket of ten: the exchange of the first fails after the second took its
  bytes, and the retry takes what is left.
\<close>

lemma bucket_race:
  "cell_run (bucket_body (GSC_per_second 10)) (\<lambda>_. False) 5 (10, [Idle, Idle])
     [(TryConsume 6, Ok (Some 6)), (TryConsume 7, Ok (Some 4))] (0, [Idle, Idle])"
proof -
  let ?b = "bucket_body (GSC_per_second 10)" and ?r = "\<lambda>_ :: bucket_call. False"
  have "cell_step ?b ?r (10, [Idle, Idle]) None (10, [Idle, Idle][0 := Trying (TryConsume 7) 10])"
    by (rule cell_step.load [where c = "TryConsume 7"]) (simp_all add: resume_def try_consume_pass_def)
  from cell_run.silent [OF cell_run.start this]
  have 1: "cell_run ?b ?r 1 (10, [Idle, Idle]) [] (10, [Trying (TryConsume 7) 10, Idle])"
    by simp
  have "cell_step ?b ?r (10, [Trying (TryConsume 7) 10, Idle]) None
      (10, [Trying (TryConsume 7) 10, Idle][1 := Trying (TryConsume 6) 10])"
    by (rule cell_step.load [where c = "TryConsume 6"]) (simp_all add: resume_def try_consume_pass_def)
  from cell_run.silent [OF 1 this]
  have 2: "cell_run ?b ?r 2 (10, [Idle, Idle]) [] (10, [Trying (TryConsume 7) 10, Trying (TryConsume 6) 10])"
    by (simp add: numeral_2_eq_2)
  have "cell_step ?b ?r (10, [Trying (TryConsume 7) 10, Trying (TryConsume 6) 10]) (Some (TryConsume 6, Ok (Some 6)))
      (4, [Trying (TryConsume 7) 10, Trying (TryConsume 6) 10][1 := Idle])"
    by (rule cell_step.exchange) (simp_all add: try_consume_pass_def)
  from cell_run.complete [OF 2 this]
  have 3: "cell_run ?b ?r 3 (10, [Idle, Idle]) [(TryConsume 6, Ok (Some 6))] (4, [Trying (TryConsume 7) 10, Idle])"
    by (simp add: numeral_3_eq_3)
  have "cell_step ?b ?r (4, [Trying (TryConsume 7) 10, Idle]) None (4, [Trying (TryConsume 7) 10, Idle][0 := Trying (TryConsume 7) 4])"
    by (rule cell_step.retry [where c = "TryConsume 7" and w = 10]) (simp_all add: resume_def try_consume_pass_def)
  from cell_run.silent [OF 3 this]
  have 4: "cell_run ?b ?r 4 (10, [Idle, Idle]) [(TryConsume 6, Ok (Some 6))] (4, [Trying (TryConsume 7) 4, Idle])"
    by simp
  have "cell_step ?b ?r (4, [Trying (TryConsume 7) 4, Idle]) (Some (TryConsume 7, Ok (Some 4)))
      (0, [Trying (TryConsume 7) 4, Idle][0 := Idle])"
    by (rule cell_step.exchange) (simp_all add: try_consume_pass_def)
  from cell_run.complete [OF 4 this] show ?thesis
    by simp
qed

theorem token_bucket_linearizable_witness:
  "bucket_specs (GSC_per_second 10) 10 [TryConsume 6, TryConsume 7] = (0, [Ok (Some 6), Ok (Some 4)])"
  using token_bucket_linearizable [OF bucket_race] by simp

text \<open>
  C34. The rate of a shared bucket: in any part of any interleaving that starts with at most a full
  bucket, the bytes that connections take and do not give back are at most the burst plus the
  replenished bytes, and the bucket never holds more than the burst.
\<close>

theorem token_bucket_rate_bound:
  assumes "cell_run (bucket_body config) (\<lambda>_. False) n (v, ths) es (v', ths')" and "v \<le> GSC_max_burst_bytes config"
  shows "sum_list (map bucket_takes es)
      \<le> GSC_max_burst_bytes config + sum_list (map (bucket_gives (GSC_replenish_bytes config)) es)
    \<and> v' \<le> GSC_max_burst_bytes config"
  using bucket.run_account [OF assms(1)] assms(2) by simp

theorem token_bucket_rate_bound_witness:
  "sum_list (map bucket_takes [(TryConsume 6, Ok (Some 6)), (TryConsume 7, Ok (Some 4))]) \<le> 10"
  using token_bucket_rate_bound [OF bucket_race] by (simp add: GSC_per_second_def)

section \<open>A connection with its buckets\<close>

text \<open>
  The account of a connection with the buckets in its list: what a bucket held in the store \<open>st0\<close>
  is what it holds now and what the connection took from it and did not settle yet.
\<close>

definition charge :: "GlobalLimiter \<Rightarrow> nat" where
  "charge l = (case GL_checked_bytes l of Some n \<Rightarrow> n | None \<Rightarrow> 0)"

definition ledger :: "('g \<Rightarrow> nat) \<Rightarrow> ('g \<Rightarrow> nat) \<Rightarrow> (nat \<Rightarrow> 'g) \<Rightarrow> (nat \<Rightarrow> 'g) \<Rightarrow> GlobalLimiter list \<Rightarrow> bool" where
  "ledger tokens cap st0 st ls \<longleftrightarrow>
     (\<forall>l \<in> set ls. tokens (st (GL_inner l)) + charge l = tokens (st0 (GL_inner l))
        \<and> cap (st (GL_inner l)) = cap (st0 (GL_inner l)) \<and> tokens (st0 (GL_inner l)) \<le> cap (st0 (GL_inner l)))"

definition frame :: "GlobalLimiter list \<Rightarrow> (nat \<Rightarrow> 'g) \<Rightarrow> (nat \<Rightarrow> 'g) \<Rightarrow> bool" where
  "frame ls st st' \<longleftrightarrow> (\<forall>a. a \<notin> GL_inner ` set ls \<longrightarrow> st' a = st a)"

definition none_checked :: "GlobalLimiter list \<Rightarrow> bool" where
  "none_checked ls \<longleftrightarrow> (\<forall>l \<in> set ls. GL_checked_bytes l = None)"

fun prefix_checked :: "GlobalLimiter list \<Rightarrow> bool" where
  "prefix_checked [] \<longleftrightarrow> True"
| "prefix_checked (l # ls) \<longleftrightarrow> (if GL_checked_bytes l = None then none_checked ls else prefix_checked ls)"

definition same_buckets :: "GlobalLimiter list \<Rightarrow> GlobalLimiter list \<Rightarrow> bool" where
  "same_buckets ls ls' \<longleftrightarrow> map GL_inner ls' = map GL_inner ls"

lemma res_bind_assoc: "res_bind (res_bind m f) g = res_bind m (\<lambda>x. res_bind (f x) g)"
  by (cases m) simp_all

lemma ledger_simps [simp]:
  "ledger tokens cap st0 st []"
  "ledger tokens cap st0 st (l # ls) \<longleftrightarrow>
     tokens (st (GL_inner l)) + charge l = tokens (st0 (GL_inner l)) \<and> cap (st (GL_inner l)) = cap (st0 (GL_inner l))
     \<and> tokens (st0 (GL_inner l)) \<le> cap (st0 (GL_inner l)) \<and> ledger tokens cap st0 st ls"
  by (auto simp: ledger_def)

lemma none_checked_simps [simp]:
  "none_checked []" "none_checked (l # ls) \<longleftrightarrow> GL_checked_bytes l = None \<and> none_checked ls"
  by (auto simp: none_checked_def)

lemma same_buckets_simps [simp]:
  "same_buckets ls []\<longleftrightarrow> ls = []" "same_buckets [] ls \<longleftrightarrow> ls = []"
  "same_buckets (l # ls) (l' # ls') \<longleftrightarrow> GL_inner l' = GL_inner l \<and> same_buckets ls ls'"
  "same_buckets ls ls"
  by (auto simp: same_buckets_def)

lemma charge_simps [simp]:
  "charge (l\<lparr>GL_checked_bytes := Some n\<rparr>) = n" "charge (l\<lparr>GL_checked_bytes := None\<rparr>) = 0"
  "GL_checked_bytes l = None \<Longrightarrow> charge l = 0" "GL_checked_bytes l = Some n \<Longrightarrow> charge l = n"
  by (simp_all add: charge_def)

lemma ledger_cong:
  "(\<And>a. a \<in> GL_inner ` set ls \<Longrightarrow> st0 a = st0' a \<and> st a = st' a) \<Longrightarrow>
     ledger tokens cap st0 st ls = ledger tokens cap st0' st' ls"
  by (auto simp: ledger_def)

lemma ledger_upd:
  "a \<notin> GL_inner ` set ls \<Longrightarrow> ledger tokens cap st0 (st(a := g)) ls = ledger tokens cap st0 st ls"
  "a \<notin> GL_inner ` set ls \<Longrightarrow> ledger tokens cap (st0(a := g)) st ls = ledger tokens cap st0 st ls"
  by (auto intro!: ledger_cong)

lemma same_buckets_set: "same_buckets ls ls' \<Longrightarrow> GL_inner ` set ls' = GL_inner ` set ls"
  unfolding same_buckets_def by (metis set_map)

lemma frame_Cons:
  "frame ls (st(GL_inner l := g)) st' \<Longrightarrow> frame (l # ls) st st'"
  by (auto simp: frame_def)

lemma frame_at: "frame ls (st(a := g)) st' \<Longrightarrow> a \<notin> GL_inner ` set ls \<Longrightarrow> st' a = g"
  by (auto simp: frame_def)

lemma frame_refl [simp]: "frame ls st st"
  by (simp add: frame_def)

text \<open>The first part of a check: the window of the connection.\<close>

definition local_check :: "StreamLimiter \<Rightarrow> u64 \<Rightarrow> nat \<Rightarrow> (StreamLimiter \<times> StreamLimitAction, unit) res" where
  "local_check self t target =
     (if SL_local_is_set self
      then res_bind (LocalStreamLimiter_check (SL_local self) t target) (\<lambda>(local, a). Ok (self\<lparr>SL_local := local\<rparr>, a))
      else Ok (self, AdvanceBy target))"

definition turned :: "StreamLimiter \<Rightarrow> u64 \<Rightarrow> StreamLimiter" where
  "turned self t = self\<lparr>SL_local := (if SL_local_is_set self then turn (SL_local self) t else SL_local self)\<rparr>"

lemma local_phase:
  assumes "SL_local_is_set self \<Longrightarrow> local_wf (SL_local self)"
  obtains d where "local_check self t target = Ok (turned self t, DelayFor d)"
    | n where "local_check self t target = Ok (turned self t, AdvanceBy n)" "n \<le> target"
      "SL_local_is_set self \<longrightarrow> LSL_cur_bytes (turn (SL_local self) t) + n \<le> LSL_max_bytes (SL_local self)"
proof (cases "SL_local_is_set self")
  case True
  then have wf: "local_wf (SL_local self)"
    using assms by blast
  have "LSL_cur_bytes (turn (SL_local self) t) \<le> LSL_max_bytes (SL_local self)"
    using local_wf_turn [OF wf, of t] by (simp add: local_wf_def)
  then show ?thesis
    using that True by (cases "LSL_cur_bytes (turn (SL_local self) t) = LSL_max_bytes (SL_local self)")
      (auto simp: local_check_def local_check_eq [OF wf] turned_def simp del: turn_sel(4))
next
  case False
  then show ?thesis
    using that(2) [of target] by (simp add: local_check_def turned_def)
qed

lemma StreamLimiter_check_eq:
  "StreamLimiter_check lim st self t target =
     res_bind (local_check self t target) (\<lambda>(self, a).
     case a of
       AdvanceBy n \<Rightarrow>
         (case check_loop lim st n (SL_global self) of (st, ls, b) \<Rightarrow>
          res_bind
            (case b of
               AdvanceBy k \<Rightarrow> if k < target then shrink_loop lim st k ls else Ok (st, ls)
             | _ \<Rightarrow> release_loop lim st ls)
            (\<lambda>(st, ls). Ok (st, self\<lparr>SL_global := ls\<rparr>, b)))
     | _ \<Rightarrow> Ok (st, self, a))"
  unfolding StreamLimiter_check_def local_check_def Let_def StreamLimiter_release_global_def
  by (intro arg_cong2 [where f = res_bind] refl ext)
     (auto simp: res_bind_assoc split_def split: StreamLimitAction.splits)

text \<open>
  What a bucket promises: it allows no more than is asked for and charges exactly what it allows, it
  charges nothing when it delays, and it takes back what fits.
\<close>

locale stream_buckets =
  fixes lim :: "'g GlobalStreamLimit" and tokens :: "'g \<Rightarrow> nat" and cap :: "'g \<Rightarrow> nat"
  assumes check_advance: "gsl_check lim g n = (g', AdvanceBy k) \<Longrightarrow> k \<le> n \<and> tokens g' + k = tokens g \<and> cap g' = cap g"
    and check_delay: "gsl_check lim g n = (g', a) \<Longrightarrow> \<forall>k. a \<noteq> AdvanceBy k \<Longrightarrow> g' = g"
    and release: "tokens g + n \<le> cap g \<Longrightarrow>
      \<exists>g'. gsl_release lim g n = Ok g' \<and> tokens g' = tokens g + n \<and> cap g' = cap g"
begin

lemma check_loop_ledger:
  assumes "distinct (map GL_inner ls)" and "none_checked ls" and "ledger tokens cap st st ls"
    and "check_loop lim st n ls = (st', ls', a)"
  shows "same_buckets ls ls' \<and> frame ls st st' \<and> ledger tokens cap st st' ls' \<and>
    (case a of
       AdvanceBy k \<Rightarrow> k \<le> n \<and> (\<forall>l \<in> set ls'. \<exists>c. GL_checked_bytes l = Some c \<and> k \<le> c \<and> c \<le> n)
     | _ \<Rightarrow> prefix_checked ls')"
  using assms
proof (induction ls arbitrary: st n ls')
  case Nil
  then show ?case
    by auto
next
  case (Cons l ls)
  let ?a = "GL_inner l"
  obtain g b where c: "gsl_check lim (st ?a) n = (g, b)"
    by (cases "gsl_check lim (st ?a) n")
  show ?case
  proof (cases "\<exists>k. b = AdvanceBy k")
    case True
    then obtain k where b: "b = AdvanceBy k"
      by blast
    obtain ls1 where r: "check_loop lim (st(?a := g)) k ls = (st', ls1, a)" "ls' = l\<lparr>GL_checked_bytes := Some k\<rparr> # ls1"
      using Cons.prems(4) c b by (auto split: prod.splits)
    have a: "?a \<notin> GL_inner ` set ls"
      using Cons.prems(1) by auto
    have d: "distinct (map GL_inner ls)" and nc: "none_checked ls"
        and led: "ledger tokens cap (st(?a := g)) (st(?a := g)) ls"
      using Cons.prems(1-3) by (simp_all add: ledger_upd(1,2) [OF a])
    have IH: "same_buckets ls ls1" "frame ls (st(?a := g)) st'" "ledger tokens cap (st(?a := g)) st' ls1"
        "case a of AdvanceBy k' \<Rightarrow> k' \<le> k \<and> (\<forall>l \<in> set ls1. \<exists>c. GL_checked_bytes l = Some c \<and> k' \<le> c \<and> c \<le> k)
         | _ \<Rightarrow> prefix_checked ls1"
      using Cons.IH [OF d nc led r(1)] by blast+
    have "?a \<notin> GL_inner ` set ls1"
      using a same_buckets_set [OF IH(1)] by simp
    then have led': "ledger tokens cap st st' ls1"
      using IH(3) ledger_upd(2) by metis
    have adv: "k \<le> n" "tokens g + k = tokens (st ?a)" "cap g = cap (st ?a)"
      using check_advance [OF c [unfolded b]] by auto
    show ?thesis
      using IH(1,4) led' adv Cons.prems(3) frame_at [OF IH(2) a] frame_Cons [OF IH(2)] unfolding r(2)
      by (cases a) (auto intro: le_trans)
  next
    case False
    then have "g = st ?a"
      using check_delay [OF c] by auto
    then show ?thesis
      using False c Cons.prems by (cases b) auto
  qed
qed

lemma release_loop_ledger:
  assumes "distinct (map GL_inner ls)" and "prefix_checked ls" and "ledger tokens cap st0 st ls"
  shows "\<exists>st' ls'. release_loop lim st ls = Ok (st', ls') \<and> same_buckets ls ls' \<and> frame ls st st'
    \<and> ledger tokens cap st0 st' ls' \<and> none_checked ls'"
  using assms
proof (induction ls arbitrary: st)
  case (Cons l ls)
  let ?a = "GL_inner l"
  have a: "?a \<notin> GL_inner ` set ls"
    using Cons.prems(1) by auto
  show ?case
  proof (cases "GL_checked_bytes l")
    case None
    then show ?thesis
      using Cons.prems by auto
  next
    case (Some n)
    then obtain g where g: "gsl_release lim (st ?a) n = Ok g" "tokens g = tokens (st0 ?a)" "cap g = cap (st0 ?a)"
      using release [of "st ?a" n] Cons.prems(3) by auto
    have d: "distinct (map GL_inner ls)" "prefix_checked ls" "ledger tokens cap st0 (st(?a := g)) ls"
      using Cons.prems Some by (simp_all add: ledger_upd(1) [OF a])
    obtain st' ls' where r: "release_loop lim (st(?a := g)) ls = Ok (st', ls')" "same_buckets ls ls'"
        "frame ls (st(?a := g)) st'" "ledger tokens cap st0 st' ls'" "none_checked ls'"
      using Cons.IH [OF d] by blast
    then show ?thesis
      using g Some Cons.prems frame_at [OF r(3) a] frame_Cons [OF r(3)] by auto
  qed
qed simp

text \<open>Giving back all but \<open>k\<close> of the \<open>c\<close> bytes taken.\<close>

lemma release_part:
  assumes "tokens (st a) + c = tokens (st0 a)" and "cap (st a) = cap (st0 a)" and "tokens (st0 a) \<le> cap (st0 a)" and "k \<le> c"
  shows "\<exists>g. (if k < c then gsl_release lim (st a) (c - k) else Ok (st a)) = Ok g
    \<and> tokens g + k = tokens (st0 a) \<and> cap g = cap (st0 a)"
proof (cases "k < c")
  case True
  then have "tokens (st a) + (c - k) \<le> cap (st a)"
    using assms by linarith
  then obtain g where "gsl_release lim (st a) (c - k) = Ok g" "tokens g = tokens (st a) + (c - k)" "cap g = cap (st a)"
    using release by blast
  then show ?thesis
    using True assms by auto
next
  case False
  then show ?thesis
    using assms by auto
qed

lemma shrink_loop_ledger:
  assumes "distinct (map GL_inner ls)" and "\<forall>l \<in> set ls. \<exists>c. GL_checked_bytes l = Some c \<and> k \<le> c"
    and "ledger tokens cap st0 st ls"
  shows "\<exists>st' ls'. shrink_loop lim st k ls = Ok (st', ls') \<and> same_buckets ls ls' \<and> frame ls st st'
    \<and> ledger tokens cap st0 st' ls' \<and> (\<forall>l \<in> set ls'. GL_checked_bytes l = Some k)"
  using assms
proof (induction ls arbitrary: st)
  case (Cons l ls)
  let ?a = "GL_inner l"
  have a: "?a \<notin> GL_inner ` set ls"
    using Cons.prems(1) by auto
  obtain c where c: "GL_checked_bytes l = Some c" "k \<le> c"
    using Cons.prems(2) by auto
  obtain g where g: "(if k < c then gsl_release lim (st ?a) (c - k) else Ok (st ?a)) = Ok g"
      "tokens g + k = tokens (st0 ?a)" "cap g = cap (st0 ?a)"
    using release_part [of st ?a c st0 k] Cons.prems(3) c by (auto simp del: ledger_simps(1))
  have d: "distinct (map GL_inner ls)" "\<forall>l \<in> set ls. \<exists>c. GL_checked_bytes l = Some c \<and> k \<le> c"
      "ledger tokens cap st0 (st(?a := g)) ls"
    using Cons.prems by (simp_all add: ledger_upd(1) [OF a])
  obtain st' ls' where r: "shrink_loop lim (st(?a := g)) k ls = Ok (st', ls')" "same_buckets ls ls'"
      "frame ls (st(?a := g)) st'" "ledger tokens cap st0 st' ls'" "\<forall>l \<in> set ls'. GL_checked_bytes l = Some k"
    using Cons.IH [OF d] by blast
  show ?case
    using g c Cons.prems r frame_at [OF r(3) a] frame_Cons [OF r(3)] by auto
qed simp

lemma set_advance_loop_ledger:
  assumes "distinct (map GL_inner ls)" and "\<forall>l \<in> set ls. GL_checked_bytes l = Some k" and "m \<le> k"
    and "ledger tokens cap st0 st ls"
  shows "\<exists>st' ls'. set_advance_loop lim st m ls = Ok (st', ls') \<and> same_buckets ls ls' \<and> frame ls st st'
    \<and> (\<forall>l \<in> set ls. tokens (st' (GL_inner l)) + m = tokens (st0 (GL_inner l)) \<and> cap (st' (GL_inner l)) = cap (st0 (GL_inner l)))
    \<and> none_checked ls'"
  using assms
proof (induction ls arbitrary: st)
  case (Cons l ls)
  let ?a = "GL_inner l"
  have a: "?a \<notin> GL_inner ` set ls"
    using Cons.prems(1) by auto
  have c: "GL_checked_bytes l = Some k"
    using Cons.prems(2) by auto
  obtain g where g: "(if m < k then gsl_release lim (st ?a) (k - m) else Ok (st ?a)) = Ok g"
      "tokens g + m = tokens (st0 ?a)" "cap g = cap (st0 ?a)"
    using release_part [of st ?a k st0 m] Cons.prems(3,4) c by auto
  have d: "distinct (map GL_inner ls)" "\<forall>l \<in> set ls. GL_checked_bytes l = Some k"
      "ledger tokens cap st0 (st(?a := g)) ls"
    using Cons.prems by (simp_all add: ledger_upd(1) [OF a])
  obtain st' ls' where r: "set_advance_loop lim (st(?a := g)) m ls = Ok (st', ls')" "same_buckets ls ls'"
      "frame ls (st(?a := g)) st'" "none_checked ls'"
      "\<forall>l \<in> set ls. tokens (st' (GL_inner l)) + m = tokens (st0 (GL_inner l)) \<and> cap (st' (GL_inner l)) = cap (st0 (GL_inner l))"
    using Cons.IH [OF d(1,2) Cons.prems(3) d(3)] by blast
  show ?case
    using g c Cons.prems r frame_at [OF r(3) a] frame_Cons [OF r(3)] by auto
qed simp


lemma shrink_or_keep:
  assumes "distinct (map GL_inner ls)" and "\<forall>l \<in> set ls. \<exists>c. GL_checked_bytes l = Some c \<and> k \<le> c \<and> c \<le> target"
    and "ledger tokens cap st0 st ls"
  shows "\<exists>st' ls'. (if k < target then shrink_loop lim st k ls else Ok (st, ls)) = Ok (st', ls')
    \<and> same_buckets ls ls' \<and> frame ls st st' \<and> ledger tokens cap st0 st' ls' \<and> (\<forall>l \<in> set ls'. GL_checked_bytes l = Some k)"
proof (cases "k < target")
  case True
  have "\<forall>l \<in> set ls. \<exists>c. GL_checked_bytes l = Some c \<and> k \<le> c"
    using assms(2) by blast
  from shrink_loop_ledger [OF assms(1) this assms(3)] True show ?thesis
    by simp
next
  case False
  then have "\<forall>l \<in> set ls. GL_checked_bytes l = Some k"
    using assms(2) by fastforce
  with False assms(3) show ?thesis
    by simp
qed

text \<open>The check of the buckets, once the window allows \<open>n\<close> of the \<open>target\<close> bytes.\<close>

lemma buckets_phase:
  assumes "distinct (map GL_inner ls)" and "none_checked ls" and "ledger tokens cap st st ls"
    and "check_loop lim st n ls = (st1, ls1, b)" and "n \<le> target"
  shows "\<exists>st2 ls2.
    (case b of
       AdvanceBy k \<Rightarrow> if k < target then shrink_loop lim st1 k ls1 else Ok (st1, ls1)
     | _ \<Rightarrow> release_loop lim st1 ls1) = Ok (st2, ls2)
    \<and> same_buckets ls ls2 \<and> frame ls st st2 \<and> ledger tokens cap st st2 ls2
    \<and> (case b of AdvanceBy k \<Rightarrow> k \<le> n \<and> (\<forall>l \<in> set ls2. GL_checked_bytes l = Some k) | _ \<Rightarrow> none_checked ls2)"
proof -
  have loop: "same_buckets ls ls1" "frame ls st st1" "ledger tokens cap st st1 ls1"
      "case b of
         AdvanceBy k \<Rightarrow> k \<le> n \<and> (\<forall>l \<in> set ls1. \<exists>c. GL_checked_bytes l = Some c \<and> k \<le> c \<and> c \<le> n)
       | _ \<Rightarrow> prefix_checked ls1"
    using check_loop_ledger [OF assms(1-4)] by blast+
  have d: "distinct (map GL_inner ls1)"
    using assms(1) loop(1) by (simp add: same_buckets_def)
  have trans: "same_buckets ls ls2 \<and> frame ls st st2" if "same_buckets ls1 ls2" "frame ls1 st1 st2" for st2 ls2
    using that loop(1,2) same_buckets_set [OF loop(1)] by (simp add: same_buckets_def frame_def)
  show ?thesis
  proof (cases "\<exists>k. b = AdvanceBy k")
    case True
    then obtain k where b: "b = AdvanceBy k"
      by blast
    have k: "k \<le> n" "\<forall>l \<in> set ls1. \<exists>c. GL_checked_bytes l = Some c \<and> k \<le> c \<and> c \<le> target"
      using loop(4) assms(5) unfolding b by (auto intro: le_trans)
    obtain st2 ls2 where s: "(if k < target then shrink_loop lim st1 k ls1 else Ok (st1, ls1)) = Ok (st2, ls2)"
        "same_buckets ls1 ls2" "frame ls1 st1 st2" "ledger tokens cap st st2 ls2" "\<forall>l \<in> set ls2. GL_checked_bytes l = Some k"
      using shrink_or_keep [OF d k(2) loop(3)] by blast
    show ?thesis
      unfolding b StreamLimitAction.case using s trans [OF s(2,3)] k(1) by blast
  next
    case False
    then have "prefix_checked ls1"
      using loop(4) by (cases b) auto
    from release_loop_ledger [OF d this loop(3)] trans False show ?thesis
      by (cases b) auto
  qed
qed

lemma stream_check_ledger:
  assumes "distinct (map GL_inner (SL_global self))" and "none_checked (SL_global self)"
    and "ledger tokens cap st st (SL_global self)" and "SL_local_is_set self \<Longrightarrow> local_wf (SL_local self)"
  shows "\<exists>st' ls a. StreamLimiter_check lim st self t target = Ok (st', (turned self t)\<lparr>SL_global := ls\<rparr>, a)
    \<and> same_buckets (SL_global self) ls \<and> frame (SL_global self) st st' \<and> ledger tokens cap st st' ls
    \<and> (case a of
         AdvanceBy k \<Rightarrow> k \<le> target \<and> (\<forall>l \<in> set ls. GL_checked_bytes l = Some k)
           \<and> (SL_local_is_set self \<longrightarrow> LSL_cur_bytes (turn (SL_local self) t) + k \<le> LSL_max_bytes (SL_local self))
       | _ \<Rightarrow> none_checked ls)"
proof (rule local_phase [OF assms(4), of t target])
  fix d
  assume "local_check self t target = Ok (turned self t, DelayFor d)"
  then have "StreamLimiter_check lim st self t target = Ok (st, (turned self t)\<lparr>SL_global := SL_global self\<rparr>, DelayFor d)"
    unfolding StreamLimiter_check_eq by (simp add: turned_def)
  then show ?thesis
    using assms(2,3) by fastforce
next
  fix n
  assume n: "local_check self t target = Ok (turned self t, AdvanceBy n)" "n \<le> target"
    "SL_local_is_set self \<longrightarrow> LSL_cur_bytes (turn (SL_local self) t) + n \<le> LSL_max_bytes (SL_local self)"
  obtain st1 ls1 b where c: "check_loop lim st n (SL_global self) = (st1, ls1, b)"
    by (metis prod_cases3)
  obtain st2 ls2 where s: "(case b of
       AdvanceBy k \<Rightarrow> if k < target then shrink_loop lim st1 k ls1 else Ok (st1, ls1)
     | _ \<Rightarrow> release_loop lim st1 ls1) = Ok (st2, ls2)"
      "same_buckets (SL_global self) ls2" "frame (SL_global self) st st2" "ledger tokens cap st st2 ls2"
      "case b of AdvanceBy k \<Rightarrow> k \<le> n \<and> (\<forall>l \<in> set ls2. GL_checked_bytes l = Some k) | _ \<Rightarrow> none_checked ls2"
    using buckets_phase [OF assms(1-3) c n(2)] by blast
  have "StreamLimiter_check lim st self t target = Ok (st2, (turned self t)\<lparr>SL_global := ls2\<rparr>, b)"
    unfolding StreamLimiter_check_eq n(1) using c s(1) by (simp add: turned_def split: StreamLimitAction.splits if_splits)
  then show ?thesis
    using s(2-) n(2,3) by (intro exI [of _ st2] exI [of _ ls2] exI [of _ b]) (cases b; auto)
qed

lemma stream_set_advance_ledger:
  assumes "distinct (map GL_inner (SL_global self))" and "\<forall>l \<in> set (SL_global self). GL_checked_bytes l = Some k" and "m \<le> k"
    and "ledger tokens cap st0 st (SL_global self)" and "SL_local_is_set self \<Longrightarrow> local_wf (SL_local self)"
    and "SL_local_is_set self \<Longrightarrow> LSL_cur_bytes (SL_local self) + k \<le> LSL_max_bytes (SL_local self)"
  shows "\<exists>st' ls. StreamLimiter_set_advance lim st self m =
      Ok (st', self\<lparr>SL_local := (if SL_local_is_set self
        then (SL_local self)\<lparr>LSL_cur_bytes := LSL_cur_bytes (SL_local self) + m\<rparr> else SL_local self), SL_global := ls\<rparr>)
    \<and> same_buckets (SL_global self) ls \<and> none_checked ls
    \<and> (\<forall>l \<in> set (SL_global self). tokens (st' (GL_inner l)) + m = tokens (st0 (GL_inner l)) \<and> cap (st' (GL_inner l)) = cap (st0 (GL_inner l)))"
proof -
  obtain st' ls where s: "set_advance_loop lim st m (SL_global self) = Ok (st', ls)" "same_buckets (SL_global self) ls" "none_checked ls"
      "\<forall>l \<in> set (SL_global self). tokens (st' (GL_inner l)) + m = tokens (st0 (GL_inner l)) \<and> cap (st' (GL_inner l)) = cap (st0 (GL_inner l))"
    using set_advance_loop_ledger [OF assms(1-4)] by blast
  have "SL_local_is_set self \<Longrightarrow> LocalStreamLimiter_set_advance (SL_local self) m
      = Ok ((SL_local self)\<lparr>LSL_cur_bytes := LSL_cur_bytes (SL_local self) + m\<rparr>)"
    using assms(3,5,6) by (intro local_set_advance) (auto simp: local_wf_def)
  with s show ?thesis
    by (auto simp: StreamLimiter_set_advance_def)
qed

end

definition bucket_cap :: "GlobalStreamLimiter \<Rightarrow> nat" where
  "bucket_cap g = min (GSC_max_burst_bytes (GSL_config g)) u64_max"

interpretation buckets: stream_buckets token_bucket GSL_byte_tokens bucket_cap
proof (unfold_locales, goal_cases)
  case (1 g n g' k)
  then show ?case
    by (auto simp: token_bucket_def GlobalStreamLimiter_check_def GlobalStreamLimiter_try_consume_def bucket_call_def
        bucket_atomic_call bucket_spec_def bucket_cap_def split: if_splits)
next
  case (2 g n g' a)
  then show ?case
    by (auto simp: token_bucket_def GlobalStreamLimiter_check_def GlobalStreamLimiter_try_consume_def bucket_call_def
        bucket_atomic_call bucket_spec_def split: if_splits)
next
  case (3 g n)
  then show ?case
    by (auto simp: token_bucket_def GlobalStreamLimiter_release_def bucket_call_def
        bucket_atomic_call bucket_spec_def bucket_cap_def)
qed

text \<open>
  A limiter between two transfers: its buckets are different ones and not over full, nothing is
  taken and not settled, and its window is well formed.
\<close>

definition limiter_wf :: "(nat \<Rightarrow> GlobalStreamLimiter) \<Rightarrow> StreamLimiter \<Rightarrow> bool" where
  "limiter_wf st self \<longleftrightarrow> distinct (map GL_inner (SL_global self)) \<and> none_checked (SL_global self)
     \<and> (\<forall>l \<in> set (SL_global self). GSL_byte_tokens (st (GL_inner l)) \<le> bucket_cap (st (GL_inner l)))
     \<and> (SL_local_is_set self \<longrightarrow> local_wf (SL_local self))"

lemma limiter_wf_ledger: "limiter_wf st self \<Longrightarrow> ledger GSL_byte_tokens bucket_cap st st (SL_global self)"
  by (auto simp: limiter_wf_def ledger_def none_checked_def)

lemma ball_same_buckets:
  "same_buckets ls ls' \<Longrightarrow> (\<forall>l \<in> set ls'. P (GL_inner l)) \<longleftrightarrow> (\<forall>l \<in> set ls. P (GL_inner l))"
proof -
  assume same: "same_buckets ls ls'"
  have "(\<forall>l \<in> set ls'. P (GL_inner l)) \<longleftrightarrow> (\<forall>a \<in> GL_inner ` set ls'. P a)"
    by simp
  also have "\<dots> \<longleftrightarrow> (\<forall>a \<in> GL_inner ` set ls. P a)"
    by (simp only: same_buckets_set [OF same])
  also have "\<dots> \<longleftrightarrow> (\<forall>l \<in> set ls. P (GL_inner l))"
    by simp
  finally show ?thesis .
qed

lemma settle_exactly:
  assumes "distinct (map GL_inner (SL_global self))" and "\<forall>l \<in> set (SL_global self). GL_checked_bytes l = Some k" and "m \<le> k"
    and "ledger GSL_byte_tokens bucket_cap st0 st (SL_global self)" and "SL_local_is_set self \<Longrightarrow> local_wf (SL_local self)"
    and "SL_local_is_set self \<Longrightarrow> LSL_cur_bytes (SL_local self) + k \<le> LSL_max_bytes (SL_local self)"
  shows "\<exists>st2 self2. StreamLimiter_set_advance token_bucket st self m = Ok (st2, self2) \<and> limiter_wf st2 self2
    \<and> (\<forall>l \<in> set (SL_global self). GSL_byte_tokens (st2 (GL_inner l)) + m = GSL_byte_tokens (st0 (GL_inner l)))
    \<and> (SL_local_is_set self \<longrightarrow> LSL_cur_bytes (SL_local self2) = LSL_cur_bytes (SL_local self) + m)"
proof -
  let ?local = "if SL_local_is_set self
    then (SL_local self)\<lparr>LSL_cur_bytes := LSL_cur_bytes (SL_local self) + m\<rparr> else SL_local self"
  obtain st2 ls where s: "StreamLimiter_set_advance token_bucket st self m = Ok (st2, self\<lparr>SL_local := ?local, SL_global := ls\<rparr>)"
      "same_buckets (SL_global self) ls" "none_checked ls"
      "\<forall>l \<in> set (SL_global self). GSL_byte_tokens (st2 (GL_inner l)) + m = GSL_byte_tokens (st0 (GL_inner l))
        \<and> bucket_cap (st2 (GL_inner l)) = bucket_cap (st0 (GL_inner l))"
    using buckets.stream_set_advance_ledger [OF assms] by blast
  have "\<forall>l \<in> set (SL_global self). GSL_byte_tokens (st2 (GL_inner l)) \<le> bucket_cap (st2 (GL_inner l))"
    using s(4) assms(4) by (fastforce simp: ledger_def)
  then have "\<forall>l \<in> set ls. GSL_byte_tokens (st2 (GL_inner l)) \<le> bucket_cap (st2 (GL_inner l))"
    using ball_same_buckets [OF s(2), of "\<lambda>a. GSL_byte_tokens (st2 a) \<le> bucket_cap (st2 a)"] by blast
  moreover have "SL_local_is_set self \<Longrightarrow> local_wf ?local"
    using assms(3,5,6) by (auto simp: local_wf_def)
  ultimately have "limiter_wf st2 (self\<lparr>SL_local := ?local, SL_global := ls\<rparr>)"
    using s(2,3) assms(1) by (simp add: limiter_wf_def same_buckets_def)
  with s(1,4) show ?thesis
    by auto
qed

text \<open>
  C7. A transfer through a limiter is charged exactly. A check that allows \<open>k\<close> bytes, of which the
  connection then sends \<open>m\<close>, leaves every bucket with \<open>m\<close> bytes less and the window with \<open>m\<close> bytes
  more, though the buckets allowed different amounts; a check that is delayed leaves every bucket as
  it was, though some of them had allowed bytes. Nothing of this panics, and the limiter is ready
  for the next transfer.
\<close>

theorem stream_limiter_charges_exactly:
  assumes "limiter_wf st self"
  shows "\<exists>st1 self1 a. StreamLimiter_check token_bucket st self t target = Ok (st1, self1, a) \<and>
    (case a of
       AdvanceBy k \<Rightarrow> k \<le> target \<and>
         (\<forall>m \<le> k. \<exists>st2 self2. StreamLimiter_set_advance token_bucket st1 self1 m = Ok (st2, self2)
            \<and> limiter_wf st2 self2
            \<and> (\<forall>l \<in> set (SL_global self). GSL_byte_tokens (st2 (GL_inner l)) + m = GSL_byte_tokens (st (GL_inner l)))
            \<and> (SL_local_is_set self \<longrightarrow>
                 LSL_cur_bytes (SL_local self2) = LSL_cur_bytes (turn (SL_local self) t) + m))
     | _ \<Rightarrow> limiter_wf st1 self1
         \<and> (\<forall>l \<in> set (SL_global self). GSL_byte_tokens (st1 (GL_inner l)) = GSL_byte_tokens (st (GL_inner l))))"
proof -
  have wf: "distinct (map GL_inner (SL_global self))" "none_checked (SL_global self)"
      "ledger GSL_byte_tokens bucket_cap st st (SL_global self)" "SL_local_is_set self \<Longrightarrow> local_wf (SL_local self)"
    using assms limiter_wf_ledger by (auto simp: limiter_wf_def)
  obtain st1 ls a where c: "StreamLimiter_check token_bucket st self t target = Ok (st1, (turned self t)\<lparr>SL_global := ls\<rparr>, a)"
      "same_buckets (SL_global self) ls" "ledger GSL_byte_tokens bucket_cap st st1 ls"
      "case a of
         AdvanceBy k \<Rightarrow> k \<le> target \<and> (\<forall>l \<in> set ls. GL_checked_bytes l = Some k)
           \<and> (SL_local_is_set self \<longrightarrow> LSL_cur_bytes (turn (SL_local self) t) + k \<le> LSL_max_bytes (SL_local self))
       | _ \<Rightarrow> none_checked ls"
    using buckets.stream_check_ledger [OF wf, of t target] by blast
  let ?self1 = "(turned self t)\<lparr>SL_global := ls\<rparr>"
  have d: "distinct (map GL_inner ls)"
    using wf(1) c(2) by (simp add: same_buckets_def)
  have loc: "SL_local_is_set ?self1 = SL_local_is_set self" "SL_global ?self1 = ls"
      "SL_local_is_set self \<Longrightarrow> SL_local ?self1 = turn (SL_local self) t"
    by (simp_all add: turned_def)
  have loc_wf: "SL_local_is_set ?self1 \<Longrightarrow> local_wf (SL_local ?self1)"
    using wf(4) local_wf_turn loc by auto
  show ?thesis
  proof (cases "\<exists>k. a = AdvanceBy k")
    case True
    then obtain k where a: "a = AdvanceBy k"
      by blast
    have k: "k \<le> target" "\<forall>l \<in> set (SL_global ?self1). GL_checked_bytes l = Some k"
        "SL_local_is_set ?self1 \<Longrightarrow> LSL_cur_bytes (SL_local ?self1) + k \<le> LSL_max_bytes (SL_local ?self1)"
      using c(4) loc unfolding a by auto
    have "\<exists>st2 self2. StreamLimiter_set_advance token_bucket st1 ?self1 m = Ok (st2, self2) \<and> limiter_wf st2 self2
        \<and> (\<forall>l \<in> set (SL_global self). GSL_byte_tokens (st2 (GL_inner l)) + m = GSL_byte_tokens (st (GL_inner l)))
        \<and> (SL_local_is_set self \<longrightarrow> LSL_cur_bytes (SL_local self2) = LSL_cur_bytes (turn (SL_local self) t) + m)"
      if "m \<le> k" for m
    proof -
      have "distinct (map GL_inner (SL_global ?self1))" "ledger GSL_byte_tokens bucket_cap st st1 (SL_global ?self1)"
        using d c(3) loc(2) by simp_all
      from settle_exactly [OF this(1) k(2) that this(2) loc_wf k(3)]
      obtain st2 self2 where s: "StreamLimiter_set_advance token_bucket st1 ?self1 m = Ok (st2, self2)" "limiter_wf st2 self2"
          "\<forall>l \<in> set ls. GSL_byte_tokens (st2 (GL_inner l)) + m = GSL_byte_tokens (st (GL_inner l))"
          "SL_local_is_set self \<longrightarrow> LSL_cur_bytes (SL_local self2) = LSL_cur_bytes (SL_local ?self1) + m"
        unfolding loc(1,2) by blast
      moreover have "\<forall>l \<in> set (SL_global self). GSL_byte_tokens (st2 (GL_inner l)) + m = GSL_byte_tokens (st (GL_inner l))"
        using s(3) ball_same_buckets [OF c(2), of "\<lambda>a. GSL_byte_tokens (st2 a) + m = GSL_byte_tokens (st a)"] by blast
      ultimately show ?thesis
        using loc(3) by auto
    qed
    with c(1) k(1) show ?thesis
      unfolding a by auto
  next
    case False
    then have "none_checked ls"
      using c(4) by (cases a) auto
    then have tok: "\<forall>l \<in> set ls. GSL_byte_tokens (st1 (GL_inner l)) = GSL_byte_tokens (st (GL_inner l))
        \<and> GSL_byte_tokens (st1 (GL_inner l)) \<le> bucket_cap (st1 (GL_inner l))"
      using c(3) by (auto simp: ledger_def none_checked_def)
    then have "limiter_wf st1 ?self1"
      using d \<open>none_checked ls\<close> loc loc_wf by (auto simp: limiter_wf_def)
    then show ?thesis
      using c(1) tok False ball_same_buckets [OF c(2), of "\<lambda>a. GSL_byte_tokens (st1 a) = GSL_byte_tokens (st a)"]
      by (cases a) auto
  qed
qed

text \<open>A connection with a window of 1000 bytes and two buckets that have 800 and 300 bytes.\<close>

theorem stream_limiter_charges_exactly_witness:
  "let st = (\<lambda>a. GlobalStreamLimiter_new 0 Server (GSC_per_second (if a = 0 then 800 else 300)));
       self = StreamLimiter_add_global (StreamLimiter_add_global (StreamLimiter_with_local 7 10 1000) 0) 1
   in \<exists>st1 self1 a. StreamLimiter_check token_bucket st self 20 900 = Ok (st1, self1, a) \<and>
    (case a of
       AdvanceBy k \<Rightarrow> k \<le> 900 \<and>
         (\<forall>m \<le> k. \<exists>st2 self2. StreamLimiter_set_advance token_bucket st1 self1 m = Ok (st2, self2)
            \<and> limiter_wf st2 self2
            \<and> (\<forall>l \<in> set (SL_global self). GSL_byte_tokens (st2 (GL_inner l)) + m = GSL_byte_tokens (st (GL_inner l)))
            \<and> (SL_local_is_set self \<longrightarrow>
                 LSL_cur_bytes (SL_local self2) = LSL_cur_bytes (turn (SL_local self) 20) + m))
     | _ \<Rightarrow> limiter_wf st1 self1
         \<and> (\<forall>l \<in> set (SL_global self). GSL_byte_tokens (st1 (GL_inner l)) = GSL_byte_tokens (st (GL_inner l))))"
  unfolding Let_def
  by (rule stream_limiter_charges_exactly)
     (auto simp: limiter_wf_def StreamLimiter_add_global_def StreamLimiter_with_local_def GlobalLimiter_new_def Let_def
       GlobalStreamLimiter_new_def GSC_per_second_def bucket_cap_def u64_max_def intro!: local_wf_new)

section \<open>Counting checks in a window\<close>

record InnerCountLimitInfo =
  CLI_window :: FixedWindow
  CLI_max_count :: nat
  CLI_time_slice_id :: u64
  CLI_cur_count :: nat

definition InnerCountLimitInfo_new :: "u64 \<Rightarrow> nat \<Rightarrow> nat \<Rightarrow> InnerCountLimitInfo" where
  "InnerCountLimitInfo_new rand shift_millis max_count =
     \<lparr>CLI_window = FixedWindow_new rand shift_millis None, CLI_max_count = max_count,
      CLI_time_slice_id = 0, CLI_cur_count = max_count\<rparr>"

definition InnerCountLimitInfo_reset :: "u64 \<Rightarrow> nat \<Rightarrow> nat \<Rightarrow> u64 \<Rightarrow> InnerCountLimitInfo" where
  "InnerCountLimitInfo_reset rand shift_millis max_count cur_millis =
     (let window = FixedWindow_new rand shift_millis (Some cur_millis) in
      \<lparr>CLI_window = window, CLI_max_count = max_count,
       CLI_time_slice_id = FixedWindow_slice_id window cur_millis, CLI_cur_count = 0\<rparr>)"

definition InnerCountLimitInfo_check :: "InnerCountLimitInfo \<Rightarrow> u64 \<Rightarrow> InnerCountLimitInfo \<times> (unit, u64) res" where
  "InnerCountLimitInfo_check self cur_millis =
     (let time_slice_id = FixedWindow_slice_id (CLI_window self) cur_millis;
          self = (if CLI_time_slice_id self \<noteq> time_slice_id
                  then self\<lparr>CLI_cur_count := CLI_max_count self, CLI_time_slice_id := time_slice_id\<rparr> else self)
      in
      if 0 < CLI_cur_count self then (self\<lparr>CLI_cur_count := CLI_cur_count self - 1\<rparr>, Ok ())
      else (self, Err (FixedWindow_delay (CLI_window self) cur_millis)))"

fun count_checks :: "InnerCountLimitInfo \<Rightarrow> u64 list \<Rightarrow> nat" where
  "count_checks self [] = 0"
| "count_checks self (t # ts) =
     (let (self, r) = InnerCountLimitInfo_check self t in (if r = Ok () then 1 else 0) + count_checks self ts)"

lemma count_checks_in_slice:
  "\<forall>t \<in> set ts. FixedWindow_slice_id (CLI_window self) t = CLI_time_slice_id self
    \<Longrightarrow> count_checks self ts = min (length ts) (CLI_cur_count self)"
  by (induction ts arbitrary: self) (auto simp: InnerCountLimitInfo_check_def Let_def)

text \<open>A new window allows \<open>max_count\<close> checks.\<close>

lemma count_checks_new_slice:
  assumes "\<forall>t \<in> set ts. FixedWindow_slice_id (CLI_window self) t = s" and "CLI_time_slice_id self \<noteq> s"
  shows "count_checks self ts = min (length ts) (CLI_max_count self)"
proof (cases ts)
  case (Cons t ts')
  let ?self = "self\<lparr>CLI_cur_count := CLI_max_count self, CLI_time_slice_id := s\<rparr>"
  have "InnerCountLimitInfo_check self t = InnerCountLimitInfo_check ?self t"
    using assms Cons by (simp add: InnerCountLimitInfo_check_def)
  then have "count_checks self ts = count_checks ?self ts"
    using Cons by simp
  also have "\<dots> = min (length ts) (CLI_max_count self)"
    using assms(1) by (subst count_checks_in_slice) simp_all
  finally show ?thesis .
qed simp

end
