(* ===== verification/Datagram_Limit.thy ===== *)
theory Datagram_Limit
  imports Stream_Limit
begin

text \<open>
  Speed limits of datagrams (\<open>g3-io-ext/src/limit\<close>): packets and bytes per time window, the shared
  buckets of packet and byte tokens, and the limiter of one association over both. A batch of
  packets is given by the running sums of their lengths (\<open>total_size_v\<close>), in which the code searches
  for the packets that fit.
\<close>

section \<open>Binary search\<close>

text \<open>\<open>slice::binary_search\<close> of the standard library: \<open>Ok\<close> the index found, or \<open>Err\<close> where to insert.\<close>

function search_loop :: "nat list \<Rightarrow> nat \<Rightarrow> nat \<Rightarrow> nat \<Rightarrow> nat" where
  "search_loop xs x base len =
     (if len \<le> 1 then base
      else search_loop xs x (if x < xs ! (base + len div 2) then base else base + len div 2) (len - len div 2))"
  by pat_completeness auto
termination
  by (relation "measure (\<lambda>(xs, x, base, len). len)") auto

declare search_loop.simps [simp del]

definition binary_search :: "nat list \<Rightarrow> nat \<Rightarrow> (nat, nat) res" where
  "binary_search xs x =
     (if xs = [] then Err 0
      else
        let base = search_loop xs x 0 (length xs) in
        if xs ! base = x then Ok base
        else Err (base + (if xs ! base < x then 1 else 0)))"

lemma search_loop_range:
  assumes "0 < len" and "base + len \<le> length xs" and "sorted xs"
    and "0 < base \<longrightarrow> xs ! base \<le> x" and "\<forall>j < length xs. base + len \<le> j \<longrightarrow> x < xs ! j"
  shows "search_loop xs x base len < length xs
    \<and> (0 < search_loop xs x base len \<longrightarrow> xs ! search_loop xs x base len \<le> x)
    \<and> (\<forall>j < length xs. search_loop xs x base len < j \<longrightarrow> x < xs ! j)"
  using assms
proof (induction xs x base len rule: search_loop.induct)
  case (1 xs x base len)
  let ?mid = "base + len div 2"
  show ?case
  proof (cases "len \<le> 1")
    case True
    then have "len = 1"
      using 1(2) by simp
    moreover have "search_loop xs x base len = base"
      using True by (subst search_loop.simps) simp
    ultimately show ?thesis
      using 1(3-) by auto
  next
    case False
    then have mid: "?mid < length xs" "0 < len div 2" "len div 2 < len"
      using 1(3) by auto
    define base' where "base' = (if x < xs ! ?mid then base else ?mid)"
    have step: "search_loop xs x base len = search_loop xs x base' (len - len div 2)"
      using False by (subst search_loop.simps) (simp add: base'_def)
    have lower: "0 < base' \<longrightarrow> xs ! base' \<le> x"
      using 1(5) by (auto simp: base'_def)
    have upper: "\<forall>j < length xs. base' + (len - len div 2) \<le> j \<longrightarrow> x < xs ! j"
    proof (intro allI impI)
      fix j
      assume j: "j < length xs" "base' + (len - len div 2) \<le> j"
      show "x < xs ! j"
      proof (cases "x < xs ! ?mid")
        case True
        have "?mid \<le> j"
          using j(2) True mid by (simp add: base'_def)
        then show ?thesis
          using True sorted_nth_mono [OF 1(4) _ j(1)] by fastforce
      next
        case f: False
        then show ?thesis
          using j 1(6) mid by (simp add: base'_def)
      qed
    qed
    have "base' + (len - len div 2) \<le> length xs"
      using 1(3) mid by (auto simp: base'_def)
    then show ?thesis
      unfolding step using 1(1) [OF False] mid 1(4) lower upper unfolding base'_def [symmetric] by simp
  qed
qed

lemma binary_search_sorted:
  assumes "sorted xs"
  shows "case binary_search xs x of
      Ok i \<Rightarrow> i < length xs \<and> xs ! i = x
    | Err i \<Rightarrow> i \<le> length xs \<and> (\<forall>j < i. xs ! j < x) \<and> (\<forall>j < length xs. i \<le> j \<longrightarrow> x < xs ! j)
    | Panic \<Rightarrow> False"
proof (cases "xs = []")
  case False
  define b where "b = search_loop xs x 0 (length xs)"
  have b: "b < length xs" "0 < b \<longrightarrow> xs ! b \<le> x" "\<forall>j < length xs. b < j \<longrightarrow> x < xs ! j"
    using search_loop_range [of "length xs" 0 xs x] assms False by (auto simp: b_def)
  have below: "xs ! j < x" if "j < b" "xs ! b \<noteq> x" for j
    using sorted_nth_mono [OF assms, of j b] that b by simp
  show ?thesis
    using b below False by (auto simp: binary_search_def Let_def less_Suc_eq simp flip: b_def)
qed (simp add: binary_search_def)

section \<open>The window of one association\<close>

datatype DatagramLimitAction = Advance nat | DgDelayUntil nat | DgDelayFor u64

record LocalDatagramLimiter =
  LDL_window :: FixedWindow
  LDL_max_packets :: nat
  LDL_max_bytes :: nat
  LDL_time_slice_id :: u64
  LDL_cur_packets :: nat
  LDL_cur_bytes :: nat

definition LocalDatagramLimiter_default :: LocalDatagramLimiter where
  "LocalDatagramLimiter_default =
     \<lparr>LDL_window = FixedWindow_default, LDL_max_packets = 0, LDL_max_bytes = 0, LDL_time_slice_id = 0,
      LDL_cur_packets = 0, LDL_cur_bytes = 0\<rparr>"

definition LocalDatagramLimiter_new :: "u64 \<Rightarrow> nat \<Rightarrow> nat \<Rightarrow> nat \<Rightarrow> LocalDatagramLimiter" where
  "LocalDatagramLimiter_new rand shift_millis max_packets max_bytes =
     \<lparr>LDL_window = FixedWindow_new rand shift_millis None, LDL_max_packets = max_packets, LDL_max_bytes = max_bytes,
      LDL_time_slice_id = 0, LDL_cur_packets = 0, LDL_cur_bytes = 0\<rparr>"

definition LocalDatagramLimiter_reset :: "u64 \<Rightarrow> nat \<Rightarrow> nat \<Rightarrow> nat \<Rightarrow> u64 \<Rightarrow> LocalDatagramLimiter" where
  "LocalDatagramLimiter_reset rand shift_millis max_packets max_bytes cur_millis =
     (let window = FixedWindow_new rand shift_millis (Some cur_millis) in
      \<lparr>LDL_window = window, LDL_max_packets = max_packets, LDL_max_bytes = max_bytes,
       LDL_time_slice_id = FixedWindow_slice_id window cur_millis, LDL_cur_packets = 0, LDL_cur_bytes = 0\<rparr>)"

definition LocalDatagramLimiter_is_set :: "LocalDatagramLimiter \<Rightarrow> bool" where
  "LocalDatagramLimiter_is_set self = FixedWindow_enabled (LDL_window self)"

text \<open>The change of the window, the same in both checks.\<close>

definition LDL_turn :: "LocalDatagramLimiter \<Rightarrow> u64 \<Rightarrow> LocalDatagramLimiter" where
  "LDL_turn self cur_millis =
     (let time_slice_id = FixedWindow_slice_id (LDL_window self) cur_millis in
      if LDL_time_slice_id self \<noteq> time_slice_id
      then self\<lparr>LDL_cur_bytes := 0, LDL_cur_packets := 0, LDL_time_slice_id := time_slice_id\<rparr> else self)"

definition LocalDatagramLimiter_check_packet ::
  "LocalDatagramLimiter \<Rightarrow> u64 \<Rightarrow> nat \<Rightarrow> (LocalDatagramLimiter \<times> DatagramLimitAction, unit) res" where
  "LocalDatagramLimiter_check_packet self cur_millis buf_size =
     (let self = LDL_turn self cur_millis;
          delay = Ok (self, DgDelayFor (FixedWindow_delay (LDL_window self) cur_millis))
      in
      if 0 < LDL_max_packets self \<and> LDL_max_packets self < LDL_cur_packets self then delay
      else if 0 < LDL_max_bytes self \<and> 0 < LDL_cur_bytes self then
        res_bind (usize_add (LDL_cur_bytes self) buf_size) (\<lambda>n.
        if LDL_max_bytes self \<le> n then delay else Ok (self, Advance 1))
      else Ok (self, Advance 1))"

definition LocalDatagramLimiter_check_packets ::
  "LocalDatagramLimiter \<Rightarrow> u64 \<Rightarrow> nat list \<Rightarrow> LocalDatagramLimiter \<times> DatagramLimitAction" where
  "LocalDatagramLimiter_check_packets self cur_millis total_size_v =
     (let self = LDL_turn self cur_millis;
          delay = (self, DgDelayFor (FixedWindow_delay (LDL_window self) cur_millis))
      in
      if 0 < LDL_max_packets self \<and> LDL_max_packets self \<le> LDL_cur_packets self then delay
      else
        let pkt_count = (if 0 < LDL_max_packets self
                         then min (length total_size_v) (LDL_max_packets self - LDL_cur_packets self)
                         else length total_size_v)
        in
        if 0 < LDL_max_bytes self then
          if LDL_max_bytes self \<le> LDL_cur_bytes self then delay
          else
            (case binary_search (take pkt_count total_size_v) (LDL_max_bytes self - LDL_cur_bytes self) of
               Ok found_index \<Rightarrow> (self, Advance (found_index + 1))
             | Err insert_index \<Rightarrow>
                 if insert_index = 0 then if LDL_cur_bytes self = 0 then (self, Advance 1) else delay
                 else (self, Advance insert_index)
             | Panic \<Rightarrow> delay)
        else (self, Advance pkt_count))"

definition LocalDatagramLimiter_set_advance :: "LocalDatagramLimiter \<Rightarrow> nat \<Rightarrow> nat \<Rightarrow> (LocalDatagramLimiter, unit) res" where
  "LocalDatagramLimiter_set_advance self packets sz =
     res_bind (usize_add (LDL_cur_packets self) packets) (\<lambda>p.
     res_bind (usize_add (LDL_cur_bytes self) sz) (\<lambda>b.
     Ok (self\<lparr>LDL_cur_packets := p, LDL_cur_bytes := b\<rparr>)))"

section \<open>The shared buckets\<close>

record GlobalDatagramSpeedLimitConfig =
  GDC_replenish_interval :: nat
  GDC_replenish_bytes :: nat
  GDC_replenish_packets :: nat
  GDC_max_burst_bytes :: nat
  GDC_max_burst_packets :: nat

definition GDC_per_second :: "nat \<Rightarrow> GlobalDatagramSpeedLimitConfig" where
  "GDC_per_second n =
     \<lparr>GDC_replenish_interval = 1000000000, GDC_replenish_bytes = n, GDC_replenish_packets = 0,
      GDC_max_burst_bytes = n, GDC_max_burst_packets = 0\<rparr>"

definition GDC_check :: "GlobalDatagramSpeedLimitConfig \<Rightarrow> (GlobalDatagramSpeedLimitConfig, unit) res" where
  "GDC_check self =
     (if GDC_replenish_bytes self = 0 \<and> GDC_replenish_packets self = 0 then Err ()
      else
        let self = (if GDC_max_burst_bytes self < GDC_replenish_bytes self
                    then self\<lparr>GDC_max_burst_bytes := GDC_replenish_bytes self\<rparr> else self);
            self = (if GDC_max_burst_packets self < GDC_replenish_packets self
                    then self\<lparr>GDC_max_burst_packets := GDC_replenish_packets self\<rparr> else self)
        in Ok self)"

record GlobalDatagramLimiter =
  GDL_config :: GlobalDatagramSpeedLimitConfig
  GDL_byte_tokens :: nat
  GDL_packet_tokens :: nat
  GDL_last_updated :: nat

definition GlobalDatagramLimiter_new :: "nat \<Rightarrow> GlobalDatagramSpeedLimitConfig \<Rightarrow> GlobalDatagramLimiter" where
  "GlobalDatagramLimiter_new now config =
     \<lparr>GDL_config = config, GDL_byte_tokens = GDC_replenish_bytes config,
      GDL_packet_tokens = GDC_replenish_packets config, GDL_last_updated = now\<rparr>"

definition GlobalDatagramLimiter_update :: "GlobalDatagramLimiter \<Rightarrow> GlobalDatagramSpeedLimitConfig \<Rightarrow> GlobalDatagramLimiter" where
  "GlobalDatagramLimiter_update self config = self\<lparr>GDL_config := config\<rparr>"

text \<open>The loops of \<open>add_bytes\<close> and \<open>add_packets\<close>, undisturbed; the passes are those of the stream bucket.\<close>

definition GDL_add_bytes :: "GlobalDatagramLimiter \<Rightarrow> nat \<Rightarrow> nat \<Rightarrow> (GlobalDatagramLimiter, unit) res" where
  "GDL_add_bytes self sz max_burst =
     (let (v, r) = atomic_call (add_bytes_pass sz) max_burst (GDL_byte_tokens self) in
      res_bind r (\<lambda>_. Ok (self\<lparr>GDL_byte_tokens := v\<rparr>)))"

definition GDL_add_packets :: "GlobalDatagramLimiter \<Rightarrow> nat \<Rightarrow> nat \<Rightarrow> (GlobalDatagramLimiter, unit) res" where
  "GDL_add_packets self num max_burst =
     (let (v, r) = atomic_call (add_bytes_pass num) max_burst (GDL_packet_tokens self) in
      res_bind r (\<lambda>_. Ok (self\<lparr>GDL_packet_tokens := v\<rparr>)))"

definition GDL_wait_until :: "GlobalDatagramLimiter \<Rightarrow> nat" where
  "GDL_wait_until self = GDL_last_updated self + GDC_replenish_interval (GDL_config self)"

definition GDL_replenish_round :: "GlobalDatagramLimiter \<Rightarrow> nat \<Rightarrow> (GlobalDatagramLimiter, unit) res" where
  "GDL_replenish_round self now =
     (let config = GDL_config self in
      res_bind (if 0 < GDC_replenish_bytes config
                then GDL_add_bytes self (GDC_replenish_bytes config) (GDC_max_burst_bytes config) else Ok self) (\<lambda>self.
      res_bind (if 0 < GDC_replenish_packets config
                then GDL_add_packets self (GDC_replenish_packets config) (GDC_max_burst_packets config) else Ok self) (\<lambda>self.
      Ok (self\<lparr>GDL_last_updated := now\<rparr>))))"

definition GlobalDatagramLimiter_check_packet ::
  "GlobalDatagramLimiter \<Rightarrow> nat \<Rightarrow> (GlobalDatagramLimiter \<times> DatagramLimitAction, unit) res" where
  "GlobalDatagramLimiter_check_packet self buf_size =
     (let config = GDL_config self; packets = 0 < GDC_replenish_packets config in
      if packets \<and> GDL_packet_tokens self = 0 then Ok (self, DgDelayUntil (GDL_wait_until self))
      else
        let self = (if packets then self\<lparr>GDL_packet_tokens := GDL_packet_tokens self - 1\<rparr> else self) in
        if 0 < GDC_replenish_bytes config then
          if GDL_byte_tokens self < buf_size then
            res_bind (if packets then GDL_add_packets self 1 (GDC_max_burst_packets config) else Ok self) (\<lambda>self.
            Ok (self, DgDelayUntil (GDL_wait_until self)))
          else Ok (self\<lparr>GDL_byte_tokens := GDL_byte_tokens self - buf_size\<rparr>, Advance 1)
        else Ok (self, Advance 1))"

text \<open>An index of the running sums; \<open>to_advance - 1\<close> underflows for an empty batch.\<close>

definition size_before :: "nat list \<Rightarrow> nat \<Rightarrow> (nat, unit) res" where
  "size_before total_size_v n =
     res_bind (usize_sub n 1) (\<lambda>i. if i < length total_size_v then Ok (total_size_v ! i) else Panic)"

definition GlobalDatagramLimiter_check_packets ::
  "GlobalDatagramLimiter \<Rightarrow> nat list \<Rightarrow> (GlobalDatagramLimiter \<times> DatagramLimitAction, unit) res" where
  "GlobalDatagramLimiter_check_packets self total_size_v =
     (let config = GDL_config self;
          packets = 0 < GDC_replenish_packets config;
          bytes = 0 < GDC_replenish_bytes config;
          to_advance = length total_size_v;
          cur_packets = GDL_packet_tokens self;
          cur_bytes = GDL_byte_tokens self
      in
      if packets \<and> cur_packets = 0 then Ok (self, DgDelayUntil (GDL_wait_until self))
      else
        let left_packets = cur_packets - to_advance;
            to_advance = (if packets then cur_packets - left_packets else to_advance);
            self = (if packets then self\<lparr>GDL_packet_tokens := left_packets\<rparr> else self)
        in
        res_bind (size_before total_size_v to_advance) (\<lambda>all_size.
        if bytes \<and> cur_bytes = 0 then
          res_bind (if packets then GDL_add_packets self to_advance (GDC_max_burst_packets config) else Ok self) (\<lambda>self.
          Ok (self, DgDelayUntil (GDL_wait_until self)))
        else
          let left_bytes = cur_bytes - all_size;
              buf_size = (if bytes then cur_bytes - left_bytes else all_size);
              self = (if bytes then self\<lparr>GDL_byte_tokens := left_bytes\<rparr> else self)
          in
          if buf_size = all_size then Ok (self, Advance to_advance)
          else
            (case binary_search total_size_v buf_size of
               Ok found_index \<Rightarrow>
                 res_bind
                   (if packets then
                      res_bind (usize_sub to_advance found_index) (\<lambda>d.
                      res_bind (usize_sub d 1) (\<lambda>n. GDL_add_packets self n (GDC_max_burst_packets config)))
                    else Ok self)
                   (\<lambda>self. Ok (self, Advance (found_index + 1)))
             | Err insert_index \<Rightarrow>
                 res_bind
                   (if packets then
                      res_bind (usize_sub to_advance insert_index) (\<lambda>n.
                      GDL_add_packets self n (GDC_max_burst_packets config))
                    else Ok self)
                   (\<lambda>self.
                    res_bind
                      (if bytes then
                         res_bind (size_before total_size_v insert_index) (\<lambda>used.
                         res_bind (usize_sub buf_size used) (\<lambda>n. GDL_add_bytes self n (GDC_max_burst_bytes config)))
                       else Ok self)
                      (\<lambda>self. Ok (self, Advance insert_index)))
             | Panic \<Rightarrow> Panic)))"

definition GlobalDatagramLimiter_release_bytes :: "GlobalDatagramLimiter \<Rightarrow> nat \<Rightarrow> (GlobalDatagramLimiter, unit) res" where
  "GlobalDatagramLimiter_release_bytes self sz =
     (let max_burst = GDC_max_burst_bytes (GDL_config self) in
      if 0 < max_burst then GDL_add_bytes self sz max_burst else Ok self)"

definition GlobalDatagramLimiter_release_packets :: "GlobalDatagramLimiter \<Rightarrow> nat \<Rightarrow> (GlobalDatagramLimiter, unit) res" where
  "GlobalDatagramLimiter_release_packets self num =
     (let max_burst = GDC_max_burst_packets (GDL_config self) in
      if 0 < max_burst then GDL_add_packets self num max_burst else Ok self)"

section \<open>The limiter of one association\<close>

text \<open>The trait \<open>GlobalDatagramLimit\<close>, and its implementation by the shared buckets.\<close>

record 'g GlobalDatagramLimit =
  gdl_check_packet :: "'g \<Rightarrow> nat \<Rightarrow> ('g \<times> DatagramLimitAction, unit) res"
  gdl_check_packets :: "'g \<Rightarrow> nat list \<Rightarrow> ('g \<times> DatagramLimitAction, unit) res"
  gdl_release_bytes :: "'g \<Rightarrow> nat \<Rightarrow> ('g, unit) res"
  gdl_release_packets :: "'g \<Rightarrow> nat \<Rightarrow> ('g, unit) res"

definition datagram_bucket :: "GlobalDatagramLimiter GlobalDatagramLimit" where
  "datagram_bucket =
     \<lparr>gdl_check_packet = GlobalDatagramLimiter_check_packet, gdl_check_packets = GlobalDatagramLimiter_check_packets,
      gdl_release_bytes = GlobalDatagramLimiter_release_bytes, gdl_release_packets = GlobalDatagramLimiter_release_packets\<rparr>"

record DgLimiter =
  DG_inner :: nat
  DG_checked_packets :: "nat option"
  DG_checked_bytes :: "nat option"

definition DgLimiter_new :: "nat \<Rightarrow> DgLimiter" where
  "DgLimiter_new inner = \<lparr>DG_inner = inner, DG_checked_packets = None, DG_checked_bytes = None\<rparr>"

record DatagramLimiter =
  DL_is_set :: bool
  DL_local_is_set :: bool
  DL_local :: LocalDatagramLimiter
  DL_global :: "DgLimiter list"

definition DatagramLimiter_default :: DatagramLimiter where
  "DatagramLimiter_default =
     \<lparr>DL_is_set = False, DL_local_is_set = False, DL_local = LocalDatagramLimiter_default, DL_global = []\<rparr>"

definition DatagramLimiter_with_local :: "u64 \<Rightarrow> nat \<Rightarrow> nat \<Rightarrow> nat \<Rightarrow> DatagramLimiter" where
  "DatagramLimiter_with_local rand shift_millis max_packets max_bytes =
     (let local = LocalDatagramLimiter_new rand shift_millis max_packets max_bytes;
          local_is_set = LocalDatagramLimiter_is_set local
      in \<lparr>DL_is_set = local_is_set, DL_local_is_set = local_is_set, DL_local = local, DL_global = []\<rparr>)"

definition DatagramLimiter_reset_local :: "u64 \<Rightarrow> DatagramLimiter \<Rightarrow> nat \<Rightarrow> nat \<Rightarrow> nat \<Rightarrow> u64 \<Rightarrow> DatagramLimiter" where
  "DatagramLimiter_reset_local rand self shift_millis max_packets max_bytes cur_millis =
     (let self = self\<lparr>DL_local := LocalDatagramLimiter_reset rand shift_millis max_packets max_bytes cur_millis\<rparr>;
          self = self\<lparr>DL_local_is_set := LocalDatagramLimiter_is_set (DL_local self)\<rparr>
      in if DL_global self = [] then self\<lparr>DL_is_set := DL_local_is_set self\<rparr> else self)"

definition DatagramLimiter_add_global :: "DatagramLimiter \<Rightarrow> nat \<Rightarrow> DatagramLimiter" where
  "DatagramLimiter_add_global self limiter =
     self\<lparr>DL_global := DL_global self @ [DgLimiter_new limiter], DL_is_set := True\<rparr>"

fun dg_release_loop ::
  "'g GlobalDatagramLimit \<Rightarrow> (nat \<Rightarrow> 'g) \<Rightarrow> DgLimiter list \<Rightarrow> ((nat \<Rightarrow> 'g) \<times> DgLimiter list, unit) res" where
  "dg_release_loop lim st [] = Ok (st, [])"
| "dg_release_loop lim st (l # ls) =
     (case DG_checked_packets l of
        None \<Rightarrow> Ok (st, l # ls)
      | Some packets \<Rightarrow>
          res_bind (gdl_release_packets lim (st (DG_inner l)) packets) (\<lambda>g.
          res_bind (case DG_checked_bytes l of Some sz \<Rightarrow> gdl_release_bytes lim g sz | None \<Rightarrow> Ok g) (\<lambda>g.
          res_bind (dg_release_loop lim (st(DG_inner l := g)) ls) (\<lambda>(st, ls).
          Ok (st, l\<lparr>DG_checked_packets := None, DG_checked_bytes := None\<rparr> # ls)))))"

definition DatagramLimiter_release_global ::
  "'g GlobalDatagramLimit \<Rightarrow> (nat \<Rightarrow> 'g) \<Rightarrow> DatagramLimiter \<Rightarrow> ((nat \<Rightarrow> 'g) \<times> DatagramLimiter, unit) res" where
  "DatagramLimiter_release_global lim st self =
     res_bind (dg_release_loop lim st (DL_global self)) (\<lambda>(st, ls). Ok (st, self\<lparr>DL_global := ls\<rparr>))"

fun dg_packet_loop ::
  "'g GlobalDatagramLimit \<Rightarrow> (nat \<Rightarrow> 'g) \<Rightarrow> nat \<Rightarrow> DgLimiter list
    \<Rightarrow> ((nat \<Rightarrow> 'g) \<times> DgLimiter list \<times> DatagramLimitAction, unit) res" where
  "dg_packet_loop lim st buf_size [] = Ok (st, [], Advance 1)"
| "dg_packet_loop lim st buf_size (l # ls) =
     res_bind (gdl_check_packet lim (st (DG_inner l)) buf_size) (\<lambda>(g, a).
     case a of
       Advance _ \<Rightarrow>
         res_bind (dg_packet_loop lim (st(DG_inner l := g)) buf_size ls) (\<lambda>(st, ls, r).
         Ok (st, l\<lparr>DG_checked_packets := Some 1, DG_checked_bytes := Some buf_size\<rparr> # ls, r))
     | _ \<Rightarrow> Ok (st(DG_inner l := g), l # ls, a))"

definition DatagramLimiter_check_packet ::
  "'g GlobalDatagramLimit \<Rightarrow> (nat \<Rightarrow> 'g) \<Rightarrow> DatagramLimiter \<Rightarrow> u64 \<Rightarrow> nat
    \<Rightarrow> ((nat \<Rightarrow> 'g) \<times> DatagramLimiter \<times> DatagramLimitAction, unit) res" where
  "DatagramLimiter_check_packet lim st self cur_millis buf_size =
     res_bind
       (if DL_local_is_set self
        then res_bind (LocalDatagramLimiter_check_packet (DL_local self) cur_millis buf_size)
               (\<lambda>(local, a). Ok (self\<lparr>DL_local := local\<rparr>, a))
        else Ok (self, Advance 1))
       (\<lambda>(self, a).
        case a of
          Advance _ \<Rightarrow>
            res_bind (dg_packet_loop lim st buf_size (DL_global self)) (\<lambda>(st, ls, a).
            let self = self\<lparr>DL_global := ls\<rparr> in
            case a of
              Advance _ \<Rightarrow> Ok (st, self, Advance 1)
            | _ \<Rightarrow> res_bind (DatagramLimiter_release_global lim st self) (\<lambda>(st, self). Ok (st, self, a)))
        | _ \<Rightarrow> Ok (st, self, a))"

fun dg_packets_loop ::
  "'g GlobalDatagramLimit \<Rightarrow> (nat \<Rightarrow> 'g) \<Rightarrow> nat list \<Rightarrow> nat \<Rightarrow> DgLimiter list
    \<Rightarrow> ((nat \<Rightarrow> 'g) \<times> DgLimiter list \<times> DatagramLimitAction, unit) res" where
  "dg_packets_loop lim st total_size_v to_advance [] = Ok (st, [], Advance to_advance)"
| "dg_packets_loop lim st total_size_v to_advance (l # ls) =
     (if length total_size_v < to_advance then Panic
      else
        res_bind (gdl_check_packets lim (st (DG_inner l)) (take to_advance total_size_v)) (\<lambda>(g, a).
        case a of
          Advance n \<Rightarrow>
            res_bind (dg_packets_loop lim (st(DG_inner l := g)) total_size_v n ls) (\<lambda>(st, ls, r).
            Ok (st, l\<lparr>DG_checked_packets := Some n\<rparr> # ls, r))
        | _ \<Rightarrow> Ok (st(DG_inner l := g), l # ls, a)))"

fun dg_shrink_loop ::
  "'g GlobalDatagramLimit \<Rightarrow> (nat \<Rightarrow> 'g) \<Rightarrow> nat list \<Rightarrow> nat \<Rightarrow> nat \<Rightarrow> DgLimiter list
    \<Rightarrow> ((nat \<Rightarrow> 'g) \<times> DgLimiter list, unit) res" where
  "dg_shrink_loop lim st total_size_v to_advance buf_size [] = Ok (st, [])"
| "dg_shrink_loop lim st total_size_v to_advance buf_size (l # ls) =
     (case DG_checked_packets l of
        None \<Rightarrow> Panic
      | Some checked \<Rightarrow>
          res_bind
            (if to_advance < checked then
               res_bind (gdl_release_packets lim (st (DG_inner l)) (checked - to_advance)) (\<lambda>g.
               res_bind (size_before total_size_v checked) (\<lambda>s.
               res_bind (usize_sub s buf_size) (\<lambda>n. gdl_release_bytes lim g n)))
             else Ok (st (DG_inner l)))
            (\<lambda>g.
             res_bind (dg_shrink_loop lim (st(DG_inner l := g)) total_size_v to_advance buf_size ls) (\<lambda>(st, ls).
             Ok (st, l\<lparr>DG_checked_packets := Some to_advance, DG_checked_bytes := Some buf_size\<rparr> # ls))))"

definition DatagramLimiter_check_packets ::
  "'g GlobalDatagramLimit \<Rightarrow> (nat \<Rightarrow> 'g) \<Rightarrow> DatagramLimiter \<Rightarrow> u64 \<Rightarrow> nat list
    \<Rightarrow> ((nat \<Rightarrow> 'g) \<times> DatagramLimiter \<times> DatagramLimitAction, unit) res" where
  "DatagramLimiter_check_packets lim st self cur_millis total_size_v =
     (let (self, a) =
        (if DL_local_is_set self
         then let (local, a) = LocalDatagramLimiter_check_packets (DL_local self) cur_millis total_size_v
              in (self\<lparr>DL_local := local\<rparr>, a)
         else (self, Advance (length total_size_v)))
      in
      case a of
        Advance to_advance \<Rightarrow>
          if DL_global self = [] then Ok (st, self, Advance to_advance)
          else
            res_bind (dg_packets_loop lim st total_size_v to_advance (DL_global self)) (\<lambda>(st, ls, a).
            let self = self\<lparr>DL_global := ls\<rparr> in
            case a of
              Advance to_advance \<Rightarrow>
                if to_advance < length total_size_v then
                  res_bind (size_before total_size_v to_advance) (\<lambda>buf_size.
                  res_bind (dg_shrink_loop lim st total_size_v to_advance buf_size ls) (\<lambda>(st, ls).
                  Ok (st, self\<lparr>DL_global := ls\<rparr>, Advance to_advance)))
                else Ok (st, self, Advance to_advance)
            | _ \<Rightarrow> res_bind (DatagramLimiter_release_global lim st self) (\<lambda>(st, self). Ok (st, self, a)))
      | _ \<Rightarrow> Ok (st, self, a))"

fun dg_set_advance_loop ::
  "'g GlobalDatagramLimit \<Rightarrow> (nat \<Rightarrow> 'g) \<Rightarrow> nat \<Rightarrow> nat \<Rightarrow> DgLimiter list \<Rightarrow> ((nat \<Rightarrow> 'g) \<times> DgLimiter list, unit) res" where
  "dg_set_advance_loop lim st packets sz [] = Ok (st, [])"
| "dg_set_advance_loop lim st packets sz (l # ls) =
     (case DG_checked_packets l of
        None \<Rightarrow> Ok (st, l # ls)
      | Some checked \<Rightarrow>
          res_bind (if packets < checked then gdl_release_packets lim (st (DG_inner l)) (checked - packets)
                    else Ok (st (DG_inner l))) (\<lambda>g.
          res_bind (case DG_checked_bytes l of
                      Some checked \<Rightarrow> if sz < checked then gdl_release_bytes lim g (checked - sz) else Ok g
                    | None \<Rightarrow> Ok g) (\<lambda>g.
          res_bind (dg_set_advance_loop lim (st(DG_inner l := g)) packets sz ls) (\<lambda>(st, ls).
          Ok (st, l\<lparr>DG_checked_packets := None, DG_checked_bytes := None\<rparr> # ls)))))"

definition DatagramLimiter_set_advance ::
  "'g GlobalDatagramLimit \<Rightarrow> (nat \<Rightarrow> 'g) \<Rightarrow> DatagramLimiter \<Rightarrow> nat \<Rightarrow> nat \<Rightarrow> ((nat \<Rightarrow> 'g) \<times> DatagramLimiter, unit) res" where
  "DatagramLimiter_set_advance lim st self packets sz =
     res_bind
       (if DL_local_is_set self
        then res_bind (LocalDatagramLimiter_set_advance (DL_local self) packets sz) (\<lambda>local. Ok (self\<lparr>DL_local := local\<rparr>))
        else Ok self)
       (\<lambda>self.
        res_bind (dg_set_advance_loop lim st packets sz (DL_global self)) (\<lambda>(st, ls).
        Ok (st, self\<lparr>DL_global := ls\<rparr>)))"

section \<open>A batch on the shared buckets\<close>

lemma add_pass_fits:
  "v + n \<le> cap \<Longrightarrow> cap \<le> u64_max \<Longrightarrow> atomic_call (add_bytes_pass n) cap v = (v + n, Ok None)"
  by (auto simp: atomic_call_def add_bytes_pass_def checked_add_def)

text \<open>Limits that are set have burst sizes, and the buckets are not over full.\<close>

definition buckets_wf :: "GlobalDatagramLimiter \<Rightarrow> bool" where
  "buckets_wf g \<longleftrightarrow> GDL_byte_tokens g \<le> GDC_max_burst_bytes (GDL_config g) \<and> GDC_max_burst_bytes (GDL_config g) \<le> u64_max
     \<and> GDL_packet_tokens g \<le> GDC_max_burst_packets (GDL_config g) \<and> GDC_max_burst_packets (GDL_config g) \<le> u64_max"

lemma add_packets_fits:
  "GDL_packet_tokens g + n \<le> cap \<Longrightarrow> cap \<le> u64_max
    \<Longrightarrow> GDL_add_packets g n cap = Ok (g\<lparr>GDL_packet_tokens := GDL_packet_tokens g + n\<rparr>)"
  "GDL_byte_tokens g + n \<le> cap \<Longrightarrow> cap \<le> u64_max
    \<Longrightarrow> GDL_add_bytes g n cap = Ok (g\<lparr>GDL_byte_tokens := GDL_byte_tokens g + n\<rparr>)"
  by (simp_all add: GDL_add_packets_def GDL_add_bytes_def add_pass_fits)

lemma size_before_eq [simp]:
  "0 < n \<Longrightarrow> n \<le> length xs \<Longrightarrow> size_before xs n = Ok (xs ! (n - 1))" "size_before xs 0 = Panic"
  by (auto simp: size_before_def usize_sub_def)

text \<open>
  The batch in the order of the code: the packet tokens taken, then the byte tokens, then what is
  given back when the bytes do not reach.
\<close>

definition taken_packets :: "GlobalDatagramLimiter \<Rightarrow> nat list \<Rightarrow> nat" where
  "taken_packets g xs =
     (if 0 < GDC_replenish_packets (GDL_config g) then min (GDL_packet_tokens g) (length xs) else length xs)"

definition after_packets :: "GlobalDatagramLimiter \<Rightarrow> nat list \<Rightarrow> nat \<Rightarrow> GlobalDatagramLimiter" where
  "after_packets g xs n =
     (if 0 < GDC_replenish_packets (GDL_config g) then g\<lparr>GDL_packet_tokens := GDL_packet_tokens g - n\<rparr> else g)"

definition after_bytes :: "GlobalDatagramLimiter \<Rightarrow> nat \<Rightarrow> GlobalDatagramLimiter" where
  "after_bytes g n = (if 0 < GDC_replenish_bytes (GDL_config g) then g\<lparr>GDL_byte_tokens := GDL_byte_tokens g - n\<rparr> else g)"

definition charged :: "GlobalDatagramLimiter \<Rightarrow> nat list \<Rightarrow> nat \<Rightarrow> GlobalDatagramLimiter" where
  "charged g xs n = after_bytes (after_packets g xs n) (xs ! (n - 1))"

lemma batch_no_tokens:
  "0 < GDC_replenish_packets (GDL_config g) \<Longrightarrow> GDL_packet_tokens g = 0
    \<Longrightarrow> GlobalDatagramLimiter_check_packets g xs = Ok (g, DgDelayUntil (GDL_wait_until g))"
  by (simp add: GlobalDatagramLimiter_check_packets_def)

lemma batch_no_bytes:
  assumes "buckets_wf g" and "0 < taken_packets g xs"
    and "0 < GDC_replenish_bytes (GDL_config g)" and "GDL_byte_tokens g = 0"
  shows "GlobalDatagramLimiter_check_packets g xs = Ok (g, DgDelayUntil (GDL_wait_until g))"
  using assms
  by (auto simp: GlobalDatagramLimiter_check_packets_def Let_def taken_packets_def buckets_wf_def
      add_packets_fits GDL_wait_until_def min_def split: if_splits)

lemma taken_packets_le: "taken_packets g xs \<le> length xs"
  by (simp add: taken_packets_def)

lemma after_sel [simp]:
  "GDL_config (after_packets g xs n) = GDL_config g" "GDL_config (after_bytes g n) = GDL_config g"
  "GDL_byte_tokens (after_packets g xs n) = GDL_byte_tokens g"
  "GDL_packet_tokens (after_bytes g n) = GDL_packet_tokens g"
  by (simp_all add: after_packets_def after_bytes_def)

lemma batch_eq:
  assumes "0 < taken_packets g xs" and "0 < GDC_replenish_bytes (GDL_config g) \<longrightarrow> 0 < GDL_byte_tokens g"
    and "k = taken_packets g xs" and "g1 = charged g xs k"
  shows "GlobalDatagramLimiter_check_packets g xs =
     (if 0 < GDC_replenish_bytes (GDL_config g) \<and> GDL_byte_tokens g < xs ! (k - 1) then
        (case binary_search xs (GDL_byte_tokens g) of
           Ok i \<Rightarrow>
             res_bind
               (if 0 < GDC_replenish_packets (GDL_config g) then
                  res_bind (usize_sub k i) (\<lambda>d.
                  res_bind (usize_sub d 1) (\<lambda>n. GDL_add_packets g1 n (GDC_max_burst_packets (GDL_config g))))
                else Ok g1)
               (\<lambda>g1. Ok (g1, Advance (i + 1)))
         | Err i \<Rightarrow>
             res_bind
               (if 0 < GDC_replenish_packets (GDL_config g) then
                  res_bind (usize_sub k i) (\<lambda>n. GDL_add_packets g1 n (GDC_max_burst_packets (GDL_config g)))
                else Ok g1)
               (\<lambda>g1.
                res_bind
                  (res_bind (size_before xs i) (\<lambda>used.
                   res_bind (usize_sub (GDL_byte_tokens g) used) (\<lambda>n. GDL_add_bytes g1 n (GDC_max_burst_bytes (GDL_config g)))))
                  (\<lambda>g1. Ok (g1, Advance i)))
         | Panic \<Rightarrow> Panic)
      else Ok (g1, Advance k))"
proof -
  have k: "size_before xs k = Ok (xs ! (k - 1))"
    using assms(1,3) taken_packets_le [of g xs] by simp
  have to: "(if 0 < GDC_replenish_packets (GDL_config g) then GDL_packet_tokens g - (GDL_packet_tokens g - length xs)
      else length xs) = k"
    using assms(3) by (auto simp: taken_packets_def min_def)
  have go: "\<not> (0 < GDC_replenish_packets (GDL_config g) \<and> GDL_packet_tokens g = 0)"
      "\<not> (0 < GDC_replenish_bytes (GDL_config g) \<and> GDL_byte_tokens g = 0)"
    using assms(1) assms(2) by (auto simp add: taken_packets_def split: if_splits)
  have g1: "(if 0 < GDC_replenish_bytes (GDL_config g) then after_packets g xs k\<lparr>GDL_byte_tokens := GDL_byte_tokens g - xs ! (k - 1)\<rparr>
      else after_packets g xs k) = g1"
    using assms(4) by (simp add: charged_def after_bytes_def)
  have gp: "(if 0 < GDC_replenish_packets (GDL_config g) then g\<lparr>GDL_packet_tokens := GDL_packet_tokens g - length xs\<rparr> else g)
      = after_packets g xs k"
    using assms(3) by (auto simp: after_packets_def taken_packets_def min_def)
  show ?thesis
  proof (cases "0 < GDC_replenish_bytes (GDL_config g) \<and> GDL_byte_tokens g < xs ! (k - 1)")
    case True
    then have "GDL_byte_tokens g - (GDL_byte_tokens g - xs ! (k - 1)) = GDL_byte_tokens g" "GDL_byte_tokens g \<noteq> xs ! (k - 1)"
      by auto
    then show ?thesis
      unfolding GlobalDatagramLimiter_check_packets_def Let_def to gp k res_bind.simps g1 if_not_P [OF go(1)] if_not_P [OF go(2)]
      using True by (simp only: if_True if_False simp_thms)
  next
    case False
    then have "(if 0 < GDC_replenish_bytes (GDL_config g) then GDL_byte_tokens g - (GDL_byte_tokens g - xs ! (k - 1))
        else xs ! (k - 1)) = xs ! (k - 1)"
      by auto
    then show ?thesis
      unfolding GlobalDatagramLimiter_check_packets_def Let_def to gp k res_bind.simps g1 if_not_P [OF go(1)] if_not_P [OF go(2)]
      using False by (simp only: if_False if_True refl)
  qed
qed

lemma charged_give_back:
  assumes "buckets_wf g" and "k = taken_packets g xs" and "i \<le> k" and "0 < GDC_replenish_packets (GDL_config g)"
  shows "GDL_add_packets (charged g xs k) (k - i) (GDC_max_burst_packets (GDL_config g)) =
    Ok ((charged g xs k)\<lparr>GDL_packet_tokens := GDL_packet_tokens g - i\<rparr>)"
proof -
  have "k \<le> GDL_packet_tokens g" "GDL_packet_tokens (charged g xs k) = GDL_packet_tokens g - k"
    using assms(2,4) by (simp_all add: taken_packets_def charged_def after_packets_def)
  then show ?thesis
    using assms(1,3) by (subst add_packets_fits) (auto simp: buckets_wf_def)
qed

text \<open>Where the byte tokens end inside the batch.\<close>

lemma batch_part:
  assumes "buckets_wf g" and "sorted xs" and "k = taken_packets g xs" and "0 < k"
    and "0 < GDC_replenish_bytes (GDL_config g)" and "0 < GDL_byte_tokens g" and "GDL_byte_tokens g < xs ! (k - 1)"
    and "xs ! 0 \<le> GDL_byte_tokens g"
  shows "\<exists>n. GlobalDatagramLimiter_check_packets g xs = Ok (charged g xs n, Advance n) \<and> 0 < n \<and> n < k
    \<and> xs ! (n - 1) \<le> GDL_byte_tokens g"
proof -
  let ?b = "GDL_byte_tokens g" and ?P = "0 < GDC_replenish_packets (GDL_config g)"
  have k: "k \<le> length xs"
    using assms(3) taken_packets_le by simp
  have before: "i < k - 1" if "i < length xs" "xs ! i \<le> ?b" for i
    using sorted_nth_mono [OF assms(2), of "k - 1" i] that assms(7) by (cases "i < k - 1") auto
  note eq = batch_eq [OF _ _ assms(3) refl]
  have zero: "GDL_byte_tokens (charged g xs k) = 0"
    using assms(5,7) by (simp add: charged_def after_bytes_def)
  consider (found) i where "binary_search xs ?b = Ok i" "i < length xs" "xs ! i = ?b"
    | (gap) i where "binary_search xs ?b = Err i" "i \<le> length xs" "\<forall>j < i. xs ! j < ?b" "\<forall>j < length xs. i \<le> j \<longrightarrow> ?b < xs ! j"
    using binary_search_sorted [OF assms(2), of ?b] by (cases "binary_search xs ?b") auto
  then show ?thesis
  proof cases
    case found
    then have i: "Suc i < k" "k - i - 1 = k - Suc i"
      using before [of i] by auto
    have "GlobalDatagramLimiter_check_packets g xs = Ok (charged g xs (Suc i), Advance (Suc i))"
      using charged_give_back [OF assms(1,3), of "Suc i"] i found assms(3-7) zero
      by (subst eq) (auto simp: usize_sub_def charged_def after_bytes_def after_packets_def)
    then show ?thesis
      using i found by auto
  next
    case gap
    have i: "0 < i" "i < k"
      using gap assms(8) k before [of "i - 1"] assms(4) by (cases i; force)+
    have used: "xs ! (i - 1) < ?b" "size_before xs i = Ok (xs ! (i - 1))"
      using gap i by auto
    have "GlobalDatagramLimiter_check_packets g xs = Ok (charged g xs i, Advance i)"
      using charged_give_back [OF assms(1,3), of i] i gap(1) used assms(1,3-7) zero
      by (subst eq) (auto simp: usize_sub_def add_packets_fits(2) buckets_wf_def charged_def after_bytes_def after_packets_def)
    then show ?thesis
      using i used by auto
  qed
qed

lemma batch_first_too_large:
  assumes "buckets_wf g" and "sorted xs" and "xs \<noteq> []" and "k = taken_packets g xs" and "0 < k"
    and "0 < GDC_replenish_bytes (GDL_config g)" and "0 < GDL_byte_tokens g" and "GDL_byte_tokens g < xs ! 0"
    and "GDL_byte_tokens g < xs ! (k - 1)"
  shows "GlobalDatagramLimiter_check_packets g xs = Panic"
proof -
  let ?b = "GDL_byte_tokens g"
  have "binary_search xs ?b \<noteq> Ok i" for i
  proof
    assume "binary_search xs ?b = Ok i"
    then have "i < length xs" "xs ! i = ?b"
      using binary_search_sorted [OF assms(2), of ?b] by simp_all
    then show False
      using sorted_nth_mono [OF assms(2), of 0 i] assms(8) by simp
  qed
  moreover have "i = 0" if "binary_search xs ?b = Err i" for i
    using binary_search_sorted [OF assms(2), of ?b] assms(8) that by (cases i) auto
  ultimately have b: "binary_search xs ?b = Err 0"
    using binary_search_sorted [OF assms(2), of ?b] by (cases "binary_search xs ?b") auto
  have "0 < GDC_replenish_packets (GDL_config g) \<Longrightarrow>
      \<exists>g'. GDL_add_packets (charged g xs k) k (GDC_max_burst_packets (GDL_config g)) = Ok g'"
    using charged_give_back [OF assms(1,4), of 0] by simp
  then show ?thesis
    using b assms(4-7,9) by (subst batch_eq [OF _ _ assms(4) refl]) (auto simp: usize_sub_def)
qed

text \<open>
  C13. A batch on the shared datagram buckets. The check panics exactly when tokens are left and the first
  packet of the batch is larger than the byte tokens left. Otherwise it allows at least one and
  at most all packets and charges every bucket exactly for the packets it allows, or it asks to
  wait and charges nothing.
\<close>

theorem datagram_batch_exact:
  assumes "buckets_wf g" and "sorted xs" and "xs \<noteq> []"
  shows "case GlobalDatagramLimiter_check_packets g xs of
      Ok (g', Advance n) \<Rightarrow> 0 < n \<and> n \<le> length xs \<and> g' = charged g xs n
        \<and> (0 < GDC_replenish_packets (GDL_config g) \<longrightarrow> n \<le> GDL_packet_tokens g)
        \<and> (0 < GDC_replenish_bytes (GDL_config g) \<longrightarrow> xs ! (n - 1) \<le> GDL_byte_tokens g)
    | Ok (g', _) \<Rightarrow> g' = g
        \<and> (0 < GDC_replenish_packets (GDL_config g) \<and> GDL_packet_tokens g = 0
           \<or> 0 < GDC_replenish_bytes (GDL_config g) \<and> GDL_byte_tokens g = 0)
    | Err _ \<Rightarrow> False
    | Panic \<Rightarrow> (0 < GDC_replenish_packets (GDL_config g) \<longrightarrow> 0 < GDL_packet_tokens g)
        \<and> 0 < GDC_replenish_bytes (GDL_config g) \<and> 0 < GDL_byte_tokens g \<and> GDL_byte_tokens g < xs ! 0"
proof (cases "0 < GDC_replenish_packets (GDL_config g) \<and> GDL_packet_tokens g = 0")
  case True
  then show ?thesis
    by (simp add: batch_no_tokens)
next
  case P: False
  let ?k = "taken_packets g xs"
  have k: "0 < ?k" "?k \<le> length xs" "0 < GDC_replenish_packets (GDL_config g) \<longrightarrow> ?k \<le> GDL_packet_tokens g"
    using P assms(3) by (simp_all add: taken_packets_def) linarith
  show ?thesis
  proof (cases "0 < GDC_replenish_bytes (GDL_config g)")
    case B: True
    then consider (none) "GDL_byte_tokens g = 0" | (all) "0 < GDL_byte_tokens g" "xs ! (?k - 1) \<le> GDL_byte_tokens g"
      | (first) "0 < GDL_byte_tokens g" "GDL_byte_tokens g < xs ! 0" "GDL_byte_tokens g < xs ! (?k - 1)"
      | (part) "0 < GDL_byte_tokens g" "xs ! 0 \<le> GDL_byte_tokens g" "GDL_byte_tokens g < xs ! (?k - 1)"
      by linarith
    then show ?thesis
    proof cases
      case none
      then show ?thesis
        using batch_no_bytes [OF assms(1) k(1) B] B by simp
    next
      case all
      then show ?thesis
        using k by (subst batch_eq [OF _ _ refl refl]) auto
    next
      case first
      then show ?thesis
        using batch_first_too_large [OF assms refl k(1) B] B P by auto
    next
      case part
      then show ?thesis
        using batch_part [OF assms(1,2) refl k(1) B] k by auto
    qed
  next
    case False
    then show ?thesis
      using k by (subst batch_eq [OF _ _ refl refl]) auto
  qed
qed

theorem datagram_batch_exact_witness:
  "case GlobalDatagramLimiter_check_packets (GlobalDatagramLimiter_new 0 (GDC_per_second 700)) [200, 700, 900] of
      Ok (g', Advance n) \<Rightarrow> g' = charged (GlobalDatagramLimiter_new 0 (GDC_per_second 700)) [200, 700, 900] n
    | Ok (g', _) \<Rightarrow> False
    | Err _ \<Rightarrow> False
    | Panic \<Rightarrow> False"
  using datagram_batch_exact [of "GlobalDatagramLimiter_new 0 (GDC_per_second 700)" "[200, 700, 900]"]
  by (auto simp: buckets_wf_def GlobalDatagramLimiter_new_def GDC_per_second_def u64_max_def
      split: res.splits prod.splits DatagramLimitAction.splits)

text \<open>
  C36. A batch that one bucket allows and the next one delays is not given back in full: the loop notes the
  packets it took and not the bytes, so the first bucket stays short of all bytes of a batch that is
  not sent.
\<close>

theorem datagram_delay_keeps_bytes:
  assumes "sorted xs" and "xs \<noteq> []"
    and "buckets_wf (st 0)" and "0 < GDC_replenish_bytes (GDL_config (st 0))" and "GDC_replenish_packets (GDL_config (st 0)) = 0"
    and "0 < GDL_byte_tokens (st 0)" and "last xs \<le> GDL_byte_tokens (st 0)" and "GDC_max_burst_packets (GDL_config (st 0)) = 0"
    and "buckets_wf (st 1)" and "0 < GDC_replenish_bytes (GDL_config (st 1))" and "GDC_replenish_packets (GDL_config (st 1)) = 0"
    and "GDL_byte_tokens (st 1) = 0"
  shows "\<exists>st' self' t. DatagramLimiter_check_packets datagram_bucket st
        (DatagramLimiter_add_global (DatagramLimiter_add_global DatagramLimiter_default 0) 1) now xs
      = Ok (st', self', DgDelayUntil t)
    \<and> GDL_byte_tokens (st' 0) + last xs = GDL_byte_tokens (st 0)"
proof -
  have k: "taken_packets (st 0) xs = length xs" "taken_packets (st 1) xs = length xs"
    using assms by (simp_all add: taken_packets_def)
  have last: "xs ! (length xs - 1) = last xs"
    using assms(2) by (simp add: last_conv_nth)
  have first: "GlobalDatagramLimiter_check_packets (st 0) xs =
      Ok ((st 0)\<lparr>GDL_byte_tokens := GDL_byte_tokens (st 0) - last xs\<rparr>, Advance (length xs))"
    using assms k last by (subst batch_eq [OF _ _ refl refl]) (auto simp: charged_def after_bytes_def after_packets_def)
  have second: "GlobalDatagramLimiter_check_packets (st 1) xs = Ok (st 1, DgDelayUntil (GDL_wait_until (st 1)))"
    using assms k by (intro batch_no_bytes) auto
  show ?thesis
    using first second assms(7,8)
    by (simp add: DatagramLimiter_check_packets_def DatagramLimiter_add_global_def DatagramLimiter_default_def DgLimiter_new_def
        datagram_bucket_def DatagramLimiter_release_global_def GlobalDatagramLimiter_release_packets_def)
qed

theorem datagram_delay_keeps_bytes_witness:
  "let st = (\<lambda>a. (GlobalDatagramLimiter_new 0 (GDC_per_second 1000))\<lparr>GDL_byte_tokens := if a = 0 then 1000 else 0\<rparr>) in
   \<exists>st' self' t. DatagramLimiter_check_packets datagram_bucket st
        (DatagramLimiter_add_global (DatagramLimiter_add_global DatagramLimiter_default 0) 1) 0 [300, 800]
      = Ok (st', self', DgDelayUntil t)
    \<and> GDL_byte_tokens (st' 0) + last [300, 800] = 1000"
  unfolding Let_def
  using datagram_delay_keeps_bytes [of "[300, 800]"
      "\<lambda>a. (GlobalDatagramLimiter_new 0 (GDC_per_second 1000))\<lparr>GDL_byte_tokens := if a = 0 then 1000 else 0\<rparr>" 0]
  by (simp add: buckets_wf_def GlobalDatagramLimiter_new_def GDC_per_second_def u64_max_def)

end
