(* ===== verification/Acl.thy ===== *)
theory Acl
  imports Net_Host "HOL-Library.AList" "HOL-Library.List_Lexorder" "HOL-Library.Sublist"
begin

text \<open>
  The access control rules of \<open>g3-types/src/acl\<close> and the destination host rule set of
  \<open>g3-types/src/acl_set\<close>: actions, rules on exact values, on the labels of a domain, on networks, on
  regular expressions and on the product names of a user agent. A \<open>str\<close> is the list of its bytes.
  A hash map that is only looked up in is a map; one that is iterated over is the list of its entries
  in the order of an iteration, and the results hold for every order. A \<open>BTreeMap\<close> is the list of its
  entries by increasing key. The crates \<open>radix_trie\<close>, \<open>regex\<close>, \<open>ip_network\<close> and
  \<open>ip_network_table\<close> are parameters, whose documented behaviour is the contract of the locales
  \<open>radix_trie\<close>, \<open>regex_engine\<close> and \<open>network_table\<close>.
\<close>

section \<open>Strings and ordered maps of the standard library\<close>

definition lower_byte :: "u8 \<Rightarrow> u8" where
  "lower_byte b = (if 0x41 \<le> b \<and> b \<le> 0x5A then b + 0x20 else b)"

definition to_ascii_lowercase :: "bytes \<Rightarrow> bytes" where
  "to_ascii_lowercase s = map lower_byte s"

definition is_char_boundary :: "bytes \<Rightarrow> nat \<Rightarrow> bool" where
  "is_char_boundary s i \<longleftrightarrow> i = 0 \<or> i = length s \<or> i < length s \<and> \<not> utf8_cont (s ! i)"

definition str_from :: "bytes \<Rightarrow> nat \<Rightarrow> (bytes, 'e) res" where
  "str_from s i = (if is_char_boundary s i then Ok (drop i s) else Panic)"

definition str_split_at :: "bytes \<Rightarrow> nat \<Rightarrow> (bytes \<times> bytes, 'e) res" where
  "str_split_at s i = (if is_char_boundary s i then Ok (take i s, drop i s) else Panic)"

fun str_find :: "bytes \<Rightarrow> bytes \<Rightarrow> nat option" where
  "str_find p [] = (if p = [] then Some 0 else None)"
| "str_find p (b # s) =
     (if starts_with (b # s) p then Some 0 else map_option Suc (str_find p s))"

text \<open>\<open>split('.')\<close> and \<open>join(".")\<close>.\<close>

fun split_dot :: "bytes \<Rightarrow> bytes list" where
  "split_dot [] = [[]]"
| "split_dot (b # s) =
     (if b = 0x2E then [] # split_dot s
      else (case split_dot s of l # ls \<Rightarrow> (b # l) # ls | [] \<Rightarrow> [[b]]))"

fun join_dot :: "bytes list \<Rightarrow> bytes" where
  "join_dot [] = []"
| "join_dot [l] = l"
| "join_dot (l # m # ls) = l @ 0x2E # join_dot (m # ls)"

fun btree_put :: "'k::linorder \<Rightarrow> 'v \<Rightarrow> ('k \<times> 'v) list \<Rightarrow> ('k \<times> 'v) list" where
  "btree_put k v [] = [(k, v)]"
| "btree_put k v ((k', v') # m) =
     (if k < k' then (k, v) # (k', v') # m
      else if k = k' then (k, v) # m
      else (k', v') # btree_put k v m)"

section \<open>Actions\<close>

datatype AclAction = ForbidAndLog | Forbid | PermitAndLog | Permit

text \<open>\<open>derive(PartialOrd, Ord)\<close>: the order of the constructors.\<close>

primrec AclAction_rank :: "AclAction \<Rightarrow> nat" where
  "AclAction_rank ForbidAndLog = 0"
| "AclAction_rank Forbid = 1"
| "AclAction_rank PermitAndLog = 2"
| "AclAction_rank Permit = 3"

lemma AclAction_rank_inj [simp]: "AclAction_rank a = AclAction_rank b \<longleftrightarrow> a = b"
  by (cases a; cases b) simp_all

instantiation AclAction :: linorder
begin

definition less_eq_AclAction :: "AclAction \<Rightarrow> AclAction \<Rightarrow> bool" where
  "less_eq_AclAction a b \<longleftrightarrow> AclAction_rank a \<le> AclAction_rank b"

definition less_AclAction :: "AclAction \<Rightarrow> AclAction \<Rightarrow> bool" where
  "less_AclAction a b \<longleftrightarrow> AclAction_rank a < AclAction_rank b"

instance
  by standard (auto simp: less_eq_AclAction_def less_AclAction_def simp flip: AclAction_rank_inj)

end

definition AclAction_restrict :: "AclAction \<Rightarrow> AclAction \<Rightarrow> AclAction" where
  "AclAction_restrict self other = min other self"

definition AclAction_strict_than :: "AclAction \<Rightarrow> AclAction \<Rightarrow> bool" where
  "AclAction_strict_than self other \<longleftrightarrow> self \<le> other"

fun AclAction_forbid_early :: "AclAction \<Rightarrow> bool" where
  "AclAction_forbid_early ForbidAndLog = True"
| "AclAction_forbid_early Forbid = True"
| "AclAction_forbid_early PermitAndLog = False"
| "AclAction_forbid_early Permit = False"

primrec AclAction_as_str :: "AclAction \<Rightarrow> bytes" where
  "AclAction_as_str Permit = ascii ''Permit''"
| "AclAction_as_str PermitAndLog = ascii ''PermitAndLog''"
| "AclAction_as_str Forbid = ascii ''Forbid''"
| "AclAction_as_str ForbidAndLog = ascii ''ForbidAndLog''"

definition AclAction_from_str :: "bytes \<Rightarrow> (AclAction, unit) res" where
  "AclAction_from_str s =
     (let l = to_ascii_lowercase s in
      if l \<in> {ascii ''permit'', ascii ''allow'', ascii ''accept''} then Ok Permit
      else if l \<in> {ascii ''permit_log'', ascii ''allow_log'', ascii ''accept_log''}
      then Ok PermitAndLog
      else if l \<in> {ascii ''forbid'', ascii ''deny'', ascii ''reject''} then Ok Forbid
      else if l \<in> {ascii ''forbid_log'', ascii ''deny_log'', ascii ''reject_log''}
      then Ok ForbidAndLog
      else Err ())"

section \<open>Rules on exact values\<close>

text \<open>\<open>AclAHashRule\<close> and \<open>AclFxHashRule\<close>, which differ in the hash function only.\<close>

record ('k, 'a) AclHashRule =
  HR_inner :: "'k \<rightharpoonup> 'a"
  HR_missed_action :: 'a

definition AclHashRule_new :: "'a \<Rightarrow> ('k, 'a) AclHashRule" where
  "AclHashRule_new missed_action = \<lparr>HR_inner = Map.empty, HR_missed_action = missed_action\<rparr>"

definition AclHashRule_add_node ::
  "'k \<Rightarrow> 'a \<Rightarrow> ('k, 'a) AclHashRule \<Rightarrow> ('k, 'a) AclHashRule" where
  "AclHashRule_add_node node action self = self\<lparr>HR_inner := (HR_inner self)(node \<mapsto> action)\<rparr>"

definition AclHashRule_set_missed_action ::
  "'a \<Rightarrow> ('k, 'a) AclHashRule \<Rightarrow> ('k, 'a) AclHashRule" where
  "AclHashRule_set_missed_action action self = self\<lparr>HR_missed_action := action\<rparr>"

definition AclHashRule_check :: "('k, 'a) AclHashRule \<Rightarrow> 'k \<Rightarrow> bool \<times> 'a" where
  "AclHashRule_check self node =
     (case HR_inner self node of
        Some action \<Rightarrow> (True, action)
      | None \<Rightarrow> (False, HR_missed_action self))"

record 'a AclExactHostRule =
  EH_missed_action :: 'a
  EH_domain :: "(bytes, 'a) AclHashRule"
  EH_ip :: "(IpAddr, 'a) AclHashRule"

definition AclExactHostRule_new :: "'a \<Rightarrow> 'a AclExactHostRule" where
  "AclExactHostRule_new missed_action =
     \<lparr>EH_missed_action = missed_action, EH_domain = AclHashRule_new missed_action,
      EH_ip = AclHashRule_new missed_action\<rparr>"

definition AclExactHostRule_add_domain ::
  "bytes \<Rightarrow> 'a \<Rightarrow> 'a AclExactHostRule \<Rightarrow> 'a AclExactHostRule" where
  "AclExactHostRule_add_domain domain action self =
     self\<lparr>EH_domain := AclHashRule_add_node domain action (EH_domain self)\<rparr>"

definition AclExactHostRule_add_ip ::
  "IpAddr \<Rightarrow> 'a \<Rightarrow> 'a AclExactHostRule \<Rightarrow> 'a AclExactHostRule" where
  "AclExactHostRule_add_ip ip action self =
     self\<lparr>EH_ip := AclHashRule_add_node ip action (EH_ip self)\<rparr>"

fun AclExactHostRule_add_host ::
  "Host \<Rightarrow> 'a \<Rightarrow> 'a AclExactHostRule \<Rightarrow> 'a AclExactHostRule" where
  "AclExactHostRule_add_host (Ip ip) action self = AclExactHostRule_add_ip ip action self"
| "AclExactHostRule_add_host (Domain domain) action self =
     AclExactHostRule_add_domain domain action self"

definition AclExactHostRule_set_missed_action ::
  "'a \<Rightarrow> 'a AclExactHostRule \<Rightarrow> 'a AclExactHostRule" where
  "AclExactHostRule_set_missed_action action self =
     self\<lparr>EH_missed_action := action,
          EH_domain := AclHashRule_set_missed_action action (EH_domain self),
          EH_ip := AclHashRule_set_missed_action action (EH_ip self)\<rparr>"

definition AclExactHostRule_check_domain :: "'a AclExactHostRule \<Rightarrow> bytes \<Rightarrow> bool \<times> 'a" where
  "AclExactHostRule_check_domain self domain = AclHashRule_check (EH_domain self) domain"

definition AclExactHostRule_check_ip :: "'a AclExactHostRule \<Rightarrow> IpAddr \<Rightarrow> bool \<times> 'a" where
  "AclExactHostRule_check_ip self ip = AclHashRule_check (EH_ip self) ip"

text \<open>
  A port rule is a rule on 16-bit integers. \<open>RangeInclusive\<close> yields its members in increasing order
  and an empty range yields none; the set of \<open>Ports\<close> is the list of its iteration.
\<close>

type_synonym 'a AclExactPortRule = "(u16, 'a) AclHashRule"

definition port_range :: "u16 \<Rightarrow> u16 \<Rightarrow> u16 list" where
  "port_range a b = map of_nat [unat a..<Suc (unat b)]"

definition AclExactPortRule_add_ports ::
  "u16 list \<Rightarrow> 'a \<Rightarrow> 'a AclExactPortRule \<Rightarrow> 'a AclExactPortRule" where
  "AclExactPortRule_add_ports ports action self =
     fold (\<lambda>port. AclHashRule_add_node port action) ports self"

definition AclExactPortRule_add_port_range ::
  "u16 \<Rightarrow> u16 \<Rightarrow> 'a \<Rightarrow> 'a AclExactPortRule \<Rightarrow> 'a AclExactPortRule" where
  "AclExactPortRule_add_port_range a b action self =
     fold (\<lambda>port. AclHashRule_add_node port action) (port_range a b) self"

definition AclExactPortRule_add_port ::
  "u16 \<Rightarrow> 'a \<Rightarrow> 'a AclExactPortRule \<Rightarrow> 'a AclExactPortRule" where
  "AclExactPortRule_add_port port action self = AclHashRule_add_node port action self"

definition AclExactPortRule_check_port :: "'a AclExactPortRule \<Rightarrow> u16 \<Rightarrow> bool \<times> 'a" where
  "AclExactPortRule_check_port self port = AclHashRule_check self port"

datatype ProxyRequestType = HttpForward | HttpsForward | FtpOverHttp | HttpConnect
  | SocksTcpConnect | SocksUdpAssociate

record 'a AclProxyRequestRule =
  PR_missed_action :: 'a
  PR_request :: "(ProxyRequestType, 'a) AclHashRule"

definition AclProxyRequestRule_new :: "'a \<Rightarrow> 'a AclProxyRequestRule" where
  "AclProxyRequestRule_new missed_action =
     \<lparr>PR_missed_action = missed_action, PR_request = AclHashRule_new missed_action\<rparr>"

definition AclProxyRequestRule_add_request_type ::
  "ProxyRequestType \<Rightarrow> 'a \<Rightarrow> 'a AclProxyRequestRule \<Rightarrow> 'a AclProxyRequestRule" where
  "AclProxyRequestRule_add_request_type request action self =
     self\<lparr>PR_request := AclHashRule_add_node request action (PR_request self)\<rparr>"

definition AclProxyRequestRule_set_missed_action ::
  "'a \<Rightarrow> 'a AclProxyRequestRule \<Rightarrow> 'a AclProxyRequestRule" where
  "AclProxyRequestRule_set_missed_action action self =
     self\<lparr>PR_missed_action := action,
          PR_request := AclHashRule_set_missed_action action (PR_request self)\<rparr>"

definition AclProxyRequestRule_check_request ::
  "'a AclProxyRequestRule \<Rightarrow> ProxyRequestType \<Rightarrow> bool \<times> 'a" where
  "AclProxyRequestRule_check_request self request = AclHashRule_check (PR_request self) request"

section \<open>Rules on domains and their children\<close>

definition strip_leading_dot :: "bytes \<Rightarrow> bytes" where
  "strip_leading_dot domain = (case domain of b # rest \<Rightarrow> if b = 0x2E then rest else domain | [] \<Rightarrow> [])"

definition strip_trailing_dot :: "bytes \<Rightarrow> bytes" where
  "strip_trailing_dot s = (if s \<noteq> [] \<and> last s = 0x2E then butlast s else s)"

definition reverse_idna_domain :: "bytes \<Rightarrow> bytes" where
  "reverse_idna_domain domain = join_dot (rev (split_dot (strip_leading_dot domain))) @ [0x2E]"

definition reverse_to_idna_domain :: "bytes \<Rightarrow> bytes" where
  "reverse_to_idna_domain reversed = join_dot (rev (split_dot (strip_trailing_dot reversed)))"

text \<open>
  A trie of the crate \<open>radix_trie\<close>: \<open>get_ancestor\<close> yields the prefix of the sub-trie and its value.
\<close>

record ('t, 'v) Trie =
  Trie_new :: 't
  Trie_insert :: "bytes \<Rightarrow> 'v \<Rightarrow> 't \<Rightarrow> 't"
  Trie_is_empty :: "'t \<Rightarrow> bool"
  Trie_get_ancestor :: "'t \<Rightarrow> bytes \<Rightarrow> (bytes \<times> 'v option) option"
  Trie_get_ancestor_value :: "'t \<Rightarrow> bytes \<Rightarrow> 'v option"

record 'a AclRadixTrieRuleBuilder =
  RTB_inner :: "(bytes \<times> 'a) list"
  RTB_missed_action :: 'a

record ('t, 'a) AclRadixTrieRule =
  RT_inner :: 't
  RT_missed_action :: 'a

definition AclRadixTrieRuleBuilder_new :: "'a \<Rightarrow> 'a AclRadixTrieRuleBuilder" where
  "AclRadixTrieRuleBuilder_new missed_action = \<lparr>RTB_inner = [], RTB_missed_action = missed_action\<rparr>"

definition AclRadixTrieRuleBuilder_add_node ::
  "bytes \<Rightarrow> 'a \<Rightarrow> 'a AclRadixTrieRuleBuilder \<Rightarrow> 'a AclRadixTrieRuleBuilder" where
  "AclRadixTrieRuleBuilder_add_node node action self =
     self\<lparr>RTB_inner := AList.update node action (RTB_inner self)\<rparr>"

definition AclRadixTrieRuleBuilder_set_missed_action ::
  "'a \<Rightarrow> 'a AclRadixTrieRuleBuilder \<Rightarrow> 'a AclRadixTrieRuleBuilder" where
  "AclRadixTrieRuleBuilder_set_missed_action action self = self\<lparr>RTB_missed_action := action\<rparr>"

definition AclRadixTrieRuleBuilder_build ::
  "('t, 'a) Trie \<Rightarrow> 'a AclRadixTrieRuleBuilder \<Rightarrow> ('t, 'a) AclRadixTrieRule" where
  "AclRadixTrieRuleBuilder_build T self =
     \<lparr>RT_inner = fold (\<lambda>(k, v). Trie_insert T k v) (RTB_inner self) (Trie_new T),
      RT_missed_action = RTB_missed_action self\<rparr>"

definition AclRadixTrieRule_check ::
  "('t, 'a) Trie \<Rightarrow> ('t, 'a) AclRadixTrieRule \<Rightarrow> bytes \<Rightarrow> bool \<times> 'a" where
  "AclRadixTrieRule_check T self key =
     (case Trie_get_ancestor_value T (RT_inner self) key of
        Some action \<Rightarrow> (True, action)
      | None \<Rightarrow> (False, RT_missed_action self))"

type_synonym 'a AclChildDomainRuleBuilder = "'a AclRadixTrieRuleBuilder"
type_synonym ('t, 'a) AclChildDomainRule = "('t, 'a) AclRadixTrieRule"

definition AclChildDomainRuleBuilder_new :: "'a \<Rightarrow> 'a AclChildDomainRuleBuilder" where
  "AclChildDomainRuleBuilder_new missed_action = AclRadixTrieRuleBuilder_new missed_action"

definition AclChildDomainRuleBuilder_add_node ::
  "bytes \<Rightarrow> 'a \<Rightarrow> 'a AclChildDomainRuleBuilder \<Rightarrow> 'a AclChildDomainRuleBuilder" where
  "AclChildDomainRuleBuilder_add_node domain action self =
     AclRadixTrieRuleBuilder_add_node (reverse_idna_domain domain) action self"

definition AclChildDomainRuleBuilder_build ::
  "('t, 'a) Trie \<Rightarrow> 'a AclChildDomainRuleBuilder \<Rightarrow> ('t, 'a) AclChildDomainRule" where
  "AclChildDomainRuleBuilder_build T self = AclRadixTrieRuleBuilder_build T self"

definition AclChildDomainRule_check ::
  "('t, 'a) Trie \<Rightarrow> ('t, 'a) AclChildDomainRule \<Rightarrow> bytes \<Rightarrow> bool \<times> 'a" where
  "AclChildDomainRule_check T self host = AclRadixTrieRule_check T self (reverse_idna_domain host)"

section \<open>Rules on networks\<close>

text \<open>The types \<open>IpNetwork\<close> and \<open>IpNetworkTable\<close> of the crates \<open>ip_network\<close> and \<open>ip_network_table\<close>.\<close>

record ('t, 'n, 'a) NetTable =
  IpNetwork_new :: "IpAddr \<Rightarrow> nat \<Rightarrow> 'n option"
  IpNetworkTable_new :: 't
  IpNetworkTable_insert :: "'n \<Rightarrow> 'a \<Rightarrow> 't \<Rightarrow> 't"
  IpNetworkTable_longest_match :: "'t \<Rightarrow> IpAddr \<Rightarrow> ('n \<times> 'a) option"

record ('n, 'a) AclNetworkRuleBuilder =
  NB_inner :: "('n \<times> 'a) list"
  NB_missed_action :: 'a

record ('t, 'a) AclNetworkRule =
  NR_inner :: 't
  NR_default_action :: 'a

definition AclNetworkRuleBuilder_new :: "'a \<Rightarrow> ('n, 'a) AclNetworkRuleBuilder" where
  "AclNetworkRuleBuilder_new missed_action = \<lparr>NB_inner = [], NB_missed_action = missed_action\<rparr>"

definition AclNetworkRuleBuilder_add_network ::
  "'n \<Rightarrow> 'a \<Rightarrow> ('n, 'a) AclNetworkRuleBuilder \<Rightarrow> ('n, 'a) AclNetworkRuleBuilder" where
  "AclNetworkRuleBuilder_add_network network action self =
     self\<lparr>NB_inner := AList.update network action (NB_inner self)\<rparr>"

definition AclNetworkRuleBuilder_set_missed_action ::
  "'a \<Rightarrow> ('n, 'a) AclNetworkRuleBuilder \<Rightarrow> ('n, 'a) AclNetworkRuleBuilder" where
  "AclNetworkRuleBuilder_set_missed_action action self = self\<lparr>NB_missed_action := action\<rparr>"

definition AclNetworkRuleBuilder_build ::
  "('t, 'n, 'a) NetTable \<Rightarrow> ('n, 'a) AclNetworkRuleBuilder \<Rightarrow> ('t, 'a) AclNetworkRule" where
  "AclNetworkRuleBuilder_build N self =
     \<lparr>NR_inner = fold (\<lambda>(net, action). IpNetworkTable_insert N net action) (NB_inner self)
                  (IpNetworkTable_new N),
      NR_default_action = NB_missed_action self\<rparr>"

text \<open>\<open>IpNetwork::new(addr, len).unwrap()\<close> for each default network, in order.\<close>

primrec new_networks ::
  "('t, 'n, 'a) NetTable \<Rightarrow> (IpAddr \<times> nat) list \<Rightarrow> ('n list, 'e) res" where
  "new_networks N [] = Ok []"
| "new_networks N (p # ps) =
     (case IpNetwork_new N (fst p) (snd p) of
        None \<Rightarrow> Panic
      | Some net \<Rightarrow> res_bind (new_networks N ps) (\<lambda>nets. Ok (net # nets)))"

definition Ipv4Addr_new :: "u8 \<Rightarrow> u8 \<Rightarrow> u8 \<Rightarrow> u8 \<Rightarrow> IpAddr" where
  "Ipv4Addr_new a b c d = V4 (from_be [a, b, c, d])"

definition Ipv6Addr_new :: "u16 \<Rightarrow> u16 \<Rightarrow> u16 \<Rightarrow> u16 \<Rightarrow> u16 \<Rightarrow> u16 \<Rightarrow> u16 \<Rightarrow> u16 \<Rightarrow> IpAddr" where
  "Ipv6Addr_new a b c d e f g h = V6 (groups_value [a, b, c, d, e, f, g, h])"

definition DEFAULT_EGRESS_RULE :: "(IpAddr \<times> nat) list" where
  "DEFAULT_EGRESS_RULE =
     [(V4 0, 32),
      (Ipv4Addr_new 127 0 0 0, 8),
      (Ipv4Addr_new 169 254 0 0, 16),
      (V6 0, 128),
      (Ipv6Addr_new 0 0 0 0 0 0 0 1, 128),
      (Ipv6Addr_new 0xfe80 0 0 0 0 0 0 0, 10),
      (Ipv6Addr_new 0x0100 0 0 0 0 0 0 0, 64)]"

definition DEFAULT_INGRESS_RULE :: "(IpAddr \<times> nat) list" where
  "DEFAULT_INGRESS_RULE =
     [(Ipv4Addr_new 127 0 0 1, 32),
      (Ipv6Addr_new 0 0 0 0 0 0 0 1, 128)]"

definition AclNetworkRuleBuilder_new_egress ::
  "('t, 'n, AclAction) NetTable \<Rightarrow> AclAction \<Rightarrow> (('n, AclAction) AclNetworkRuleBuilder, 'e) res" where
  "AclNetworkRuleBuilder_new_egress N missed_action =
     res_bind (new_networks N DEFAULT_EGRESS_RULE) (\<lambda>v.
     Ok \<lparr>NB_inner = fold (\<lambda>net. AList.update net Forbid) v [], NB_missed_action = missed_action\<rparr>)"

definition AclNetworkRuleBuilder_new_ingress ::
  "('t, 'n, AclAction) NetTable \<Rightarrow> AclAction \<Rightarrow> (('n, AclAction) AclNetworkRuleBuilder, 'e) res" where
  "AclNetworkRuleBuilder_new_ingress N missed_action =
     res_bind (new_networks N DEFAULT_INGRESS_RULE) (\<lambda>v.
     Ok \<lparr>NB_inner = fold (\<lambda>net. AList.update net Permit) v [], NB_missed_action = missed_action\<rparr>)"

definition AclNetworkRule_check ::
  "('t, 'n, 'a) NetTable \<Rightarrow> ('t, 'a) AclNetworkRule \<Rightarrow> IpAddr \<Rightarrow> bool \<times> 'a" where
  "AclNetworkRule_check N self ip =
     (case IpNetworkTable_longest_match N (NR_inner self) ip of
        Some (net, action) \<Rightarrow> (True, action)
      | None \<Rightarrow> (False, NR_default_action self))"

section \<open>Rules on regular expressions\<close>

text \<open>\<open>RegexSet\<close> of the crate \<open>regex\<close>; a \<open>Regex\<close> is its text.\<close>

record 'r RegexSet =
  RegexSet_new :: "bytes list \<Rightarrow> 'r option"
  RegexSet_is_match :: "'r \<Rightarrow> bytes \<Rightarrow> bool"

type_synonym 'a RegexSetBuilder = "(bytes \<times> 'a) list"
type_synonym ('r, 'a) RegexSetMatch = "('a \<times> 'r) list"

definition RegexSetBuilder_add_regex :: "bytes \<Rightarrow> 'a \<Rightarrow> 'a RegexSetBuilder \<Rightarrow> 'a RegexSetBuilder" where
  "RegexSetBuilder_add_regex regex action self = AList.update regex action self"

text \<open>\<open>action_map.entry(action).or_default().push(r)\<close>.\<close>

definition action_map_push :: "bytes \<times> 'a::linorder \<Rightarrow> ('a \<times> bytes list) list \<Rightarrow> ('a \<times> bytes list) list" where
  "action_map_push e m =
     btree_put (snd e) ((case map_of m (snd e) of Some v \<Rightarrow> v | None \<Rightarrow> []) @ [fst e]) m"

primrec compile_sets ::
  "'r RegexSet \<Rightarrow> ('a \<times> bytes list) list \<Rightarrow> (('a \<times> 'r) list, 'e) res" where
  "compile_sets R [] = Ok []"
| "compile_sets R (e # m) =
     (case RegexSet_new R (snd e) of
        None \<Rightarrow> Panic
      | Some rs \<Rightarrow> res_bind (compile_sets R m) (\<lambda>m'. Ok ((fst e, rs) # m')))"

definition RegexSetBuilder_build ::
  "'r RegexSet \<Rightarrow> 'a::linorder RegexSetBuilder \<Rightarrow> (('r, 'a) RegexSetMatch, 'e) res" where
  "RegexSetBuilder_build R self = compile_sets R (fold action_map_push self [])"

primrec RegexSetMatch_check :: "'r RegexSet \<Rightarrow> ('r, 'a) RegexSetMatch \<Rightarrow> bytes \<Rightarrow> 'a option" where
  "RegexSetMatch_check R [] text = None"
| "RegexSetMatch_check R (e # inner) text =
     (if RegexSet_is_match R (snd e) text then Some (fst e) else RegexSetMatch_check R inner text)"

record 'a AclRegexSetRuleBuilder =
  RSB_inner :: "'a RegexSetBuilder"
  RSB_missed_action :: 'a

record ('r, 'a) AclRegexSetRule =
  RS_action_map :: "('r, 'a) RegexSetMatch"
  RS_missed_action :: 'a

definition AclRegexSetRuleBuilder_new :: "'a \<Rightarrow> 'a AclRegexSetRuleBuilder" where
  "AclRegexSetRuleBuilder_new missed_action = \<lparr>RSB_inner = [], RSB_missed_action = missed_action\<rparr>"

definition AclRegexSetRuleBuilder_add_regex ::
  "bytes \<Rightarrow> 'a \<Rightarrow> 'a AclRegexSetRuleBuilder \<Rightarrow> 'a AclRegexSetRuleBuilder" where
  "AclRegexSetRuleBuilder_add_regex regex action self =
     self\<lparr>RSB_inner := RegexSetBuilder_add_regex regex action (RSB_inner self)\<rparr>"

definition AclRegexSetRuleBuilder_set_missed_action ::
  "'a \<Rightarrow> 'a AclRegexSetRuleBuilder \<Rightarrow> 'a AclRegexSetRuleBuilder" where
  "AclRegexSetRuleBuilder_set_missed_action action self = self\<lparr>RSB_missed_action := action\<rparr>"

definition AclRegexSetRuleBuilder_build ::
  "'r RegexSet \<Rightarrow> 'a::linorder AclRegexSetRuleBuilder \<Rightarrow> (('r, 'a) AclRegexSetRule, 'e) res" where
  "AclRegexSetRuleBuilder_build R self =
     res_bind (RegexSetBuilder_build R (RSB_inner self)) (\<lambda>m.
     Ok \<lparr>RS_action_map = m, RS_missed_action = RSB_missed_action self\<rparr>)"

definition AclRegexSetRule_check :: "'r RegexSet \<Rightarrow> ('r, 'a) AclRegexSetRule \<Rightarrow> bytes \<Rightarrow> bool \<times> 'a" where
  "AclRegexSetRule_check R self text =
     (case RegexSetMatch_check R (RS_action_map self) text of
        Some action \<Rightarrow> (True, action)
      | None \<Rightarrow> (False, RS_missed_action self))"

record 'a AclRegexDomainRuleBuilder =
  RDB_prefix_regex :: "(bytes \<times> 'a RegexSetBuilder) list"
  RDB_full_regex :: "'a RegexSetBuilder"
  RDB_missed_action :: 'a

record ('t, 'r, 'a) AclRegexDomainRule =
  RD_prefix_match_trie :: 't
  RD_full_match_action_map :: "('r, 'a) RegexSetMatch"
  RD_missed_action :: 'a

definition AclRegexDomainRuleBuilder_new :: "'a \<Rightarrow> 'a AclRegexDomainRuleBuilder" where
  "AclRegexDomainRuleBuilder_new missed_action =
     \<lparr>RDB_prefix_regex = [], RDB_full_regex = [], RDB_missed_action = missed_action\<rparr>"

text \<open>\<open>prefix_regex.entry(d).or_default().add_regex(regex, action)\<close>.\<close>

definition AclRegexDomainRuleBuilder_add_prefix_regex ::
  "bytes \<Rightarrow> bytes \<Rightarrow> 'a \<Rightarrow> 'a AclRegexDomainRuleBuilder \<Rightarrow> 'a AclRegexDomainRuleBuilder" where
  "AclRegexDomainRuleBuilder_add_prefix_regex suffix_domain regex action self =
     (let d = reverse_idna_domain suffix_domain;
          b = (case map_of (RDB_prefix_regex self) d of Some b \<Rightarrow> b | None \<Rightarrow> [])
      in self\<lparr>RDB_prefix_regex :=
           AList.update d (RegexSetBuilder_add_regex regex action b) (RDB_prefix_regex self)\<rparr>)"

definition AclRegexDomainRuleBuilder_add_full_regex ::
  "bytes \<Rightarrow> 'a \<Rightarrow> 'a AclRegexDomainRuleBuilder \<Rightarrow> 'a AclRegexDomainRuleBuilder" where
  "AclRegexDomainRuleBuilder_add_full_regex regex action self =
     self\<lparr>RDB_full_regex := RegexSetBuilder_add_regex regex action (RDB_full_regex self)\<rparr>"

definition AclRegexDomainRuleBuilder_set_missed_action ::
  "'a \<Rightarrow> 'a AclRegexDomainRuleBuilder \<Rightarrow> 'a AclRegexDomainRuleBuilder" where
  "AclRegexDomainRuleBuilder_set_missed_action action self = self\<lparr>RDB_missed_action := action\<rparr>"

primrec build_prefix_trie ::
  "('t, ('r, 'a) RegexSetMatch) Trie \<Rightarrow> 'r RegexSet \<Rightarrow> (bytes \<times> 'a::linorder RegexSetBuilder) list
   \<Rightarrow> 't \<Rightarrow> ('t, 'e) res" where
  "build_prefix_trie T R [] trie = Ok trie"
| "build_prefix_trie T R (e # es) trie =
     res_bind (RegexSetBuilder_build R (snd e)) (\<lambda>regex_map.
     build_prefix_trie T R es (Trie_insert T (fst e) regex_map trie))"

definition AclRegexDomainRuleBuilder_build ::
  "('t, ('r, 'a) RegexSetMatch) Trie \<Rightarrow> 'r RegexSet \<Rightarrow> 'a::linorder AclRegexDomainRuleBuilder
   \<Rightarrow> (('t, 'r, 'a) AclRegexDomainRule, 'e) res" where
  "AclRegexDomainRuleBuilder_build T R self =
     res_bind (RegexSetBuilder_build R (RDB_full_regex self)) (\<lambda>full.
     res_bind (build_prefix_trie T R (RDB_prefix_regex self) (Trie_new T)) (\<lambda>trie.
     Ok \<lparr>RD_prefix_match_trie = trie, RD_full_match_action_map = full,
         RD_missed_action = RDB_missed_action self\<rparr>))"

text \<open>
  The first half of \<open>check\<close>: what the expressions of the closest suffix say of the rest of the name.
\<close>

definition check_prefix_regex ::
  "('t, ('r, 'a) RegexSetMatch) Trie \<Rightarrow> 'r RegexSet \<Rightarrow> ('t, 'r, 'a) AclRegexDomainRule \<Rightarrow> bytes
   \<Rightarrow> ('a option, 'e) res" where
  "check_prefix_regex T R self domain =
     (if Trie_is_empty T (RD_prefix_match_trie self) then Ok None
      else
        (case Trie_get_ancestor T (RD_prefix_match_trie self) (reverse_idna_domain domain) of
           Some (key, Some regex_map) \<Rightarrow>
             (let suffix_len = length key in
              res_bind
                (if suffix_len < length domain
                 then res_bind (str_split_at domain (length domain - suffix_len)) (\<lambda>p. Ok (fst p))
                 else Ok [])
                (\<lambda>text. Ok (RegexSetMatch_check R regex_map text)))
         | _ \<Rightarrow> Ok None))"

definition AclRegexDomainRule_check ::
  "('t, ('r, 'a) RegexSetMatch) Trie \<Rightarrow> 'r RegexSet \<Rightarrow> ('t, 'r, 'a) AclRegexDomainRule \<Rightarrow> bytes
   \<Rightarrow> (bool \<times> 'a, 'e) res" where
  "AclRegexDomainRule_check T R self domain =
     res_bind (check_prefix_regex T R self domain) (\<lambda>r.
     case r of
       Some action \<Rightarrow> Ok (True, action)
     | None \<Rightarrow>
         (case RegexSetMatch_check R (RD_full_match_action_map self) domain of
            Some action \<Rightarrow> Ok (True, action)
          | None \<Rightarrow> Ok (False, RD_missed_action self)))"

section \<open>Rules on user agents\<close>

record 'a AclUserAgentRule =
  UA_inner :: "(bytes \<times> 'a) list"
  UA_missed_action :: 'a

definition AclUserAgentRule_new :: "'a \<Rightarrow> 'a AclUserAgentRule" where
  "AclUserAgentRule_new missed_action = \<lparr>UA_inner = [], UA_missed_action = missed_action\<rparr>"

definition AclUserAgentRule_add_ua_name :: "bytes \<Rightarrow> 'a \<Rightarrow> 'a AclUserAgentRule \<Rightarrow> 'a AclUserAgentRule" where
  "AclUserAgentRule_add_ua_name ua action self =
     self\<lparr>UA_inner := btree_put (to_ascii_lowercase ua) action (UA_inner self)\<rparr>"

definition AclUserAgentRule_set_missed_action :: "'a \<Rightarrow> 'a AclUserAgentRule \<Rightarrow> 'a AclUserAgentRule" where
  "AclUserAgentRule_set_missed_action action self = self\<lparr>UA_missed_action := action\<rparr>"

text \<open>
  The \<open>while\<close> loop for one name. \<open>None\<close> is a loop that does not end. Both indices are in range:
  \<open>find\<close> yields a position inside the slice.
\<close>

partial_function (option) ua_search :: "bytes \<Rightarrow> bytes \<Rightarrow> nat \<Rightarrow> (bool, 'e) res option" where
  "ua_search value name offset =
     (if offset < length value
      then
        (case str_from value offset of
           Ok vs \<Rightarrow>
             (case str_find name vs of
                Some pos \<Rightarrow>
                  (let pos_pre = offset + pos; pos_next = offset + pos + length name in
                   if pos_pre \<noteq> 0 \<and> value ! (pos_pre - 1) \<noteq> 0x20 \<and> value ! (pos_pre - 1) \<noteq> 0x3B
                   then ua_search value name (offset + (length name + 1))
                   else if pos_next < length value \<and> value ! pos_next \<noteq> 0x2F
                     \<and> value ! pos_next \<noteq> 0x20 \<and> value ! pos_next \<noteq> 0x3B
                   then ua_search value name (offset + length name)
                   else Some (Ok True))
              | None \<Rightarrow> Some (Ok False))
         | Err e \<Rightarrow> Some (Err e)
         | Panic \<Rightarrow> Some Panic)
      else Some (Ok False))"

primrec ua_check_names ::
  "bytes \<Rightarrow> 'a \<Rightarrow> (bytes \<times> 'a) list \<Rightarrow> (bool \<times> 'a, 'e) res option" where
  "ua_check_names value missed_action [] = Some (Ok (False, missed_action))"
| "ua_check_names value missed_action (e # es) =
     (case ua_search value (fst e) 0 of
        Some (Ok found) \<Rightarrow>
          if found then Some (Ok (True, snd e)) else ua_check_names value missed_action es
      | Some (Err err) \<Rightarrow> Some (Err err)
      | Some Panic \<Rightarrow> Some Panic
      | None \<Rightarrow> None)"

definition AclUserAgentRule_check :: "'a AclUserAgentRule \<Rightarrow> bytes \<Rightarrow> (bool \<times> 'a, 'e) res option" where
  "AclUserAgentRule_check self ua_value =
     ua_check_names (to_ascii_lowercase ua_value) (UA_missed_action self) (UA_inner self)"

section \<open>The destination host rule set\<close>

record ('n, 'a) AclDstHostRuleSetBuilder =
  DHB_exact :: "'a AclExactHostRule option"
  DHB_child :: "'a AclChildDomainRuleBuilder option"
  DHB_regex :: "'a AclRegexDomainRuleBuilder option"
  DHB_subnet :: "('n, 'a) AclNetworkRuleBuilder option"

record ('ct, 'rt, 'r, 'nt, 'a) AclDstHostRuleSet =
  DH_exact :: "'a AclExactHostRule option"
  DH_child :: "('ct, 'a) AclChildDomainRule option"
  DH_regex :: "('rt, 'r, 'a) AclRegexDomainRule option"
  DH_subnet :: "('nt, 'a) AclNetworkRule option"
  DH_missed_action :: 'a

text \<open>The crates a rule set is built with.\<close>

record ('ct, 'rt, 'r, 'nt, 'n, 'a) acl_crates =
  child_trie :: "('ct, 'a) Trie"
  regex_trie :: "('rt, ('r, 'a) RegexSetMatch) Trie"
  regex_sets :: "'r RegexSet"
  net_tables :: "('nt, 'n, 'a) NetTable"

primrec map_option_res :: "('b \<Rightarrow> ('c, 'e) res) \<Rightarrow> 'b option \<Rightarrow> ('c option, 'e) res" where
  "map_option_res f None = Ok None"
| "map_option_res f (Some x) = res_bind (f x) (\<lambda>y. Ok (Some y))"

definition AclDstHostRuleSetBuilder_default :: "('n, 'a) AclDstHostRuleSetBuilder" where
  "AclDstHostRuleSetBuilder_default =
     \<lparr>DHB_exact = None, DHB_child = None, DHB_regex = None, DHB_subnet = None\<rparr>"

definition AclDstHostRuleSetBuilder_build_with_missed_action ::
  "('ct, 'rt, 'r, 'nt, 'n, 'a) acl_crates \<Rightarrow> ('n, 'a::linorder) AclDstHostRuleSetBuilder \<Rightarrow> 'a
   \<Rightarrow> (('ct, 'rt, 'r, 'nt, 'a) AclDstHostRuleSet, 'e) res" where
  "AclDstHostRuleSetBuilder_build_with_missed_action C self missed_action =
     res_bind (map_option_res (AclRegexDomainRuleBuilder_build (regex_trie C) (regex_sets C))
                 (DHB_regex self)) (\<lambda>regex.
     Ok \<lparr>DH_exact = DHB_exact self,
         DH_child = map_option (AclChildDomainRuleBuilder_build (child_trie C)) (DHB_child self),
         DH_regex = regex,
         DH_subnet = map_option (AclNetworkRuleBuilder_build (net_tables C)) (DHB_subnet self),
         DH_missed_action = missed_action\<rparr>)"

definition restrict_with :: "('b \<Rightarrow> AclAction) \<Rightarrow> 'b option \<Rightarrow> AclAction \<Rightarrow> AclAction" where
  "restrict_with missed x action =
     (case x of None \<Rightarrow> action | Some b \<Rightarrow> AclAction_restrict action (missed b))"

definition AclDstHostRuleSetBuilder_build ::
  "('ct, 'rt, 'r, 'nt, 'n, AclAction) acl_crates \<Rightarrow> ('n, AclAction) AclDstHostRuleSetBuilder
   \<Rightarrow> (('ct, 'rt, 'r, 'nt, AclAction) AclDstHostRuleSet, 'e) res" where
  "AclDstHostRuleSetBuilder_build C self =
     (let missed_action = Permit;
          missed_action = restrict_with EH_missed_action (DHB_exact self) missed_action;
          exact_rule = DHB_exact self;
          missed_action = restrict_with RTB_missed_action (DHB_child self) missed_action;
          child_rule = map_option (AclChildDomainRuleBuilder_build (child_trie C)) (DHB_child self);
          missed_action = restrict_with RDB_missed_action (DHB_regex self) missed_action
      in res_bind (map_option_res (AclRegexDomainRuleBuilder_build (regex_trie C) (regex_sets C))
                     (DHB_regex self)) (\<lambda>regex_rule.
         let missed_action = restrict_with NB_missed_action (DHB_subnet self) missed_action;
             subnet_rule = map_option (AclNetworkRuleBuilder_build (net_tables C)) (DHB_subnet self)
         in Ok \<lparr>DH_exact = exact_rule, DH_child = child_rule, DH_regex = regex_rule,
                DH_subnet = subnet_rule, DH_missed_action = missed_action\<rparr>))"

text \<open>\<open>if let Some(rule) = ... { let (found, action) = ...; if found { return (true, action); } }\<close>.\<close>

definition if_found ::
  "('b \<Rightarrow> (bool \<times> 'a, 'e) res) \<Rightarrow> 'b option \<Rightarrow> (bool \<times> 'a, 'e) res \<Rightarrow> (bool \<times> 'a, 'e) res" where
  "if_found check rule rest =
     (case rule of
        None \<Rightarrow> rest
      | Some b \<Rightarrow> res_bind (check b) (\<lambda>(found, action). if found then Ok (True, action) else rest))"

fun AclDstHostRuleSet_check ::
  "('ct, 'rt, 'r, 'nt, 'n, 'a) acl_crates \<Rightarrow> ('ct, 'rt, 'r, 'nt, 'a) AclDstHostRuleSet \<Rightarrow> Host
   \<Rightarrow> (bool \<times> 'a, 'e) res" where
  "AclDstHostRuleSet_check C self (Ip ip) =
     if_found (\<lambda>rule. Ok (AclExactHostRule_check_ip rule ip)) (DH_exact self)
       (if_found (\<lambda>rule. Ok (AclNetworkRule_check (net_tables C) rule ip)) (DH_subnet self)
          (Ok (False, DH_missed_action self)))"
| "AclDstHostRuleSet_check C self (Domain domain) =
     if_found (\<lambda>rule. Ok (AclExactHostRule_check_domain rule domain)) (DH_exact self)
       (if_found (\<lambda>rule. Ok (AclChildDomainRule_check (child_trie C) rule domain)) (DH_child self)
          (if_found (\<lambda>rule. AclRegexDomainRule_check (regex_trie C) (regex_sets C) rule domain)
             (DH_regex self)
             (Ok (False, DH_missed_action self))))"

end
