(* ===== verification/Acl_Rules.thy ===== *)
theory Acl_Rules
  imports Acl
begin

text \<open>
  What the single kinds of access control rules decide: the labels of a domain and the trie that is
  searched with them, networks, and sets of regular expressions. The contracts of the crates behind
  them are locales, each with an interpretation on an executable instance.
\<close>

section \<open>Labels of a domain\<close>

definition domain_labels :: "bytes \<Rightarrow> bytes list" where
  "domain_labels domain = split_dot (strip_leading_dot domain)"

definition dot_free :: "bytes list \<Rightarrow> bool" where
  "dot_free ls \<longleftrightarrow> (\<forall>l\<in>set ls. 0x2E \<notin> set l)"

text \<open>Labels, each closed by a dot: a prefix code.\<close>

definition dotted :: "bytes list \<Rightarrow> bytes" where
  "dotted ls = concat (map (\<lambda>l. l @ [0x2E]) ls)"

lemma dotted_simps [simp]:
  "dotted [] = []"
  "dotted (l # ls) = l @ 0x2E # dotted ls"
  "dotted (ls @ ms) = dotted ls @ dotted ms"
  by (simp_all add: dotted_def)

lemma dot_free_simps [simp]:
  "dot_free []"
  "dot_free (l # ls) \<longleftrightarrow> 0x2E \<notin> set l \<and> dot_free ls"
  "dot_free (rev ls) \<longleftrightarrow> dot_free ls"
  "dot_free (ls @ ms) \<longleftrightarrow> dot_free ls \<and> dot_free ms"
  by (auto simp: dot_free_def)

lemma split_dot_not_Nil [simp]: "split_dot s \<noteq> []"
  by (induction s) (auto split: list.splits)

lemma split_dot_dot_free [simp]: "dot_free (split_dot s)"
  by (induction s) (auto split: list.splits)

lemma join_split_dot [simp]: "join_dot (split_dot s) = s"
proof (induction s)
  case (Cons b s)
  then show ?case
    by (cases "split_dot s"; cases "tl (split_dot s)") auto
qed simp

lemma split_dot_label [simp]: "0x2E \<notin> set l \<Longrightarrow> split_dot l = [l]"
  by (induction l) auto

lemma split_dot_append [simp]: "0x2E \<notin> set l \<Longrightarrow> split_dot (l @ 0x2E # s) = l # split_dot s"
  by (induction l) auto

lemma split_join_dot: "dot_free ls \<Longrightarrow> ls \<noteq> [] \<Longrightarrow> split_dot (join_dot ls) = ls"
  by (induction ls rule: join_dot.induct) auto

lemma join_dot_dotted: "ls \<noteq> [] \<Longrightarrow> join_dot ls @ [0x2E] = dotted ls"
  by (induction ls rule: join_dot.induct) auto

lemma length_dotted: "ls \<noteq> [] \<Longrightarrow> length (dotted ls) = Suc (length (join_dot ls))"
  by (simp flip: join_dot_dotted)

lemma reverse_idna_domain_dotted: "reverse_idna_domain d = dotted (rev (domain_labels d))"
  by (simp add: reverse_idna_domain_def domain_labels_def join_dot_dotted)

lemma domain_labels_simps [simp]: "domain_labels d \<noteq> []" "dot_free (domain_labels d)"
  by (simp_all add: domain_labels_def)

lemma label_cut:
  fixes l m s t :: bytes
  assumes "0x2E \<notin> set l" and "0x2E \<notin> set m" and "prefix (l @ 0x2E # s) (m @ 0x2E # t)"
  shows "l = m \<and> prefix s t"
proof -
  obtain u where "l @ 0x2E # (s @ u) = m @ 0x2E # t"
    using assms(3) by (auto simp: prefix_def)
  then have "l # split_dot (s @ u) = m # split_dot t \<and> l @ 0x2E # (s @ u) = m @ 0x2E # t"
    using split_dot_append [OF assms(1), of "s @ u"] split_dot_append [OF assms(2), of t] by simp
  then show ?thesis by auto
qed

lemma prefix_dotted:
  "dot_free ls \<Longrightarrow> dot_free ms \<Longrightarrow> prefix (dotted ls) (dotted ms) \<longleftrightarrow> prefix ls ms"
proof (induction ls arbitrary: ms)
  case (Cons l ls)
  show ?case
  proof (cases ms)
    case (Cons m ms')
    then show ?thesis
      using Cons.IH [of ms'] Cons.prems label_cut [of l m "dotted ls" "dotted ms'"] by auto
  qed simp
qed simp

lemma dotted_inject: "dot_free ls \<Longrightarrow> dot_free ms \<Longrightarrow> dotted ls = dotted ms \<longleftrightarrow> ls = ms"
  using prefix_dotted [of ls ms] prefix_dotted [of ms ls] by (metis prefix_order.eq_iff)

section \<open>The longest stored prefix or suffix\<close>

definition closest_prefix :: "('a list \<Rightarrow> bool) \<Rightarrow> 'a list \<Rightarrow> 'a list option" where
  "closest_prefix P s = List.find P (rev (prefixes s))"

definition closest_suffix :: "('a list \<Rightarrow> bool) \<Rightarrow> 'a list \<Rightarrow> 'a list option" where
  "closest_suffix P s = List.find P (rev (suffixes s))"

lemma find_append: "List.find P (xs @ ys) = (case List.find P xs of None \<Rightarrow> List.find P ys | r \<Rightarrow> r)"
  by (induction xs) auto

lemma closest_suffix_Cons:
  "closest_suffix P (x # xs) = (if P (x # xs) then Some (x # xs) else closest_suffix P xs)"
  by (simp add: closest_suffix_def)

lemma closest_suffix_Nil: "closest_suffix P [] = (if P [] then Some [] else None)"
  by (simp add: closest_suffix_def)

lemma closest_prefix_rev: "closest_prefix P (rev xs) = map_option rev (closest_suffix (P \<circ> rev) xs)"
proof (induction xs)
  case (Cons x xs)
  then show ?case
    by (simp add: closest_suffix_Cons closest_prefix_def prefixes_snoc)
qed (simp add: closest_suffix_Nil closest_prefix_def)

lemma closest_prefix_None: "closest_prefix P s = None \<longleftrightarrow> (\<forall>k. prefix k s \<longrightarrow> \<not> P k)"
  by (auto simp: closest_prefix_def find_None_iff)

lemma closest_prefix_Some:
  "closest_prefix P s = Some k \<longleftrightarrow> prefix k s \<and> P k \<and> (\<forall>k'. prefix k' s \<and> P k' \<longrightarrow> prefix k' k)"
proof (induction s rule: rev_induct)
  case (snoc x s)
  have step: "closest_prefix P (s @ [x]) = (if P (s @ [x]) then Some (s @ [x]) else closest_prefix P s)"
    by (simp add: closest_prefix_def prefixes_snoc)
  show ?case
  proof (cases "P (s @ [x])")
    case True
    then have "(s @ [x] = k) \<longleftrightarrow> prefix k (s @ [x]) \<and> P k \<and> (\<forall>k'. prefix k' (s @ [x]) \<and> P k' \<longrightarrow> prefix k' k)"
      by (metis prefix_order.antisym prefix_order.refl)
    then show ?thesis using True by (simp add: step)
  next
    case False
    then have "(prefix k (s @ [x]) \<and> P k) = (prefix k s \<and> P k)" for k
      by (auto simp: prefix_snoc)
    then show ?thesis using snoc False unfolding step by metis
  qed
qed (auto simp: closest_prefix_def)

text \<open>On keys that are codes, the closest stored prefix of a code is the code of the closest one.\<close>

lemma closest_prefix_dotted:
  assumes "\<And>k. P k \<Longrightarrow> \<exists>ls. dot_free ls \<and> k = dotted ls" and "dot_free ms"
  shows "closest_prefix P (dotted ms) = map_option dotted (closest_prefix (P \<circ> dotted) ms)"
proof (cases "closest_prefix (P \<circ> dotted) ms")
  case None
  then have "\<not> P k" if "prefix k (dotted ms)" for k
    using that assms prefix_dotted [OF _ assms(2)] unfolding closest_prefix_None by force
  then have "closest_prefix P (dotted ms) = None" by (simp add: closest_prefix_None)
  then show ?thesis using None by simp
next
  case (Some ls)
  then have ls: "prefix ls ms" "P (dotted ls)" "\<And>ls'. prefix ls' ms \<Longrightarrow> P (dotted ls') \<Longrightarrow> prefix ls' ls"
    by (auto simp: closest_prefix_Some)
  have "prefix (dotted ls) (dotted ms)" using ls(1) by (auto simp: prefix_def)
  moreover have "prefix k (dotted ls)" if k: "prefix k (dotted ms)" "P k" for k
  proof -
    obtain ks where ks: "dot_free ks" "k = dotted ks" using assms(1) k(2) by blast
    then have "prefix ks ms" using k(1) assms(2) by (simp add: prefix_dotted)
    then have "prefix ks ls" using ls(3) k(2) ks(2) by simp
    then show ?thesis using ks(2) by (auto simp: prefix_def)
  qed
  ultimately have "closest_prefix P (dotted ms) = Some (dotted ls)"
    using ls(2) by (simp add: closest_prefix_Some)
  then show ?thesis using Some by simp
qed

lemma closest_prefix_cong: "(\<And>k. prefix k s \<Longrightarrow> P k = Q k) \<Longrightarrow> closest_prefix P s = closest_prefix Q s"
  unfolding closest_prefix_def by (rule find_cong) auto

section \<open>The radix trie and the rules on child domains\<close>

lemma content_of_fold:
  assumes "\<And>k v t. f (ins k v t) = (f t)(k \<mapsto> v)" and "distinct (map fst es)"
  shows "f (fold (\<lambda>(k, v). ins k v) es t) = f t ++ map_of es"
  using assms(2)
proof (induction es arbitrary: t)
  case (Cons e es)
  obtain k v where e: "e = (k, v)" by (cases e)
  have "f (fold (\<lambda>(k, v). ins k v) (e # es) t) = (f t)(k \<mapsto> v) ++ map_of es"
    using Cons by (simp add: e assms(1))
  also have "\<dots> = f t ++ map_of (e # es)"
    using Cons.prems map_add_upd_left [of k "map_of es" "f t" v]
    by (simp add: e dom_map_of_conv_image_fst)
  finally show ?case .
qed simp

text \<open>
  The documented contract of \<open>radix_trie\<close>, for a trie with the given contents: the ancestor of a key
  is the node of the longest stored prefix that has a value.
\<close>

locale radix_trie =
  fixes T :: "('t, 'v) Trie" and content :: "'t \<Rightarrow> bytes \<rightharpoonup> 'v"
  assumes content_new: "content (Trie_new T) = Map.empty"
    and content_insert: "content (Trie_insert T k v t) = (content t)(k \<mapsto> v)"
    and is_empty_content: "Trie_is_empty T t \<longleftrightarrow> content t = Map.empty"
    and get_ancestor_content:
      "Trie_get_ancestor T t s =
         map_option (\<lambda>k. (k, content t k)) (closest_prefix (\<lambda>k. content t k \<noteq> None) s)"
    and get_ancestor_value_content:
      "Trie_get_ancestor_value T t s =
         Option.bind (closest_prefix (\<lambda>k. content t k \<noteq> None) s) (content t)"
begin

lemma content_build:
  "distinct (map fst (RTB_inner b)) \<Longrightarrow>
   content (RT_inner (AclRadixTrieRuleBuilder_build T b)) = map_of (RTB_inner b)"
  using content_of_fold [where f = content, OF content_insert, of "RTB_inner b" "Trie_new T"]
  by (simp add: AclRadixTrieRuleBuilder_build_def content_new)

end

text \<open>A trie as the map of its contents.\<close>

definition map_trie :: "(bytes \<rightharpoonup> 'v, 'v) Trie" where
  "map_trie =
     \<lparr>Trie_new = Map.empty,
      Trie_insert = (\<lambda>k v t. t(k \<mapsto> v)),
      Trie_is_empty = (\<lambda>t. t = Map.empty),
      Trie_get_ancestor = (\<lambda>t s. map_option (\<lambda>k. (k, t k)) (closest_prefix (\<lambda>k. t k \<noteq> None) s)),
      Trie_get_ancestor_value = (\<lambda>t s. Option.bind (closest_prefix (\<lambda>k. t k \<noteq> None) s) t)\<rparr>"

interpretation map_trie: radix_trie map_trie "\<lambda>t. t"
  by unfold_locales (simp_all add: map_trie_def)

text \<open>The rules of a list of entries, a later entry for a key replacing an earlier one.\<close>

definition last_of :: "('k \<times> 'v) list \<Rightarrow> 'k \<rightharpoonup> 'v" where
  "last_of es = map_of (rev es)"

lemma last_of_simps [simp]:
  "last_of [] = Map.empty"
  "last_of (es @ [(k, v)]) = (last_of es)(k \<mapsto> v)"
  by (simp_all add: last_of_def)

lemma last_of_dom: "last_of es k \<noteq> None \<longleftrightarrow> k \<in> fst ` set es"
  by (auto simp: last_of_def map_of_eq_None_iff)

lemma map_of_update_fold:
  "map_of (fold (\<lambda>(k, v). AList.update (f k) v) es m) = map_of m ++ last_of (map (\<lambda>(k, v). (f k, v)) es)"
  by (induction es rule: rev_induct) (auto simp: update_conv' map_add_upd)

lemma distinct_update_fold:
  "distinct (map fst m) \<Longrightarrow> distinct (map fst (fold (\<lambda>(k, v). AList.update (f k) v) es m))"
  by (induction es rule: rev_induct) (auto simp: distinct_update)

lemma fold_update_dom:
  "fst ` set (fold (\<lambda>(k, v). AList.update (f k) v) es m) = fst ` set m \<union> f ` fst ` set es"
proof (induction es arbitrary: m)
  case (Cons e es)
  then show ?case
    using dom_update [of "f (fst e)" "snd e" m] by (cases e) (simp add: Un_ac insert_is_Un [of "f (fst e)"])
qed simp

definition child_domain_builder :: "(bytes \<times> 'a) list \<Rightarrow> 'a \<Rightarrow> 'a AclChildDomainRuleBuilder" where
  "child_domain_builder rules missed =
     fold (\<lambda>(d, a). AclChildDomainRuleBuilder_add_node d a) rules (AclChildDomainRuleBuilder_new missed)"

text \<open>
  The reference: among the domains of the rules whose labels end the labels of the host, the one with
  the most labels decides.
\<close>

definition child_domain_decide :: "(bytes \<times> 'a) list \<Rightarrow> bytes \<Rightarrow> 'a option" where
  "child_domain_decide rules host =
     (let by_labels = last_of (map (\<lambda>(d, a). (domain_labels d, a)) rules)
      in Option.bind (closest_suffix (\<lambda>ls. by_labels ls \<noteq> None) (domain_labels host)) by_labels)"

definition decision :: "'a option \<Rightarrow> 'a \<Rightarrow> bool \<times> 'a" where
  "decision r missed = (case r of Some a \<Rightarrow> (True, a) | None \<Rightarrow> (False, missed))"

lemma child_domain_builder_simps:
  "RTB_inner (child_domain_builder rules missed)
     = fold (\<lambda>(d, a). AList.update (reverse_idna_domain d) a) rules []"
  "RTB_missed_action (child_domain_builder rules missed) = missed"
  by (induction rules rule: rev_induct)
    (auto simp: child_domain_builder_def AclChildDomainRuleBuilder_new_def
      AclRadixTrieRuleBuilder_new_def AclChildDomainRuleBuilder_add_node_def
      AclRadixTrieRuleBuilder_add_node_def)

text \<open>Keys of reversed domains, looked up by their labels.\<close>

lemma last_of_reversed:
  assumes "dot_free ls"
  shows "last_of (map (\<lambda>(d, a). (reverse_idna_domain d, a)) rules) (dotted ls)
       = last_of (map (\<lambda>(d, a). (domain_labels d, a)) rules) (rev ls)"
proof (induction rules rule: rev_induct)
  case (snoc r rules)
  have "dotted ls = reverse_idna_domain d \<longleftrightarrow> rev ls = domain_labels d" for d
    using assms by (simp add: reverse_idna_domain_dotted dotted_inject rev_swap)
  with snoc show ?case by (auto split: prod.splits)
qed simp

lemma dot_free_prefix: "prefix ks ls \<Longrightarrow> dot_free ls \<Longrightarrow> dot_free ks"
  by (auto simp: prefix_def)

lemma closest_reversed:
  assumes "\<And>k. m k \<noteq> None \<Longrightarrow> \<exists>d. k = reverse_idna_domain d"
    and "\<And>ls. dot_free ls \<Longrightarrow> m (dotted ls) = m' (rev ls)"
  shows "closest_prefix (\<lambda>k. m k \<noteq> None) (reverse_idna_domain host)
       = map_option (\<lambda>ls. dotted (rev ls)) (closest_suffix (\<lambda>ls. m' ls \<noteq> None) (domain_labels host))"
proof -
  have "closest_prefix (\<lambda>k. m k \<noteq> None) (reverse_idna_domain host)
      = map_option dotted (closest_prefix ((\<lambda>k. m k \<noteq> None) \<circ> dotted) (rev (domain_labels host)))"
    unfolding reverse_idna_domain_dotted
    by (rule closest_prefix_dotted)
      (use assms(1) in \<open>force simp: reverse_idna_domain_dotted\<close>, simp)
  also have "closest_prefix ((\<lambda>k. m k \<noteq> None) \<circ> dotted) (rev (domain_labels host))
      = closest_prefix (\<lambda>ls. m' (rev ls) \<noteq> None) (rev (domain_labels host))"
    by (intro closest_prefix_cong) (simp add: assms(2) dot_free_prefix [of _ "rev (domain_labels host)"])
  finally show ?thesis by (simp add: closest_prefix_rev option.map_comp comp_def)
qed

lemma closest_suffix_dot_free: "closest_suffix P (domain_labels d) = Some ls \<Longrightarrow> dot_free ls"
  unfolding closest_suffix_def find_Some_iff
  by (metis domain_labels_simps(2) dot_free_simps(4) in_set_conv_nth set_rev set_suffixes_eq suffix_def
      mem_Collect_eq length_rev)

lemma closest_suffix_holds: "closest_suffix P s = Some ls \<Longrightarrow> P ls \<and> suffix ls s"
  unfolding closest_suffix_def find_Some_iff
  by (metis in_set_conv_nth set_rev set_suffixes_eq mem_Collect_eq length_rev)

context radix_trie
begin

lemma child_domain_check:
  "AclChildDomainRule_check T (AclChildDomainRuleBuilder_build T (child_domain_builder rules missed)) host
   = decision (child_domain_decide rules host) missed"
proof -
  define b where "b = child_domain_builder rules missed"
  define m where "m = last_of (map (\<lambda>(d, a). (reverse_idna_domain d, a)) rules)"
  define m' where "m' = last_of (map (\<lambda>(d, a). (domain_labels d, a)) rules)"
  define t where "t = RT_inner (AclRadixTrieRuleBuilder_build T b)"
  have "content t = m"
    unfolding t_def m_def b_def
    by (simp add: content_build distinct_update_fold map_of_update_fold child_domain_builder_simps)
  moreover have "closest_prefix (\<lambda>k. m k \<noteq> None) (reverse_idna_domain host)
      = map_option (\<lambda>ls. dotted (rev ls)) (closest_suffix (\<lambda>ls. m' ls \<noteq> None) (domain_labels host))"
    by (rule closest_reversed)
      (auto simp: m_def m'_def last_of_dom last_of_reversed simp del: not_None_eq)
  moreover have "m (dotted (rev ls)) = m' ls"
    if "closest_suffix (\<lambda>ls. m' ls \<noteq> None) (domain_labels host) = Some ls" for ls
    using closest_suffix_dot_free [OF that] by (simp add: m_def m'_def last_of_reversed)
  ultimately have "Trie_get_ancestor_value T t (reverse_idna_domain host) = child_domain_decide rules host"
    unfolding child_domain_decide_def Let_def m'_def [symmetric] get_ancestor_value_content
    by (cases "closest_suffix (\<lambda>ls. m' ls \<noteq> None) (domain_labels host)") auto
  moreover have "RT_missed_action (AclRadixTrieRuleBuilder_build T b) = missed"
    by (simp add: AclRadixTrieRuleBuilder_build_def b_def child_domain_builder_simps)
  ultimately show ?thesis
    by (simp add: AclChildDomainRule_check_def AclChildDomainRuleBuilder_build_def
        AclRadixTrieRule_check_def decision_def t_def b_def split: option.split)
qed

end

section \<open>Networks\<close>

fun ip_width :: "IpAddr \<Rightarrow> nat" where
  "ip_width (V4 a) = 32"
| "ip_width (V6 a) = 128"

fun ip_value :: "IpAddr \<Rightarrow> nat" where
  "ip_value (V4 a) = unat a"
| "ip_value (V6 a) = unat a"

text \<open>An address and a prefix length, the bits after the prefix being zero.\<close>

definition network_ok :: "IpAddr \<times> nat \<Rightarrow> bool" where
  "network_ok n \<longleftrightarrow> snd n \<le> ip_width (fst n) \<and> 2 ^ (ip_width (fst n) - snd n) dvd ip_value (fst n)"

definition in_network :: "IpAddr \<Rightarrow> IpAddr \<times> nat \<Rightarrow> bool" where
  "in_network ip n \<longleftrightarrow>
     ip_width ip = ip_width (fst n)
     \<and> ip_value ip div 2 ^ (ip_width ip - snd n) = ip_value (fst n) div 2 ^ (ip_width ip - snd n)"

lemma ip_eqI: "ip_width a = ip_width b \<Longrightarrow> ip_value a = ip_value b \<Longrightarrow> a = b"
  by (cases a; cases b) (auto simp: word_unat_eq_iff)

lemma same_network:
  assumes "network_ok m" "network_ok n" "in_network ip m" "in_network ip n" "snd m = snd n"
  shows "m = n"
proof -
  define k :: nat where "k = 2 ^ (ip_width ip - snd n)"
  have "ip_value (fst m) div k = ip_value (fst n) div k" "k dvd ip_value (fst m)" "k dvd ip_value (fst n)"
    using assms by (auto simp: in_network_def network_ok_def k_def)
  then have "ip_value (fst m) = ip_value (fst n)" by (metis dvd_div_mult_self)
  moreover have "ip_width (fst m) = ip_width (fst n)" using assms(3,4) by (simp add: in_network_def)
  ultimately show ?thesis using assms(5) ip_eqI by (metis prod_eqI)
qed

text \<open>The entry of the longest network that holds an address.\<close>

primrec longest_network :: "('n \<Rightarrow> IpAddr \<times> nat) \<Rightarrow> IpAddr \<Rightarrow> ('n \<times> 'a) list \<Rightarrow> ('n \<times> 'a) option" where
  "longest_network view ip [] = None"
| "longest_network view ip (e # es) =
     (if in_network ip (view (fst e))
      then (case longest_network view ip es of
              Some e' \<Rightarrow> if snd (view (fst e)) < snd (view (fst e')) then Some e' else Some e
            | None \<Rightarrow> Some e)
      else longest_network view ip es)"

lemma longest_network_None:
  "longest_network view ip es = None \<longleftrightarrow> (\<forall>e\<in>set es. \<not> in_network ip (view (fst e)))"
  by (induction es) (auto split: option.splits)

lemma longest_network_Some:
  "longest_network view ip es = Some e \<Longrightarrow>
   e \<in> set es \<and> in_network ip (view (fst e))
   \<and> (\<forall>e'\<in>set es. in_network ip (view (fst e')) \<longrightarrow> snd (view (fst e')) \<le> snd (view (fst e)))"
proof (induction es arbitrary: e)
  case (Cons d ds)
  then show ?case
    using longest_network_None [of view ip ds] by (cases "longest_network view ip ds") (force split: if_splits)+
qed simp

text \<open>
  The documented contract of \<open>ip_network\<close> and \<open>ip_network_table\<close>. \<open>view\<close> reads the address and the
  prefix length of a network.
\<close>

locale network_table =
  fixes N :: "('t, 'n, 'a) NetTable" and view :: "'n \<Rightarrow> IpAddr \<times> nat" and valid :: "'n \<Rightarrow> bool"
    and content :: "'t \<Rightarrow> 'n \<rightharpoonup> 'a"
  assumes new_ok: "network_ok (addr, l) \<Longrightarrow> \<exists>n. IpNetwork_new N addr l = Some n \<and> valid n \<and> view n = (addr, l)"
    and view_ok: "valid n \<Longrightarrow> network_ok (view n)"
    and view_inj: "valid m \<Longrightarrow> valid n \<Longrightarrow> view m = view n \<Longrightarrow> m = n"
    and content_new: "content (IpNetworkTable_new N) = Map.empty"
    and content_insert: "content (IpNetworkTable_insert N n a t) = (content t)(n \<mapsto> a)"
    and longest_match_Some: "IpNetworkTable_longest_match N t ip = Some (n, a) \<Longrightarrow>
      content t n = Some a \<and> in_network ip (view n)
      \<and> (\<forall>m. content t m \<noteq> None \<and> in_network ip (view m) \<longrightarrow> snd (view m) \<le> snd (view n))"
    and longest_match_None: "IpNetworkTable_longest_match N t ip = None \<Longrightarrow>
      \<forall>m. content t m \<noteq> None \<longrightarrow> \<not> in_network ip (view m)"
begin

lemma network_check:
  assumes "distinct (map fst (NB_inner b))" and "\<And>n. n \<in> fst ` set (NB_inner b) \<Longrightarrow> valid n"
  shows "AclNetworkRule_check N (AclNetworkRuleBuilder_build N b) ip
       = decision (map_option snd (longest_network view ip (NB_inner b))) (NB_missed_action b)"
proof -
  define t where "t = NR_inner (AclNetworkRuleBuilder_build N b)"
  have t: "content t = map_of (NB_inner b)"
    using content_of_fold [where f = content, OF content_insert assms(1), of "IpNetworkTable_new N"]
    by (simp add: t_def AclNetworkRuleBuilder_build_def content_new)
  have keys: "content t m \<noteq> None \<longleftrightarrow> m \<in> fst ` set (NB_inner b)" for m
    by (auto simp: t map_of_eq_None_iff)
  have "map_option snd (IpNetworkTable_longest_match N t ip)
      = map_option snd (longest_network view ip (NB_inner b))"
  proof (cases "longest_network view ip (NB_inner b)")
    case None
    then show ?thesis
      using longest_match_Some [of t ip] keys
      by (cases "IpNetworkTable_longest_match N t ip") (force simp: longest_network_None)+
  next
    case (Some e)
    note e = longest_network_Some [OF Some]
    then have "\<not> IpNetworkTable_longest_match N t ip = None"
      using longest_match_None [of t ip] keys by blast
    then obtain n a where na: "IpNetworkTable_longest_match N t ip = Some (n, a)" by auto
    note l = longest_match_Some [OF na]
    then have n: "n \<in> fst ` set (NB_inner b)" using keys by (metis option.distinct(1))
    have "snd (view n) = snd (view (fst e))"
      using e l n keys by (force intro!: le_antisym)
    then have "view n = view (fst e)"
      using e l n assms(2) view_ok by (intro same_network [of _ _ ip]) auto
    then have "n = fst e" using e n assms(2) view_inj by blast
    then have "a = snd e"
      using e l t assms(1) by (metis map_of_is_SomeI option.inject prod.collapse)
    then show ?thesis using na Some by simp
  qed
  then show ?thesis
    by (cases "longest_network view ip (NB_inner b)")
      (auto simp: AclNetworkRule_check_def t_def decision_def AclNetworkRuleBuilder_build_def)
qed

end

lemma clearjunk_key: "map_of t m \<noteq> None \<Longrightarrow> m \<in> fst ` set (AList.clearjunk t)"
  using map_of_eq_None_iff [of "AList.clearjunk t" m] by (auto simp: map_of_clearjunk)

text \<open>A table as the list of its entries, over pairs of an address and a length.\<close>

definition list_net_table :: "(((IpAddr \<times> nat) \<times> 'a) list, IpAddr \<times> nat, 'a) NetTable" where
  "list_net_table =
     \<lparr>IpNetwork_new = (\<lambda>a l. if network_ok (a, l) then Some (a, l) else None),
      IpNetworkTable_new = [],
      IpNetworkTable_insert = AList.update,
      IpNetworkTable_longest_match =
        (\<lambda>t ip. longest_network (\<lambda>n. n) ip (AList.clearjunk t))\<rparr>"

lemma list_longest_match_Some:
  assumes "longest_network (\<lambda>n. n) ip (AList.clearjunk t) = Some (n, a)"
  shows "map_of t n = Some a \<and> in_network ip n
    \<and> (\<forall>m. map_of t m \<noteq> None \<and> in_network ip m \<longrightarrow> snd m \<le> snd n)"
proof (intro conjI allI impI; (elim conjE)?)
  note l = longest_network_Some [OF assms]
  show "map_of t n = Some a"
    using l map_of_is_SomeI [OF distinct_clearjunk, of n a t] by (simp add: map_of_clearjunk)
  show "in_network ip n" using l by simp
  fix m assume k: "map_of t m \<noteq> None" and m: "in_network ip m"
  obtain e where "m = fst e" "e \<in> set (AList.clearjunk t)"
    using clearjunk_key [OF k] by (rule imageE)
  then show "snd m \<le> snd n" using l m by simp
qed

lemma list_longest_match_None:
  assumes "longest_network (\<lambda>n. n) ip (AList.clearjunk t) = None"
  shows "\<forall>m. map_of t m \<noteq> None \<longrightarrow> \<not> in_network ip m"
proof (intro allI impI)
  fix m assume k: "map_of t m \<noteq> None"
  obtain e where "m = fst e" "e \<in> set (AList.clearjunk t)"
    using clearjunk_key [OF k] by (rule imageE)
  then show "\<not> in_network ip m" using assms by (simp add: longest_network_None)
qed

interpretation list_net_table: network_table list_net_table "\<lambda>n. n" network_ok map_of
proof
  fix t :: "((IpAddr \<times> nat) \<times> 'a) list" and ip n a
  assume "IpNetworkTable_longest_match list_net_table t ip = Some (n, a)"
  then show "map_of t n = Some a \<and> in_network ip n
      \<and> (\<forall>m. map_of t m \<noteq> None \<and> in_network ip m \<longrightarrow> snd m \<le> snd n)"
    by (intro list_longest_match_Some) (simp add: list_net_table_def)
next
  fix t :: "((IpAddr \<times> nat) \<times> 'a) list" and ip
  assume "IpNetworkTable_longest_match list_net_table t ip = None"
  then show "\<forall>m. map_of t m \<noteq> None \<longrightarrow> \<not> in_network ip m"
    by (intro list_longest_match_None) (simp add: list_net_table_def)
qed (simp_all add: list_net_table_def update_conv')

subsection \<open>The default networks\<close>

context network_table
begin

lemma new_networks_ok:
  "\<forall>p\<in>set ps. network_ok p \<Longrightarrow>
   \<exists>ns. new_networks N ps = (Ok ns :: ('n list, 'e) res) \<and> map view ns = ps \<and> (\<forall>n\<in>set ns. valid n)"
proof (induction ps)
  case (Cons p ps)
  obtain ns where "new_networks N ps = (Ok ns :: ('n list, 'e) res)" "map view ns = ps" "\<forall>n\<in>set ns. valid n"
    using Cons by auto
  moreover obtain n where "IpNetwork_new N (fst p) (snd p) = Some n" "valid n" "view n = p"
    using new_ok [of "fst p" "snd p"] Cons.prems by auto
  ultimately show ?case by (intro exI [of _ "n # ns"]) simp
qed simp

lemma fold_update_const:
  "set (fold (\<lambda>n. AList.update n c) ns es) \<subseteq> set es \<union> (\<lambda>n. (n, c)) ` set ns"
proof (induction ns arbitrary: es)
  case (Cons n ns)
  have "set (AList.update n c es) \<subseteq> insert (n, c) (set es)" by (induction es) auto
  then show ?case using Cons [of "AList.update n c es"] by auto
qed simp

lemma fold_update_keys:
  "fst ` set (fold (\<lambda>n. AList.update n c) ns es) = fst ` set es \<union> set ns"
  by (induction ns arbitrary: es) (auto simp: dom_update)

lemma fold_update_distinct:
  "distinct (map fst es) \<Longrightarrow> distinct (map fst (fold (\<lambda>n. AList.update n c) ns es))"
  by (induction ns arbitrary: es) (simp_all add: distinct_update)

text \<open>Default networks of one action: an address gets it exactly when one of them holds the address.\<close>

lemma default_networks:
  assumes "\<forall>p\<in>set ps. network_ok p"
  shows "\<exists>ns. new_networks N ps = (Ok ns :: ('n list, 'e) res)
    \<and> (\<forall>ip. AclNetworkRule_check N (AclNetworkRuleBuilder_build N
          \<lparr>NB_inner = fold (\<lambda>n. AList.update n c) ns [], NB_missed_action = m\<rparr>) ip
        = (if \<exists>p\<in>set ps. in_network ip p then (True, c) else (False, m)))"
proof -
  obtain ns where ns: "new_networks N ps = (Ok ns :: ('n list, 'e) res)" "map view ns = ps" "\<forall>n\<in>set ns. valid n"
    using new_networks_ok [OF assms] by blast
  define es where "es = fold (\<lambda>n. AList.update n c) ns []"
  have es: "set es \<subseteq> (\<lambda>n. (n, c)) ` set ns" "fst ` set es = set ns" "distinct (map fst es)"
    using fold_update_const [of c ns "[]"] by (simp_all add: es_def fold_update_keys fold_update_distinct)
  have "AclNetworkRule_check N (AclNetworkRuleBuilder_build N \<lparr>NB_inner = es, NB_missed_action = m\<rparr>) ip
      = (if \<exists>p\<in>set ps. in_network ip p then (True, c) else (False, m))" for ip
  proof -
    have "(\<exists>p\<in>set ps. in_network ip p) \<longleftrightarrow> (\<exists>e\<in>set es. in_network ip (view (fst e)))"
      using es(2) ns(2) by (metis (no_types, lifting) image_iff list.set_map)
    moreover have "snd e = c" if "longest_network view ip es = Some e" for e
      using longest_network_Some [OF that] es(1) by auto
    ultimately show ?thesis
      using network_check [of "\<lparr>NB_inner = es, NB_missed_action = m\<rparr>" ip] es(2,3) ns(3)
        longest_network_None [of view ip es]
      by (cases "longest_network view ip es") (auto simp: decision_def)
  qed
  then show ?thesis using ns(1) unfolding es_def by blast
qed

end

section \<open>Regular expressions\<close>

subsection \<open>Ordered maps\<close>

lemma btree_put_lookup:
  "sorted (map fst m) \<Longrightarrow> map_of (btree_put k v m) = (map_of m)(k \<mapsto> v)"
proof (induction k v m rule: btree_put.induct)
  case (2 k v k' v' m)
  have "map_of m k = None" if "k < k'"
    using that 2(2) by (force simp: map_of_eq_None_iff)
  then show ?case using 2 by (auto simp: fun_eq_iff)
qed (simp add: fun_eq_iff)

lemma btree_put_keys: "set (map fst (btree_put k v m)) = insert k (set (map fst m))"
  by (induction k v m rule: btree_put.induct) auto

lemma btree_put_sorted:
  "sorted_wrt (<) (map fst m) \<Longrightarrow> sorted_wrt (<) (map fst (btree_put k v m))"
proof (induction k v m rule: btree_put.induct)
  case (2 k v k' v' m)
  then show ?case using btree_put_keys [of k v m] by (auto simp: not_less_iff_gr_or_eq)
qed simp

subsection \<open>The strictest matching expression\<close>

text \<open>
  The documented contract of \<open>RegexSet\<close>: a set of valid expressions compiles, and matches where one
  of its expressions does.
\<close>

locale regex_engine =
  fixes R :: "'r RegexSet" and valid :: "bytes \<Rightarrow> bool" and re_match :: "bytes \<Rightarrow> bytes \<Rightarrow> bool"
  assumes compiles: "\<forall>r\<in>set rs. valid r \<Longrightarrow> RegexSet_new R rs \<noteq> None"
    and is_match: "RegexSet_new R rs = Some s \<Longrightarrow> RegexSet_is_match R s text \<longleftrightarrow> (\<exists>r\<in>set rs. re_match r text)"

text \<open>Expressions that are literal texts.\<close>

definition literal_regex :: "bytes list RegexSet" where
  "literal_regex =
     \<lparr>RegexSet_new = Some, RegexSet_is_match = (\<lambda>rs text. \<exists>r\<in>set rs. str_find r text \<noteq> None)\<rparr>"

interpretation literal_regex: regex_engine literal_regex "\<lambda>r. True" "\<lambda>r text. str_find r text \<noteq> None"
  by unfold_locales (auto simp: literal_regex_def)

definition strictest :: "(bytes \<Rightarrow> bytes \<Rightarrow> bool) \<Rightarrow> (bytes \<times> 'a::linorder) list \<Rightarrow> bytes \<Rightarrow> 'a option" where
  "strictest re_match es text =
     (case map snd (filter (\<lambda>e. re_match (fst e) text) es) of
        [] \<Rightarrow> None
      | a # as \<Rightarrow> Some (fold min as a))"

lemma strictest_None: "strictest re_match es text = None \<longleftrightarrow> (\<forall>e\<in>set es. \<not> re_match (fst e) text)"
  unfolding strictest_def
  by (cases "filter (\<lambda>e. re_match (fst e) text) es")
    (auto simp: filter_empty_conv dest: filter_eq_ConsD)

lemma strictest_Some:
  "strictest re_match es text = Some a \<longleftrightarrow>
   (\<exists>e\<in>set es. re_match (fst e) text \<and> snd e = a)
   \<and> (\<forall>e\<in>set es. re_match (fst e) text \<longrightarrow> a \<le> snd e)"
proof -
  define as where "as = map snd (filter (\<lambda>e. re_match (fst e) text) es)"
  have "a \<in> set as \<longleftrightarrow> (\<exists>e\<in>set es. re_match (fst e) text \<and> snd e = a)"
      "(\<forall>b\<in>set as. a \<le> b) \<longleftrightarrow> (\<forall>e\<in>set es. re_match (fst e) text \<longrightarrow> a \<le> snd e)"
    by (auto simp: as_def)
  moreover have "strictest re_match es text = (if as = [] then None else Some (Min (set as)))"
    unfolding strictest_def as_def [symmetric] by (cases as) (simp_all only: Min.set_eq_fold list.case if_True if_False list.distinct refl)
  then have "strictest re_match es text = Some a \<longleftrightarrow> a \<in> set as \<and> (\<forall>b\<in>set as. a \<le> b)"
    by (cases "as = []") (simp_all add: Min_eq_iff)
  ultimately show ?thesis by simp
qed

definition pushed :: "('a \<times> bytes list) list \<Rightarrow> 'a \<Rightarrow> bytes list" where
  "pushed m a = (case map_of m a of Some v \<Rightarrow> v | None \<Rightarrow> [])"

lemma action_map_push_sorted:
  "sorted_wrt (<) (map fst m) \<Longrightarrow> sorted_wrt (<) (map fst (action_map_push e m))"
  by (simp add: action_map_push_def btree_put_sorted)

lemma action_map_push_pushed:
  "sorted_wrt (<) (map fst m) \<Longrightarrow>
   pushed (action_map_push e m) a = (if a = snd e then pushed m a @ [fst e] else pushed m a)"
  by (simp add: action_map_push_def pushed_def btree_put_lookup strict_sorted_iff)

lemma action_map_sorted: "sorted_wrt (<) (map fst (fold action_map_push es []))"
  by (induction es rule: rev_induct) (simp_all add: action_map_push_sorted)

lemma action_map_pushed: "r \<in> set (pushed (fold action_map_push es []) a) \<longleftrightarrow> (r, a) \<in> set es"
proof (induction es rule: rev_induct)
  case (snoc e es)
  then show ?case
    using action_map_push_pushed [OF action_map_sorted [of es], of e a] by (cases e) auto
qed (simp add: pushed_def)

lemma action_map_entry:
  "(\<exists>rs. (a, rs) \<in> set (fold action_map_push es []) \<and> r \<in> set rs) \<longleftrightarrow> (r, a) \<in> set es"
proof -
  define m where "m = fold action_map_push es []"
  have "distinct (map fst m)"
    using action_map_sorted [of es] by (simp add: strict_sorted_iff m_def)
  then have "(\<exists>rs. (a, rs) \<in> set m \<and> r \<in> set rs) \<longleftrightarrow> r \<in> set (pushed m a)"
    by (cases "map_of m a") (auto simp: pushed_def map_of_eq_None_iff map_of_eq_Some_iff
        dest: map_of_is_SomeI eq_key_imp_eq_value)
  then show ?thesis using action_map_pushed [of r es a] by (simp add: m_def)
qed

lemma sorted_find:
  fixes m :: "('a::linorder \<times> 'b) list"
  assumes "sorted_wrt (<) (map fst m)" and "List.find P m = Some e"
  shows "e \<in> set m \<and> P e \<and> (\<forall>d\<in>set m. P d \<longrightarrow> fst e \<le> fst d)"
  using assms by (induction m) (auto split: if_splits intro: less_imp_le)

context regex_engine
begin

lemma compile_sets_ok:
  "\<forall>e\<in>set m. \<forall>r\<in>set (snd e). valid r \<Longrightarrow>
   \<exists>m'. compile_sets R m = (Ok m' :: (_, 'e) res) \<and> map fst m' = map fst m
     \<and> (\<forall>text. RegexSetMatch_check R m' text
          = map_option fst (List.find (\<lambda>e. \<exists>r\<in>set (snd e). re_match r text) m))"
proof (induction m)
  case (Cons e m)
  then obtain m' where m': "compile_sets R m = (Ok m' :: (_, 'e) res)" "map fst m' = map fst m"
      "\<And>text. RegexSetMatch_check R m' text
        = map_option fst (List.find (\<lambda>e. \<exists>r\<in>set (snd e). re_match r text) m)"
    by auto
  obtain s where s: "RegexSet_new R (snd e) = Some s"
    using compiles [of "snd e"] Cons.prems by auto
  show ?case
    by (intro exI [of _ "(fst e, s) # m'"]) (simp add: m' s is_match [OF s])
qed simp

text \<open>A compiled set answers with the strictest action of the expressions that match.\<close>

lemma regex_set_strictest:
  assumes "\<forall>e\<in>set es. valid (fst e)"
  shows "\<exists>m. RegexSetBuilder_build R es = (Ok m :: (_, 'e) res)
    \<and> (\<forall>text. RegexSetMatch_check R m text = strictest re_match es text)"
proof -
  define am where "am = fold action_map_push es []"
  note am = action_map_sorted [of es, folded am_def]
    action_map_entry [of _ es, folded am_def]
  have "\<forall>e\<in>set am. \<forall>r\<in>set (snd e). valid r" using am(2) assms by (metis fst_conv prod.collapse)
  then obtain m where m: "compile_sets R am = (Ok m :: (_, 'e) res)"
      "\<And>text. RegexSetMatch_check R m text
        = map_option fst (List.find (\<lambda>e. \<exists>r\<in>set (snd e). re_match r text) am)"
    using compile_sets_ok by blast
  have "map_option fst (List.find (\<lambda>e. \<exists>r\<in>set (snd e). re_match r s) am) = strictest re_match es s"
    for s
  proof (cases "List.find (\<lambda>e. \<exists>r\<in>set (snd e). re_match r s) am")
    case None
    then have "\<forall>e\<in>set es. \<not> re_match (fst e) s"
      using am(2) unfolding find_None_iff by (metis prod.collapse snd_conv)
    then show ?thesis using None by (simp flip: strictest_None)
  next
    case (Some e)
    have "(\<exists>d\<in>set es. re_match (fst d) s \<and> snd d = fst e)"
      using sorted_find [OF am(1) Some] am(2) by (metis fst_conv prod.collapse snd_conv)
    moreover have "fst e \<le> snd d" if d: "d \<in> set es" "re_match (fst d) s" for d
    proof -
      obtain rs where "(snd d, rs) \<in> set am" "fst d \<in> set rs"
        using am(2) [of "snd d" "fst d"] d(1) by auto
      then show ?thesis using sorted_find [OF am(1) Some] d(2) by fastforce
    qed
    ultimately have "strictest re_match es s = Some (fst e)" unfolding strictest_Some by blast
    then show ?thesis using Some by simp
  qed
  then show ?thesis using m by (auto simp: RegexSetBuilder_build_def am_def)
qed

end

end
