(* ===== verification/Acl_Policy.thy ===== *)
theory Acl_Policy
  imports Acl_Rules
begin

text \<open>
  The destination host rule set against its policy: rules on expressions below a suffix, the order of
  the layers and the missed action; and the default networks of an egress filter.
\<close>

section \<open>Expressions on the names below a suffix\<close>

text \<open>The calls that fill a builder, and the groups of expressions they make, by labels of the suffix.\<close>

definition regex_domain_builder ::
  "(bytes \<times> bytes \<times> 'a) list \<Rightarrow> (bytes \<times> 'a) list \<Rightarrow> 'a \<Rightarrow> 'a AclRegexDomainRuleBuilder" where
  "regex_domain_builder prefixed full missed =
     fold (\<lambda>(r, a). AclRegexDomainRuleBuilder_add_full_regex r a) full
       (fold (\<lambda>(d, r, a). AclRegexDomainRuleBuilder_add_prefix_regex d r a) prefixed
          (AclRegexDomainRuleBuilder_new missed))"

definition regex_group :: "(bytes \<times> bytes \<times> 'a) list \<Rightarrow> bytes list \<Rightarrow> (bytes \<times> 'a) list" where
  "regex_group prefixed ls =
     fold (\<lambda>(d, r, a) b. if domain_labels d = ls then AList.update r a b else b) prefixed []"

definition regex_full :: "(bytes \<times> 'a) list \<Rightarrow> (bytes \<times> 'a) list" where
  "regex_full full = fold (\<lambda>(r, a). AList.update r a) full []"

text \<open>
  The reference: the expressions of the longest suffix that has some decide on what is left of it,
  the strictest match first; then the expressions on the whole name.
\<close>

definition regex_domain_decide ::
  "(bytes \<Rightarrow> bytes \<Rightarrow> bool) \<Rightarrow> (bytes \<times> bytes \<times> 'a::linorder) list \<Rightarrow> (bytes \<times> 'a) list \<Rightarrow> bytes \<Rightarrow> 'a option" where
  "regex_domain_decide re_match prefixed full domain =
     (case Option.bind (closest_suffix (\<lambda>ls. \<exists>p\<in>set prefixed. domain_labels (fst p) = ls) (domain_labels domain))
        (\<lambda>ls. strictest re_match (regex_group prefixed ls)
                (take (length domain - Suc (length (join_dot ls))) domain)) of
        Some a \<Rightarrow> Some a
      | None \<Rightarrow> strictest re_match (regex_full full) domain)"

subsection \<open>What the builder holds\<close>

lemma add_full_fold:
  "fold (\<lambda>(r, a). AclRegexDomainRuleBuilder_add_full_regex r a) full b
   = b\<lparr>RDB_full_regex := fold (\<lambda>(r, a). AList.update r a) full (RDB_full_regex b)\<rparr>"
  by (induction full arbitrary: b)
    (auto simp: AclRegexDomainRuleBuilder_add_full_regex_def RegexSetBuilder_add_regex_def)

lemma add_prefix_fold_other:
  "RDB_full_regex (fold (\<lambda>(d, r, a). AclRegexDomainRuleBuilder_add_prefix_regex d r a) ps b) = RDB_full_regex b"
  "RDB_missed_action (fold (\<lambda>(d, r, a). AclRegexDomainRuleBuilder_add_prefix_regex d r a) ps b) = RDB_missed_action b"
  by (induction ps arbitrary: b) (auto simp: AclRegexDomainRuleBuilder_add_prefix_regex_def Let_def)

lemma regex_domain_builder_simps:
  "RDB_full_regex (regex_domain_builder ps fs m) = regex_full fs"
  "RDB_missed_action (regex_domain_builder ps fs m) = m"
  "RDB_prefix_regex (regex_domain_builder ps fs m)
     = RDB_prefix_regex (fold (\<lambda>(d, r, a). AclRegexDomainRuleBuilder_add_prefix_regex d r a) ps
         (AclRegexDomainRuleBuilder_new m))"
  by (simp_all add: regex_domain_builder_def add_full_fold add_prefix_fold_other regex_full_def
      AclRegexDomainRuleBuilder_new_def)

lemma regex_group_snoc:
  "regex_group (ps @ [(d, r, a)]) ls
   = (if domain_labels d = ls then AList.update r a (regex_group ps ls) else regex_group ps ls)"
  by (simp add: regex_group_def)

lemma reverse_idna_domain_inject:
  "reverse_idna_domain d = reverse_idna_domain e \<longleftrightarrow> domain_labels d = domain_labels e"
  by (simp add: reverse_idna_domain_dotted dotted_inject)

lemma regex_prefix_groups:
  defines "g \<equiv> \<lambda>ps m. RDB_prefix_regex (fold (\<lambda>(d, r, a). AclRegexDomainRuleBuilder_add_prefix_regex d r a) ps
         (AclRegexDomainRuleBuilder_new m))"
  shows "distinct (map fst (g ps m))
    \<and> (\<forall>k. map_of (g ps m) k \<noteq> None \<longrightarrow> (\<exists>d. k = reverse_idna_domain d))
    \<and> (\<forall>d. map_of (g ps m) (reverse_idna_domain d)
         = (if \<exists>p\<in>set ps. domain_labels (fst p) = domain_labels d
            then Some (regex_group ps (domain_labels d)) else None))"
proof (induction ps rule: rev_induct)
  case Nil
  show ?case by (simp add: g_def AclRegexDomainRuleBuilder_new_def)
next
  case (snoc p ps)
  obtain d r a where p: "p = (d, r, a)" by (cases p) auto
  define b where "b = (case map_of (g ps m) (reverse_idna_domain d) of Some b \<Rightarrow> b | None \<Rightarrow> [])"
  have g: "g (ps @ [p]) m = AList.update (reverse_idna_domain d) (AList.update r a b) (g ps m)"
    by (simp add: g_def p AclRegexDomainRuleBuilder_add_prefix_regex_def Let_def b_def
        RegexSetBuilder_add_regex_def)
  have "regex_group ps (domain_labels d) = []" if "\<forall>p\<in>set ps. domain_labels (fst p) \<noteq> domain_labels d"
    using that by (induction ps rule: rev_induct) (auto simp: regex_group_def)
  then have b: "b = regex_group ps (domain_labels d)"
    using snoc by (auto simp: b_def)
  show ?case
    unfolding g update_conv' using snoc
    by (auto simp: p b distinct_update regex_group_snoc reverse_idna_domain_inject)
qed

lemma regex_group_keys: "fst ` set (regex_group ps ls) \<subseteq> fst ` snd ` set ps"
proof (induction ps rule: rev_induct)
  case (snoc p ps)
  obtain d r a where p: "p = (d, r, a)" by (cases p) auto
  then show ?case using snoc by (auto simp: regex_group_snoc dom_update)
qed (simp add: regex_group_def)

lemma regex_full_keys: "fst ` set (regex_full fs) = fst ` set fs"
  using fold_update_dom [of "\<lambda>r. r" fs "[]"] by (simp add: regex_full_def)

definition prefix_groups :: "(bytes \<times> bytes \<times> 'a) list \<Rightarrow> 'a \<Rightarrow> (bytes \<times> (bytes \<times> 'a) list) list" where
  "prefix_groups ps m =
     RDB_prefix_regex (fold (\<lambda>(d, r, a). AclRegexDomainRuleBuilder_add_prefix_regex d r a) ps
       (AclRegexDomainRuleBuilder_new m))"

lemmas prefix_groups = regex_prefix_groups [folded prefix_groups_def]

lemma prefix_groups_dotted:
  assumes "dot_free ls"
  shows "map_of (prefix_groups ps m) (dotted ls)
       = (if \<exists>p\<in>set ps. domain_labels (fst p) = rev ls then Some (regex_group ps (rev ls)) else None)"
proof (cases "ls = []")
  case True
  then have "dotted ls \<noteq> reverse_idna_domain d" for d by (simp add: reverse_idna_domain_def)
  then have "map_of (prefix_groups ps m) (dotted ls) = None"
    using prefix_groups [of ps m] by metis
  then show ?thesis using True by simp
next
  case False
  define d where "d = 0x2E # join_dot (rev ls)"
  have "domain_labels d = rev ls"
    using assms False by (simp add: domain_labels_def d_def strip_leading_dot_def split_join_dot)
  then show ?thesis
    using prefix_groups [of ps m] by (metis reverse_idna_domain_dotted rev_rev_ident)
qed

lemma closest_group:
  "closest_prefix (\<lambda>k. map_of (prefix_groups ps m) k \<noteq> None) (reverse_idna_domain domain)
   = map_option (\<lambda>ls. dotted (rev ls))
       (closest_suffix (\<lambda>ls. \<exists>p\<in>set ps. domain_labels (fst p) = ls) (domain_labels domain))"
proof -
  define m' where "m' = (\<lambda>ls. if \<exists>p\<in>set ps. domain_labels (fst p) = ls then Some (regex_group ps ls) else None)"
  have "closest_prefix (\<lambda>k. map_of (prefix_groups ps m) k \<noteq> None) (reverse_idna_domain domain)
      = map_option (\<lambda>ls. dotted (rev ls)) (closest_suffix (\<lambda>ls. m' ls \<noteq> None) (domain_labels domain))"
    using prefix_groups [of ps m] by (intro closest_reversed) (blast, simp add: m'_def prefix_groups_dotted)
  moreover have "(\<lambda>ls. m' ls \<noteq> None) = (\<lambda>ls. \<exists>p\<in>set ps. domain_labels (fst p) = ls)"
    by (simp add: m'_def fun_eq_iff)
  ultimately show ?thesis by simp
qed

subsection \<open>The rest of a name before a suffix\<close>

lemma join_dot_append: "xs \<noteq> [] \<Longrightarrow> ys \<noteq> [] \<Longrightarrow> join_dot (xs @ ys) = join_dot xs @ 0x2E # join_dot ys"
  by (induction xs rule: join_dot.induct) (auto simp: neq_Nil_conv)

lemma utf8_dot: "\<not> utf8_cont 0x2E"
  by (simp add: utf8_cont_def)

lemma length_strip_leading_dot: "length domain \<le> Suc (length (strip_leading_dot domain))"
  by (cases domain) (auto simp: strip_leading_dot_def)

lemma length_dotted_rev: "ls \<noteq> [] \<Longrightarrow> length (dotted (rev ls)) = Suc (length (join_dot ls))"
proof -
  assume "ls \<noteq> []"
  moreover have "length (dotted (rev ls)) = length (dotted ls)" by (induction ls) auto
  ultimately show ?thesis using length_dotted [of ls] by simp
qed

text \<open>Splitting a domain before a suffix of labels and its dot never cuts a character.\<close>

lemma suffix_split:
  assumes "suffix ls (domain_labels domain)" and "ls \<noteq> []"
    and "length (dotted (rev ls)) < length domain"
  shows "str_split_at domain (length domain - length (dotted (rev ls)))
       = (Ok (take (length domain - Suc (length (join_dot ls))) domain,
              drop (length domain - Suc (length (join_dot ls))) domain) :: (_, 'e) res)"
proof -
  note len = length_dotted_rev [OF assms(2)]
  obtain pre where pre: "domain_labels domain = pre @ ls" using assms(1) by (auto simp: suffix_def)
  have name: "strip_leading_dot domain = join_dot (pre @ ls)"
    using join_split_dot [of "strip_leading_dot domain"] by (simp flip: pre add: domain_labels_def)
  have "domain ! (length domain - Suc (length (join_dot ls))) = 0x2E"
  proof (cases "pre = []")
    case True
    then have "length domain \<le> Suc (length (join_dot ls))"
      using name length_strip_leading_dot [of domain] by simp
    then show ?thesis using assms(3) len by simp
  next
    case False
    then have "suffix (0x2E # join_dot ls) (strip_leading_dot domain)"
      using name assms(2) by (simp add: join_dot_append suffix_def)
    then have "suffix (0x2E # join_dot ls) domain"
      by (cases domain) (auto simp: strip_leading_dot_def suffix_Cons split: if_splits)
    then obtain us where "domain = us @ 0x2E # join_dot ls" by (auto simp: suffix_def)
    then show ?thesis by simp
  qed
  then have "is_char_boundary domain (length domain - Suc (length (join_dot ls)))"
    using utf8_dot assms(3) len by (auto simp: is_char_boundary_def)
  then show ?thesis by (simp add: str_split_at_def len)
qed


subsection \<open>The rule on expressions\<close>

locale regex_domain_engine = regex_engine R valid re_match + tr: radix_trie T content
  for R :: "'r RegexSet" and valid and re_match
    and T :: "('t, ('r, 'a::linorder) RegexSetMatch) Trie" and content
begin

lemma build_prefix_trie_ok:
  assumes "distinct (map fst es)" and "\<forall>e\<in>set es. \<forall>d\<in>set (snd e). valid (fst d)"
  shows "\<exists>t'. build_prefix_trie T R es t = (Ok t' :: (_, 'e) res)
    \<and> (\<forall>k. content t' k = None \<longleftrightarrow> content t k = None \<and> map_of es k = None)
    \<and> (\<forall>k b. map_of es k = Some b \<longrightarrow>
         (\<exists>m. content t' k = Some m \<and> (\<forall>s. RegexSetMatch_check R m s = strictest re_match b s)))
    \<and> (\<forall>k. map_of es k = None \<longrightarrow> content t' k = content t k)"
  using assms
proof (induction es arbitrary: t)
  case (Cons e es)
  obtain m where m: "RegexSetBuilder_build R (snd e) = (Ok m :: (_, 'e) res)"
      "\<And>s. RegexSetMatch_check R m s = strictest re_match (snd e) s"
    using regex_set_strictest [of "snd e"] Cons.prems(2) by auto
  obtain t' where t': "build_prefix_trie T R es (Trie_insert T (fst e) m t) = (Ok t' :: (_, 'e) res)"
      "\<And>k. content t' k = None \<longleftrightarrow> content (Trie_insert T (fst e) m t) k = None \<and> map_of es k = None"
      "\<And>k b. map_of es k = Some b \<Longrightarrow>
         \<exists>m. content t' k = Some m \<and> (\<forall>s. RegexSetMatch_check R m s = strictest re_match b s)"
      "\<And>k. map_of es k = None \<Longrightarrow> content t' k = content (Trie_insert T (fst e) m t) k"
    using Cons.IH [of "Trie_insert T (fst e) m t"] Cons.prems by auto
  have "map_of es (fst e) = None" using Cons.prems(1) by (simp add: map_of_eq_None_iff)
  then show ?case
    using t' m by (intro exI [of _ t']) (auto simp: tr.content_insert)
qed simp

text \<open>The trie of a built rule holds, for each suffix, the compiled form of its group.\<close>

definition holds_groups :: "(bytes \<times> bytes \<times> 'a) list \<Rightarrow> 'a \<Rightarrow> 't \<Rightarrow> bool" where
  "holds_groups ps m t \<longleftrightarrow>
     (\<forall>k. content t k = None \<longleftrightarrow> map_of (prefix_groups ps m) k = None)
     \<and> (\<forall>k b. map_of (prefix_groups ps m) k = Some b \<longrightarrow>
          (\<exists>rm. content t k = Some rm \<and> (\<forall>s. RegexSetMatch_check R rm s = strictest re_match b s)))"

lemma check_prefix_regex_decide:
  assumes "holds_groups ps m (RD_prefix_match_trie rule)"
  shows "check_prefix_regex T R rule domain
    = (Ok (Option.bind
            (closest_suffix (\<lambda>ls. \<exists>p\<in>set ps. domain_labels (fst p) = ls) (domain_labels domain))
            (\<lambda>ls. strictest re_match (regex_group ps ls)
                    (take (length domain - Suc (length (join_dot ls))) domain))) :: (_, 'e) res)"
proof -
  define t where "t = RD_prefix_match_trie rule"
  have keys: "content t k = None \<longleftrightarrow> map_of (prefix_groups ps m) k = None" for k
    using assms by (simp add: holds_groups_def t_def)
  then have closest: "closest_prefix (\<lambda>k. content t k \<noteq> None) (reverse_idna_domain domain)
      = map_option (\<lambda>ls. dotted (rev ls))
          (closest_suffix (\<lambda>ls. \<exists>p\<in>set ps. domain_labels (fst p) = ls) (domain_labels domain))"
    using closest_group [of ps m domain] by simp
  show ?thesis
  proof (cases "closest_suffix (\<lambda>ls. \<exists>p\<in>set ps. domain_labels (fst p) = ls) (domain_labels domain)")
    case None
    then show ?thesis
      using closest by (simp add: check_prefix_regex_def tr.get_ancestor_content flip: t_def)
  next
    case (Some ls)
    then have ls: "suffix ls (domain_labels domain)" "dot_free ls" "\<exists>p\<in>set ps. domain_labels (fst p) = ls"
      using closest_suffix_holds [OF Some] closest_suffix_dot_free [OF Some] by auto
    then have ne: "ls \<noteq> []" by force
    have "map_of (prefix_groups ps m) (dotted (rev ls)) = Some (regex_group ps ls)"
      using ls by (simp add: prefix_groups_dotted)
    then obtain rm where rm: "content t (dotted (rev ls)) = Some rm"
        "\<And>s. RegexSetMatch_check R rm s = strictest re_match (regex_group ps ls) s"
      using assms unfolding holds_groups_def t_def by blast
    have "length (dotted (rev ls)) = Suc (length (join_dot ls))" by (rule length_dotted_rev [OF ne])
    then show ?thesis
      using suffix_split [OF ls(1) ne, where 'e = 'e] rm closest Some
      by (auto simp: check_prefix_regex_def tr.get_ancestor_content tr.is_empty_content Let_def
          simp flip: t_def)
  qed
qed

lemma regex_domain_check:
  assumes "\<forall>p\<in>set ps. valid (fst (snd p))" and "\<forall>f\<in>set fs. valid (fst f)"
  shows "\<exists>rule. AclRegexDomainRuleBuilder_build T R (regex_domain_builder ps fs m) = (Ok rule :: (_, 'e) res)
    \<and> (\<forall>domain. AclRegexDomainRule_check T R rule domain
         = (Ok (decision (regex_domain_decide re_match ps fs domain) m) :: (_, 'f) res))"
proof -
  have "\<forall>e\<in>set (prefix_groups ps m). \<forall>d\<in>set (snd e). valid (fst d)"
  proof (intro ballI)
    fix e d assume e: "e \<in> set (prefix_groups ps m)" and d: "d \<in> set (snd e)"
    have "map_of (prefix_groups ps m) (fst e) = Some (snd e)"
      using e prefix_groups [of ps m] by simp
    then obtain h where "snd e = regex_group ps (domain_labels h)"
      using prefix_groups [of ps m] by (metis option.distinct(1) option.inject)
    then have "fst d \<in> fst ` snd ` set ps" using regex_group_keys [of ps "domain_labels h"] d by auto
    then show "valid (fst d)" using assms(1) by auto
  qed
  then obtain t where t: "build_prefix_trie T R (prefix_groups ps m) (Trie_new T) = (Ok t :: (_, 'e) res)"
      "holds_groups ps m t"
    using build_prefix_trie_ok [of "prefix_groups ps m" "Trie_new T"] prefix_groups [of ps m]
    unfolding holds_groups_def by (auto simp: tr.content_new)
  have "\<forall>e\<in>set (regex_full fs). valid (fst e)" using regex_full_keys [of fs] assms(2) by (metis imageE imageI)
  then obtain full where full: "RegexSetBuilder_build R (regex_full fs) = (Ok full :: (_, 'e) res)"
      "\<And>s. RegexSetMatch_check R full s = strictest re_match (regex_full fs) s"
    using regex_set_strictest by blast
  define rule where "rule = \<lparr>RD_prefix_match_trie = t, RD_full_match_action_map = full, RD_missed_action = m\<rparr>"
  have "AclRegexDomainRuleBuilder_build T R (regex_domain_builder ps fs m) = (Ok rule :: (_, 'e) res)"
    using t full by (simp add: AclRegexDomainRuleBuilder_build_def regex_domain_builder_simps rule_def
        flip: prefix_groups_def)
  moreover have "AclRegexDomainRule_check T R rule domain
      = (Ok (decision (regex_domain_decide re_match ps fs domain) m) :: (_, 'f) res)" for domain
    using check_prefix_regex_decide [of ps m rule domain, where 'e = 'f] t(2) full(2)
    by (simp add: AclRegexDomainRule_check_def regex_domain_decide_def decision_def rule_def
        split: option.split)
  ultimately show ?thesis by blast
qed

end

interpretation literal_regex_domain: regex_domain_engine literal_regex "\<lambda>r. True"
  "\<lambda>r text. str_find r text \<noteq> None" map_trie "\<lambda>t. t"
  ..

section \<open>The policy of a destination host rule set\<close>

text \<open>What a configuration says: for each kind of rule, the rules in order and the missed action.\<close>

record 'n host_policy =
  hp_exact :: "((Host \<times> AclAction) list \<times> AclAction) option"
  hp_child :: "((bytes \<times> AclAction) list \<times> AclAction) option"
  hp_regex :: "((bytes \<times> bytes \<times> AclAction) list \<times> (bytes \<times> AclAction) list \<times> AclAction) option"
  hp_subnet :: "(('n \<times> AclAction) list \<times> AclAction) option"

definition exact_host_rule :: "(Host \<times> 'a) list \<Rightarrow> 'a \<Rightarrow> 'a AclExactHostRule" where
  "exact_host_rule rules missed =
     fold (\<lambda>(h, a). AclExactHostRule_add_host h a) rules (AclExactHostRule_new missed)"

definition network_builder :: "('n \<times> 'a) list \<Rightarrow> 'a \<Rightarrow> ('n, 'a) AclNetworkRuleBuilder" where
  "network_builder rules missed =
     fold (\<lambda>(n, a). AclNetworkRuleBuilder_add_network n a) rules (AclNetworkRuleBuilder_new missed)"

definition policy_builder :: "'n host_policy \<Rightarrow> ('n, AclAction) AclDstHostRuleSetBuilder" where
  "policy_builder p =
     \<lparr>DHB_exact = map_option (\<lambda>(rules, m). exact_host_rule rules m) (hp_exact p),
      DHB_child = map_option (\<lambda>(rules, m). child_domain_builder rules m) (hp_child p),
      DHB_regex = map_option (\<lambda>(ps, fs, m). regex_domain_builder ps fs m) (hp_regex p),
      DHB_subnet = map_option (\<lambda>(rules, m). network_builder rules m) (hp_subnet p)\<rparr>"

text \<open>
  The reference: the rules in the order exact host, subnet for an address, and exact host, child
  domain, expressions for a name; an undecided host gets the strictest missed action.
\<close>

definition network_decide :: "('n \<Rightarrow> IpAddr \<times> nat) \<Rightarrow> ('n \<times> 'a) list \<Rightarrow> IpAddr \<Rightarrow> 'a option" where
  "network_decide view rules ip =
     map_option snd (longest_network view ip (fold (\<lambda>(n, a). AList.update n a) rules []))"

fun first_decided :: "'a option list \<Rightarrow> 'a option" where
  "first_decided [] = None"
| "first_decided (None # rs) = first_decided rs"
| "first_decided (Some a # rs) = Some a"

fun policy_decide ::
  "('n \<Rightarrow> IpAddr \<times> nat) \<Rightarrow> (bytes \<Rightarrow> bytes \<Rightarrow> bool) \<Rightarrow> 'n host_policy \<Rightarrow> Host \<Rightarrow> AclAction option" where
  "policy_decide view re_match p (Ip ip) = first_decided
     [Option.bind (hp_exact p) (\<lambda>(rules, m). last_of rules (Ip ip)),
      Option.bind (hp_subnet p) (\<lambda>(rules, m). network_decide view rules ip)]"
| "policy_decide view re_match p (Domain d) = first_decided
     [Option.bind (hp_exact p) (\<lambda>(rules, m). last_of rules (Domain d)),
      Option.bind (hp_child p) (\<lambda>(rules, m). child_domain_decide rules d),
      Option.bind (hp_regex p) (\<lambda>(ps, fs, m). regex_domain_decide re_match ps fs d)]"

definition policy_missed :: "'n host_policy \<Rightarrow> AclAction" where
  "policy_missed p =
     fold min
       (List.map_filter (\<lambda>x. x)
         [map_option snd (hp_exact p), map_option snd (hp_child p),
          map_option (snd \<circ> snd) (hp_regex p), map_option snd (hp_subnet p)])
       Permit"

subsection \<open>The parts of the set\<close>

lemma add_host_simps:
  "EH_missed_action (AclExactHostRule_add_host h a self) = EH_missed_action self"
  "HR_missed_action (EH_domain (AclExactHostRule_add_host h a self)) = HR_missed_action (EH_domain self)"
  "HR_missed_action (EH_ip (AclExactHostRule_add_host h a self)) = HR_missed_action (EH_ip self)"
  "HR_inner (EH_domain (AclExactHostRule_add_host h a self)) d
     = (if h = Domain d then Some a else HR_inner (EH_domain self) d)"
  "HR_inner (EH_ip (AclExactHostRule_add_host h a self)) ip
     = (if h = Ip ip then Some a else HR_inner (EH_ip self) ip)"
  by (cases h; auto simp: AclExactHostRule_add_ip_def AclExactHostRule_add_domain_def
      AclHashRule_add_node_def)+

lemma exact_host_rule_simps:
  "EH_missed_action (exact_host_rule rules m) = m"
  "HR_missed_action (EH_domain (exact_host_rule rules m)) = m"
  "HR_missed_action (EH_ip (exact_host_rule rules m)) = m"
  "HR_inner (EH_domain (exact_host_rule rules m)) d = last_of rules (Domain d)"
  "HR_inner (EH_ip (exact_host_rule rules m)) ip = last_of rules (Ip ip)"
  by (induction rules rule: rev_induct)
    (auto simp: exact_host_rule_def add_host_simps AclExactHostRule_new_def AclHashRule_new_def)

lemma exact_host_check:
  "AclExactHostRule_check_ip (exact_host_rule rules m) ip = decision (last_of rules (Ip ip)) m"
  "AclExactHostRule_check_domain (exact_host_rule rules m) d = decision (last_of rules (Domain d)) m"
  by (simp_all add: AclExactHostRule_check_ip_def AclExactHostRule_check_domain_def AclHashRule_check_def
      exact_host_rule_simps decision_def split: option.split)

lemma network_builder_simps:
  "NB_inner (network_builder rules m) = fold (\<lambda>(n, a). AList.update n a) rules []"
  "NB_missed_action (network_builder rules m) = m"
  by (induction rules rule: rev_induct)
    (auto simp: network_builder_def AclNetworkRuleBuilder_new_def AclNetworkRuleBuilder_add_network_def)

text \<open>A layer of the check that decides or leaves the host to the layers after it.\<close>

definition or_else :: "'a option \<Rightarrow> (bool \<times> 'a, 'e) res \<Rightarrow> (bool \<times> 'a, 'e) res" where
  "or_else r rest = (case r of Some a \<Rightarrow> Ok (True, a) | None \<Rightarrow> rest)"

lemma if_found_or_else:
  assumes "\<And>y. x = Some y \<Longrightarrow> check (f y) = Ok (decision (decide y) (m y))"
  shows "if_found check (map_option f x) rest = or_else (Option.bind x decide) rest"
  using assms by (cases x) (auto simp: if_found_def decision_def or_else_def split: option.splits)

lemma or_else_decided:
  "or_else r (Ok (False, m)) = Ok (decision (first_decided [r]) m)"
  "or_else r (Ok (decision (first_decided rs) m)) = Ok (decision (first_decided (r # rs)) m)"
  by (cases r; simp add: decision_def or_else_def)+

lemma restrict_with_min: "restrict_with f x a = (case x of None \<Rightarrow> a | Some b \<Rightarrow> min (f b) a)"
  by (simp add: restrict_with_def AclAction_restrict_def split: option.split)


definition policy_valid :: "(bytes \<Rightarrow> bool) \<Rightarrow> ('n \<Rightarrow> bool) \<Rightarrow> 'n host_policy \<Rightarrow> bool" where
  "policy_valid valid_regex valid_net p \<longleftrightarrow>
     (case hp_regex p of
        None \<Rightarrow> True
      | Some (ps, fs, m) \<Rightarrow> list_all (\<lambda>r. valid_regex (fst (snd r))) ps \<and> list_all (\<lambda>f. valid_regex (fst f)) fs)
     \<and> (case hp_subnet p of None \<Rightarrow> True | Some (rules, m) \<Rightarrow> list_all (\<lambda>r. valid_net (fst r)) rules)"

lemma network_policy_check:
  assumes "network_table N view valid content" and "list_all (\<lambda>r. valid (fst r)) rules"
  shows "AclNetworkRule_check N (AclNetworkRuleBuilder_build N (network_builder rules m)) ip
       = decision (network_decide view rules ip) m"
proof -
  define es where "es = fold (\<lambda>(n, a). AList.update n a) rules []"
  have "fst ` set es \<subseteq> fst ` set rules"
    using fold_update_dom [of "\<lambda>n. n" rules "[]"] by (simp add: es_def)
  then have "valid n" if "n \<in> fst ` set es" for n
    using that assms(2) by (auto simp: list_all_iff dest!: subsetD)
  moreover have "distinct (map fst es)"
    using distinct_update_fold [of "[]" "\<lambda>n. n" rules] by (simp add: es_def)
  ultimately show ?thesis
    using network_table.network_check [OF assms(1), of "network_builder rules m" ip]
    by (simp add: network_builder_simps network_decide_def es_def)
qed

lemma policy_missed_build:
  "restrict_with NB_missed_action (DHB_subnet (policy_builder p))
     (restrict_with RDB_missed_action (DHB_regex (policy_builder p))
       (restrict_with RTB_missed_action (DHB_child (policy_builder p))
         (restrict_with EH_missed_action (DHB_exact (policy_builder p)) Permit))) = policy_missed p"
  by (cases "hp_exact p"; cases "hp_child p"; cases "hp_regex p"; cases "hp_subnet p")
    (auto simp: policy_builder_def restrict_with_min policy_missed_def map_filter_simps
      exact_host_rule_simps child_domain_builder_simps regex_domain_builder_simps network_builder_simps)

lemma regex_policy_build:
  fixes R :: "'r RegexSet"
  assumes "radix_trie T content" and "regex_engine R valid re_match"
    and "\<forall>ps fs m. x = Some (ps, fs, m) \<longrightarrow> (\<forall>r\<in>set ps. valid (fst (snd r))) \<and> (\<forall>f\<in>set fs. valid (fst f))"
  shows "\<exists>rx. map_option_res (AclRegexDomainRuleBuilder_build T R)
        (map_option (\<lambda>(ps, fs, m). regex_domain_builder ps fs m) x) = (Ok rx :: (_, 'e) res)
      \<and> (\<forall>d (rest :: (_, 'f) res). if_found (\<lambda>rule. AclRegexDomainRule_check T R rule d) rx rest
           = or_else (Option.bind x (\<lambda>(ps, fs, m). regex_domain_decide re_match ps fs d)) rest)"
proof (cases x)
  case None
  then show ?thesis by (simp add: if_found_def or_else_def)
next
  case (Some y)
  obtain ps fs m where y: "y = (ps, fs, m)" by (cases y)
  have engine: "regex_domain_engine R valid re_match T content"
    using assms(1,2) by (intro regex_domain_engine.intro)
  have "\<forall>r\<in>set ps. valid (fst (snd r))" "\<forall>f\<in>set fs. valid (fst f)"
    using assms(3) Some y by simp_all
  note regex_domain_engine.regex_domain_check [OF engine this, where 'e = 'e and 'f = 'f]
  then obtain rule where rule:
      "AclRegexDomainRuleBuilder_build T R (regex_domain_builder ps fs m) = (Ok rule :: (_, 'e) res)"
      "\<And>d. AclRegexDomainRule_check T R rule d
         = (Ok (decision (regex_domain_decide re_match ps fs d) m) :: (_, 'f) res)"
    by blast
  then show ?thesis
    using Some y by (intro exI [of _ "Some rule"])
      (auto simp: if_found_def decision_def or_else_def split: option.split)
qed

text \<open>A rule set that is built from a policy implements it.\<close>

lemma policy_implemented:
  fixes C :: "('ct, 'rt, 'r, 'nt, 'n, AclAction) acl_crates"
  assumes "radix_trie (child_trie C) child_content" and "radix_trie (regex_trie C) regex_content"
    and "regex_engine (regex_sets C) valid_regex re_match"
    and "network_table (net_tables C) view valid_net net_content"
    and "policy_valid valid_regex valid_net p"
  shows "\<exists>rules. AclDstHostRuleSetBuilder_build C (policy_builder p) = (Ok rules :: (_, 'e) res)
    \<and> (\<forall>host. AclDstHostRuleSet_check C rules host
         = (Ok (decision (policy_decide view re_match p host) (policy_missed p)) :: (_, 'f) res))"
proof -
  have valid: "\<forall>ps fs m. hp_regex p = Some (ps, fs, m) \<longrightarrow>
      (\<forall>r\<in>set ps. valid_regex (fst (snd r))) \<and> (\<forall>f\<in>set fs. valid_regex (fst f))"
    using assms(5) by (cases "hp_regex p") (auto simp: policy_valid_def list_all_iff)
  have rx_builder: "DHB_regex (policy_builder p)
      = map_option (\<lambda>(ps, fs, m). regex_domain_builder ps fs m) (hp_regex p)"
    by (simp add: policy_builder_def)
  obtain rx where rx: "map_option_res (AclRegexDomainRuleBuilder_build (regex_trie C) (regex_sets C))
        (DHB_regex (policy_builder p)) = (Ok rx :: (_, 'e) res)"
      "\<And>d (rest :: (_, 'f) res).
         if_found (\<lambda>rule. AclRegexDomainRule_check (regex_trie C) (regex_sets C) rule d) rx rest
         = or_else (Option.bind (hp_regex p) (\<lambda>(ps, fs, m). regex_domain_decide re_match ps fs d)) rest"
    unfolding rx_builder using regex_policy_build [where x = "hp_regex p" and 'e = 'e and 'f = 'f, OF assms(2,3) valid]
    by blast
  define rules where "rules =
    \<lparr>DH_exact = DHB_exact (policy_builder p),
     DH_child = map_option (AclChildDomainRuleBuilder_build (child_trie C)) (DHB_child (policy_builder p)),
     DH_regex = rx,
     DH_subnet = map_option (AclNetworkRuleBuilder_build (net_tables C)) (DHB_subnet (policy_builder p)),
     DH_missed_action = policy_missed p\<rparr>"
  have "AclDstHostRuleSetBuilder_build C (policy_builder p) = (Ok rules :: (_, 'e) res)"
    by (simp add: AclDstHostRuleSetBuilder_build_def Let_def rx(1) rules_def policy_missed_build)
  moreover have "AclDstHostRuleSet_check C rules host
      = (Ok (decision (policy_decide view re_match p host) (policy_missed p)) :: (_, 'f) res)" for host
  proof (cases host)
    case (Ip ip)
    have "if_found (\<lambda>rule. Ok (AclExactHostRule_check_ip rule ip)) (DH_exact rules) rest
        = or_else (Option.bind (hp_exact p) (\<lambda>(rules, m). last_of rules (Ip ip))) rest"
      for rest :: "(_, 'f) res"
      unfolding rules_def policy_builder_def
      by (simp, rule if_found_or_else [where m = snd]) (auto simp: exact_host_check)
    moreover have "if_found (\<lambda>rule. Ok (AclNetworkRule_check (net_tables C) rule ip)) (DH_subnet rules) rest
        = or_else (Option.bind (hp_subnet p) (\<lambda>(rules, m). network_decide view rules ip)) rest"
      for rest :: "(_, 'f) res"
      unfolding rules_def policy_builder_def using assms(5)
      by (simp add: option.map_comp, intro if_found_or_else [where m = snd])
        (auto simp: network_policy_check [OF assms(4)] policy_valid_def)
    ultimately show ?thesis
      using Ip by (simp add: or_else_decided rules_def)
  next
    case (Domain d)
    have "if_found (\<lambda>rule. Ok (AclExactHostRule_check_domain rule d)) (DH_exact rules) rest
        = or_else (Option.bind (hp_exact p) (\<lambda>(rules, m). last_of rules (Domain d))) rest"
      for rest :: "(_, 'f) res"
      unfolding rules_def policy_builder_def
      by (simp, rule if_found_or_else [where m = snd]) (auto simp: exact_host_check)
    moreover have "if_found (\<lambda>rule. Ok (AclChildDomainRule_check (child_trie C) rule d)) (DH_child rules) rest
        = or_else (Option.bind (hp_child p) (\<lambda>(rules, m). child_domain_decide rules d)) rest"
      for rest :: "(_, 'f) res"
      unfolding rules_def policy_builder_def
      by (simp add: option.map_comp, intro if_found_or_else [where m = snd])
        (auto simp: radix_trie.child_domain_check [OF assms(1)])
    ultimately show ?thesis
      using Domain rx(2) by (simp add: or_else_decided rules_def)
  qed
  ultimately show ?thesis by blast
qed



definition example_crates :: "(bytes \<rightharpoonup> 'a, bytes \<rightharpoonup> (bytes list, 'a) RegexSetMatch, bytes list,
    ((IpAddr \<times> nat) \<times> 'a) list, IpAddr \<times> nat, 'a) acl_crates" where
  "example_crates = \<lparr>child_trie = map_trie, regex_trie = map_trie, regex_sets = literal_regex,
     net_tables = list_net_table\<rparr>"

definition example_policy :: "(IpAddr \<times> nat) host_policy" where
  "example_policy =
     \<lparr>hp_exact = Some ([(Domain (ascii ''www.foo.com''), Forbid)], Permit),
      hp_child = Some ([(ascii ''foo.com'', PermitAndLog), (ascii ''com'', Permit)], Forbid),
      hp_regex = Some ([(ascii ''bar.net'', ascii ''api'', ForbidAndLog)], [(ascii ''.net'', Permit)], Permit),
      hp_subnet = Some ([((Ipv4Addr_new 10 0 0 0, 8), Forbid), ((Ipv4Addr_new 10 1 0 0, 16), Permit)], Permit)\<rparr>"

lemmas example_eval = example_policy_def last_of_def child_domain_decide_def regex_domain_decide_def
  domain_labels_def strip_leading_dot_def closest_suffix_def ascii_def regex_group_def regex_full_def
  strictest_def starts_with_def

lemma example_policy_decides:
  "policy_decide (\<lambda>n. n) (\<lambda>r t. str_find r t \<noteq> None) example_policy (Domain (ascii ''a.foo.com'')) = Some PermitAndLog"
  "policy_decide (\<lambda>n. n) (\<lambda>r t. str_find r t \<noteq> None) example_policy (Domain (ascii ''api.bar.net'')) = Some ForbidAndLog"
  "policy_decide (\<lambda>n. n) (\<lambda>r t. str_find r t \<noteq> None) example_policy (Domain (ascii ''foo.org'')) = None"
  by (simp_all add: example_eval)

lemma example_policy_missed: "policy_missed example_policy = Forbid"
  by (simp add: policy_missed_def example_policy_def map_filter_simps min_def less_eq_AclAction_def)

lemma example_policy_network:
  "policy_decide (\<lambda>n. n) (\<lambda>r t. str_find r t \<noteq> None) example_policy (Ip (Ipv4Addr_new 10 1 2 3)) = Some Permit"
  by (simp add: example_policy_def last_of_def network_decide_def in_network_def Ipv4Addr_new_def from_be_def)

lemma example_policy_valid: "policy_valid (\<lambda>r. True) network_ok example_policy"
  by (simp add: policy_valid_def example_policy_def network_ok_def Ipv4Addr_new_def from_be_def)

lemma example_crates_ok:
  "radix_trie (child_trie example_crates) (\<lambda>t. t)" "radix_trie (regex_trie example_crates) (\<lambda>t. t)"
  "regex_engine (regex_sets example_crates) (\<lambda>r. True) (\<lambda>r t. str_find r t \<noteq> None)"
  "network_table (net_tables example_crates) (\<lambda>n. n) network_ok map_of"
  by (simp_all add: example_crates_def map_trie.radix_trie_axioms literal_regex.regex_engine_axioms
      list_net_table.network_table_axioms del: not_None_eq)


section \<open>The default networks\<close>

text \<open>The addresses an egress filter forbids before any configuration.\<close>

fun special_destination :: "IpAddr \<Rightarrow> bool" where
  "special_destination (V4 a) \<longleftrightarrow>
     a = 0 \<or> unat a div 2 ^ 24 = 127 \<or> unat a div 2 ^ 16 = 169 * 2 ^ 8 + 254"
| "special_destination (V6 a) \<longleftrightarrow>
     a = 0 \<or> a = 1 \<or> unat a div 2 ^ 118 = 0xfe80 div 2 ^ 6 \<or> unat a div 2 ^ 64 = 0x0100 * 2 ^ 48"

lemma default_egress_values:
  "DEFAULT_EGRESS_RULE =
     [(V4 0, 32), (V4 0x7F000000, 8), (V4 0xA9FE0000, 16), (V6 0, 128), (V6 1, 128),
      (V6 0xFE800000000000000000000000000000, 10), (V6 0x01000000000000000000000000000000, 64)]"
  by (simp add: DEFAULT_EGRESS_RULE_def Ipv4Addr_new_def Ipv6Addr_new_def from_be_def groups_value_def)

lemma default_egress_ok: "\<forall>p\<in>set DEFAULT_EGRESS_RULE. network_ok p"
  by (simp add: default_egress_values network_ok_def)

lemma default_egress_special: "(\<exists>p\<in>set DEFAULT_EGRESS_RULE. in_network ip p) \<longleftrightarrow> special_destination ip"
proof (cases ip)
  case (V4 a)
  have "a = 0 \<longleftrightarrow> unat a = 0" by (simp add: unat_eq_zero)
  then show ?thesis by (simp add: V4 default_egress_values in_network_def)
next
  case (V6 a)
  have "a = 0 \<longleftrightarrow> unat a = 0" "a = 1 \<longleftrightarrow> unat a = 1"
    using word_unat_eq_iff [of a 1] by (simp_all add: unat_eq_zero)
  then show ?thesis by (simp add: V6 default_egress_values in_network_def)
qed

text \<open>
  The default egress rules: they build, and an address is forbidden exactly when it is unspecified, in 127.0.0.0/8, in 169.254.0.0/16, the IPv6 unspecified or loopback address, in fe80::/10 or in 100::/64; every other address, the IPv4-mapped form of a loopback address among them, gets the configured action as not found.
\<close>

theorem default_egress_forbids:
  assumes "network_table N view valid content"
  shows "\<exists>b. AclNetworkRuleBuilder_new_egress N missed = (Ok b :: (_, 'e) res)
    \<and> (\<forall>ip. AclNetworkRule_check N (AclNetworkRuleBuilder_build N b) ip
         = (if special_destination ip then (True, Forbid) else (False, missed)))
    \<and> AclNetworkRule_check N (AclNetworkRuleBuilder_build N b) (V6 (0xFFFF7F000001)) = (False, missed)"
  using network_table.default_networks [OF assms default_egress_ok, of Forbid missed, where 'e = 'e]
  by (auto simp: AclNetworkRuleBuilder_new_egress_def default_egress_special)

end
