(* ===== verification/Acl_User_Agent.thy ===== *)
theory Acl_User_Agent
  imports Acl_Rules
begin

text \<open>
  The search for product names in a user agent: it ends and equals its reference on the names and
  values it is meant for; where it does not end or panics.
\<close>

section \<open>User agents\<close>

definition occurs_at :: "bytes \<Rightarrow> bytes \<Rightarrow> nat \<Rightarrow> bool" where
  "occurs_at s p i \<longleftrightarrow> i \<le> length s \<and> starts_with (drop i s) p"

text \<open>
  The reference: a product name stands in a value where it begins at the start or after a blank or a
  semicolon, and ends at the end or before a slash, a blank or a semicolon.
\<close>

definition named_at :: "bytes \<Rightarrow> bytes \<Rightarrow> nat \<Rightarrow> bool" where
  "named_at value name i \<longleftrightarrow>
     occurs_at value name i
     \<and> (i = 0 \<or> value ! (i - 1) = 0x20 \<or> value ! (i - 1) = 0x3B)
     \<and> (length value \<le> i + length name \<or> value ! (i + length name) = 0x2F
        \<or> value ! (i + length name) = 0x20 \<or> value ! (i + length name) = 0x3B)"

definition mentions :: "bytes \<Rightarrow> bytes \<Rightarrow> bool" where
  "mentions value name \<longleftrightarrow> list_ex (named_at value name) [0..<Suc (length value)]"

definition product_name :: "bytes \<Rightarrow> bool" where
  "product_name name \<longleftrightarrow> name \<noteq> [] \<and> 0x20 \<notin> set name \<and> 0x3B \<notin> set name"

definition is_ascii :: "bytes \<Rightarrow> bool" where
  "is_ascii s \<longleftrightarrow> list_all (\<lambda>b. b < 0x80) s"

definition ua_rule :: "(bytes \<times> 'a) list \<Rightarrow> 'a \<Rightarrow> 'a AclUserAgentRule" where
  "ua_rule names missed = fold (\<lambda>(n, a). AclUserAgentRule_add_ua_name n a) names (AclUserAgentRule_new missed)"

lemma occurs_at_Cons:
  "occurs_at (b # s) p i \<longleftrightarrow> (if i = 0 then starts_with (b # s) p else occurs_at s p (i - 1))"
  by (cases i) (auto simp: occurs_at_def)

lemma str_find_first:
  "case str_find p s of
     None \<Rightarrow> \<forall>i. \<not> occurs_at s p i
   | Some i \<Rightarrow> occurs_at s p i \<and> (\<forall>j. occurs_at s p j \<longrightarrow> i \<le> j)"
proof (induction p s rule: str_find.induct)
  case (2 p b s)
  show ?case
  proof (cases "starts_with (b # s) p")
    case False
    then have shift: "occurs_at (b # s) p i \<longleftrightarrow> (\<exists>j. i = Suc j \<and> occurs_at s p j)" for i
      by (cases i) (simp_all add: occurs_at_Cons)
    with False 2 show ?thesis by (auto split: option.splits)
  qed (simp add: occurs_at_Cons)
qed (auto simp: occurs_at_def starts_with_def)

lemma occurs_at_drop: "o' \<le> length s \<Longrightarrow> occurs_at (drop o' s) p i \<longleftrightarrow> occurs_at s p (o' + i)"
  by (auto simp: occurs_at_def add.commute)

lemma occurs_at_nth: "occurs_at s p i \<Longrightarrow> j < length p \<Longrightarrow> s ! (i + j) \<in> set p \<and> i + length p \<le> length s"
proof -
  assume *: "occurs_at s p i" "j < length p"
  then have t: "take (length p) (drop i s) = p" "i \<le> length s" by (auto simp: occurs_at_def starts_with_def)
  then have "length p \<le> length s - i" by (metis length_drop length_take min.absorb_iff1 min.commute)
  then have "p ! j = s ! (i + j)" using t *(2) by (metis nth_drop nth_take)
  then show ?thesis using *(2) t \<open>length p \<le> length s - i\<close> by (metis nth_mem le_diff_conv2 add.commute)
qed

text \<open>After an occurrence that is not a mention, the next mention begins past its end.\<close>

lemma next_mention:
  assumes "product_name name" and "occurs_at value name i" and "named_at value name j" and "i < j"
  shows "i + length name < j"
proof (rule ccontr)
  assume "\<not> i + length name < j"
  then have "j - 1 - i < length name" using assms(4) by simp
  then have "value ! (i + (j - 1 - i)) \<in> set name" using occurs_at_nth [OF assms(2)] by blast
  then have "value ! (j - 1) \<in> set name" using assms(4) by simp
  then show False using assms(1,3,4) by (auto simp: named_at_def product_name_def)
qed

lemma ua_search_mentions:
  assumes "product_name name" and "is_ascii value"
  shows "ua_search value name offset = (Some (Ok (\<exists>i\<ge>offset. named_at value name i)) :: (bool, 'e) res option)"
proof (induction "length value - offset" arbitrary: offset rule: less_induct)
  case less
  have len: "0 < length name" using assms(1) by (simp add: product_name_def)
  show ?case
  proof (cases "offset < length value")
    case False
    have none: "\<not> named_at value name i" if "offset \<le> i" for i
    proof
      assume "named_at value name i"
      then have "i + length name \<le> length value"
        using occurs_at_nth [of "value" name i 0] len by (simp add: named_at_def)
      then show False using that len False by simp
    qed
    show ?thesis using False none by (auto simp: ua_search.simps [of "value" name offset])
  next
    case True
    have "value ! offset < 0x80" using assms(2) True by (auto simp: is_ascii_def list_all_length)
    then have from_ok: "str_from value offset = (Ok (drop offset value) :: (_, 'e) res)"
      by (simp add: str_from_def is_char_boundary_def utf8_cont_def True not_le)
    show ?thesis
    proof (cases "str_find name (drop offset value)")
      case None
      then have "\<not> occurs_at value name i" if "offset \<le> i" for i
        using str_find_first [where p = name and s = "drop offset value"] True that occurs_at_drop [of offset "value" name "i - offset"]
        by simp
      then show ?thesis using None True from_ok by (auto simp: ua_search.simps [of "value" name offset] named_at_def)
    next
      case (Some pos)
      define i where "i = offset + pos"
      have i: "occurs_at value name i"
        using str_find_first [where p = name and s = "drop offset value"] Some True by (simp add: occurs_at_drop i_def)
      have first: "i \<le> j" if "occurs_at value name j" "offset \<le> j" for j
        using str_find_first [where p = name and s = "drop offset value"] Some True that
          occurs_at_drop [of offset "value" name "j - offset"] by (force simp: i_def)
      have later: "(\<exists>j\<ge>offset. named_at value name j) \<longleftrightarrow> (\<exists>j\<ge>k. named_at value name j)"
        if not: "\<not> named_at value name i" and k: "offset \<le> k" "k \<le> offset + Suc (length name)" for k
      proof -
        have "k \<le> j" if j: "named_at value name j" "offset \<le> j" for j
        proof -
          have "i < j"
            using first [of j] j not by (auto simp: named_at_def le_less)
          then show ?thesis
            using next_mention [OF assms(1) i j(1)] k(2) by (simp add: i_def)
        qed
        then show ?thesis using k(1) by (meson order_trans)
      qed
      have step: "ua_search value name offset =
          (if i \<noteq> 0 \<and> value ! (i - 1) \<noteq> 0x20 \<and> value ! (i - 1) \<noteq> 0x3B
           then ua_search value name (offset + (length name + 1))
           else if i + length name < length value \<and> value ! (i + length name) \<noteq> 0x2F
             \<and> value ! (i + length name) \<noteq> 0x20 \<and> value ! (i + length name) \<noteq> 0x3B
           then ua_search value name (offset + length name)
           else (Some (Ok True) :: (bool, 'e) res option))"
        using True Some from_ok by (subst ua_search.simps) (simp add: i_def Let_def)
      have rest: "ua_search value name (offset + k)
          = (Some (Ok (\<exists>j\<ge>offset. named_at value name j)) :: (bool, 'e) res option)"
        if "\<not> named_at value name i" "0 < k" "k \<le> Suc (length name)" for k
        using less [of "offset + k"] later [of "offset + k"] that True by simp
      show ?thesis
      proof (cases "named_at value name i")
        case named: True
        then have "\<exists>j\<ge>offset. named_at value name j" by (intro exI [of _ i]) (simp add: i_def)
        then show ?thesis using named unfolding step by (auto simp: named_at_def)
      next
        case False
        then show ?thesis
          using i rest [OF False, of "length name"] rest [OF False, of "length name + 1"] len
          unfolding step by (auto simp: named_at_def)
      qed
    qed
  qed
qed

lemma named_at_range: "named_at value name i \<Longrightarrow> i \<le> length value"
  by (simp add: named_at_def occurs_at_def)

lemma mentions_iff: "mentions value name \<longleftrightarrow> (\<exists>i\<ge>0. named_at value name i)"
proof -
  have "i \<in> {0..<Suc (length value)}" if "named_at value name i" for i
    using named_at_range [OF that] by simp
  then show ?thesis unfolding mentions_def list_ex_iff set_upt by blast
qed

lemma ua_check_names_find:
  assumes "\<forall>e\<in>set es. product_name (fst e)" and "is_ascii value"
  shows "ua_check_names value m es
    = (Some (Ok (case List.find (\<lambda>e. mentions value (fst e)) es of
                   Some e \<Rightarrow> (True, snd e) | None \<Rightarrow> (False, m))) :: (bool \<times> 'a, 'e) res option)"
  using assms(1)
proof (induction es)
  case (Cons e es)
  then have "ua_search value (fst e) 0 = (Some (Ok (mentions value (fst e))) :: (bool, 'e) res option)"
    using ua_search_mentions [of "fst e" "value" 0, where 'e = 'e] assms(2) by (simp add: mentions_iff)
  then show ?case using Cons by auto
qed simp

lemma ua_rule_simps:
  "UA_inner (ua_rule names m) = fold (\<lambda>(n, a). btree_put (to_ascii_lowercase n) a) names []"
  "UA_missed_action (ua_rule names m) = m"
  by (induction names rule: rev_induct)
    (auto simp: ua_rule_def AclUserAgentRule_new_def AclUserAgentRule_add_ua_name_def)

lemma btree_fold:
  "sorted_wrt (<) (map fst (fold (\<lambda>(n, a). btree_put (f n) a) es []))
   \<and> map_of (fold (\<lambda>(n, a). btree_put (f n) a) es []) = last_of (map (\<lambda>(n, a). (f n, a)) es)"
proof (induction es rule: rev_induct)
  case (snoc e es)
  then show ?case
    using btree_put_sorted [of "fold (\<lambda>(n, a). btree_put (f n) a) es []"]
      btree_put_lookup [of "fold (\<lambda>(n, a). btree_put (f n) a) es []"]
    by (cases e) (auto simp: strict_sorted_iff)
qed simp

lemma unat_lower_byte: "unat (lower_byte b) = (if 65 \<le> unat b \<and> unat b \<le> 90 then unat b + 32 else unat b)"
  by (simp add: lower_byte_def unat_word_ariths word_le_nat_alt)

lemma lower_mem: "c < 0x41 \<Longrightarrow> c \<in> set (to_ascii_lowercase n) \<Longrightarrow> c \<in> set n"
proof -
  assume c: "c < 0x41" "c \<in> set (to_ascii_lowercase n)"
  then obtain b where b: "c = lower_byte b" "b \<in> set n" by (auto simp: to_ascii_lowercase_def)
  then have "unat c = unat b"
    using c(1) unat_lower_byte [of b] by (auto simp: word_less_nat_alt split: if_splits)
  then show ?thesis using b(2) word_unat_eq_iff [of c b] by simp
qed

lemma product_name_lower: "product_name n \<Longrightarrow> product_name (to_ascii_lowercase n)"
  using lower_mem [of "0x20" n] lower_mem [of "0x3B" n]
  by (auto simp: product_name_def) (simp add: to_ascii_lowercase_def)

lemma is_ascii_lower: "is_ascii v \<Longrightarrow> is_ascii (to_ascii_lowercase v)"
  by (auto simp: is_ascii_def to_ascii_lowercase_def list_all_iff word_less_nat_alt unat_lower_byte)

lemma ua_rule_keys: "fst ` set (UA_inner (ua_rule names m)) = to_ascii_lowercase ` fst ` set names"
proof -
  have eq: "map_of (UA_inner (ua_rule names m)) = last_of (map (\<lambda>(n, a). (to_ascii_lowercase n, a)) names)"
    using btree_fold [of to_ascii_lowercase names] by (simp add: ua_rule_simps)
  show ?thesis
    using last_of_dom [of "map (\<lambda>(n, a). (to_ascii_lowercase n, a)) names"]
    unfolding eq [symmetric] map_of_eq_None_iff
    by (simp add: set_eq_iff image_iff case_prod_beta)
qed

lemma ua_rule_products:
  assumes "\<forall>n\<in>set names. product_name (fst n)"
  shows "\<forall>e\<in>set (UA_inner (ua_rule names m)). product_name (fst e)"
proof -
  have "\<forall>k\<in>fst ` set (UA_inner (ua_rule names m)). product_name k"
    unfolding ua_rule_keys using assms product_name_lower by auto
  then show ?thesis by simp
qed

text \<open>
  The reference for a list of rules: of the lower case names that the lower case value mentions the
  first in byte order decides, by the last action given for it.
\<close>

definition agent_decide :: "(bytes \<times> 'a) list \<Rightarrow> bytes \<Rightarrow> 'a option" where
  "agent_decide names ua_value =
     (let rules = map (\<lambda>(n, a). (to_ascii_lowercase n, a)) names;
          named = filter (mentions (to_ascii_lowercase ua_value)) (map fst rules)
      in if named = [] then None else last_of rules (Min (set named)))"

lemma agent_check_decides:
  assumes "\<forall>n\<in>set names. product_name (fst n)" and "is_ascii ua_value"
  shows "AclUserAgentRule_check (ua_rule names missed) ua_value
      = (Some (Ok (decision (agent_decide names ua_value) missed)) :: (bool \<times> 'a, 'e) res option)"
proof -
  define v where "v = to_ascii_lowercase ua_value"
  define rules where "rules = map (\<lambda>(n, a). (to_ascii_lowercase n, a)) names"
  define named where "named = filter (mentions v) (map fst rules)"
  define es where "es = UA_inner (ua_rule names missed)"
  have es: "sorted_wrt (<) (map fst es)" "map_of es = last_of rules"
    using btree_fold [of to_ascii_lowercase names] by (simp_all add: es_def ua_rule_simps rules_def)
  have keys: "fst ` set es = fst ` set rules"
    unfolding es_def ua_rule_keys by (force simp: rules_def)
  have check: "AclUserAgentRule_check (ua_rule names missed) ua_value
      = (Some (Ok (case List.find (\<lambda>e. mentions v (fst e)) es of
                     Some e \<Rightarrow> (True, snd e) | None \<Rightarrow> (False, missed))) :: (bool \<times> 'a, 'e) res option)"
    using ua_check_names_find [OF ua_rule_products [OF assms(1)] is_ascii_lower [OF assms(2)], of missed]
    by (simp add: AclUserAgentRule_check_def es_def v_def ua_rule_simps)
  have named: "set named = {k \<in> fst ` set es. mentions v k}"
    unfolding keys by (auto simp: named_def)
  have decide: "agent_decide names ua_value = (if named = [] then None else last_of rules (Min (set named)))"
    by (simp add: agent_decide_def rules_def named_def v_def Let_def)
  show ?thesis
  proof (cases "List.find (\<lambda>e. mentions v (fst e)) es")
    case None
    then have "set named = {}" unfolding named by (auto simp: find_None_iff)
    then show ?thesis unfolding check decide None by (simp add: decision_def)
  next
    case (Some e)
    note e = sorted_find [OF es(1) Some]
    have "Min (set named) = fst e"
      using e unfolding named by (intro Min_eqI) auto
    moreover have "named \<noteq> []" using e named by (metis (mono_tags, lifting) empty_iff imageI list.set(1) mem_Collect_eq)
    moreover have "map_of es (fst e) = Some (snd e)" using e es(1) by (simp add: strict_sorted_iff)
    ultimately show ?thesis unfolding check decide Some by (simp add: decision_def flip: es(2))
  qed
qed


definition example_agents :: "(bytes \<times> AclAction) list" where
  "example_agents = [(ascii ''Curl'', Forbid), (ascii ''bot'', ForbidAndLog)]"


lemma ua_search_empty:
  assumes "b \<noteq> 0x2F" "b \<noteq> 0x20" "b \<noteq> 0x3B"
  shows "ua_search [b] [] 0 = (None :: (bool, 'e) res option)"
proof (cases "ua_search [b] [] 0 :: (bool, 'e) res option")
  case (Some r)
  have "\<not> ([b] = [b] \<and> ([] :: bytes) = [] \<and> (0 :: nat) = 0)"
  proof (rule ua_search.raw_induct [where P = "\<lambda>v n k r. \<not> (v = [b] \<and> n = [] \<and> k = 0)", OF _ Some])
    fix f :: "bytes \<Rightarrow> bytes \<Rightarrow> nat \<Rightarrow> (bool, 'e) res option" and v n k y
    assume IH: "\<And>v n k y. f v n k = Some y \<Longrightarrow> \<not> (v = [b] \<and> n = [] \<and> k = 0)"
      and body: "(if k < length v
        then (case str_from v k of
           Ok vs \<Rightarrow>
             (case str_find n vs of
                None \<Rightarrow> Some (Ok False)
              | Some pos \<Rightarrow>
                  (let pos_pre = k + pos; pos_next = k + pos + length n in
                   if pos_pre \<noteq> 0 \<and> v ! (pos_pre - 1) \<noteq> 0x20 \<and> v ! (pos_pre - 1) \<noteq> 0x3B
                   then f v n (k + (length n + 1))
                   else if pos_next < length v \<and> v ! pos_next \<noteq> 0x2F
                     \<and> v ! pos_next \<noteq> 0x20 \<and> v ! pos_next \<noteq> 0x3B
                   then f v n (k + length n)
                   else Some (Ok True)))
         | Err e \<Rightarrow> Some (Err e)
         | Panic \<Rightarrow> Some Panic)
        else Some (Ok False)) = Some y"
    show "\<not> (v = [b] \<and> n = [] \<and> k = 0)"
    proof
      assume "v = [b] \<and> n = [] \<and> k = 0"
      then have "f [b] [] 0 = Some y"
        using body assms by (simp add: str_from_def is_char_boundary_def starts_with_def)
      then show False using IH by blast
    qed
  qed
  then show ?thesis by simp
qed

text \<open>
  Where the search does not hold up. The empty name, which a configuration may hold, makes the check of the value \<open>a\<close> run forever. And the search moves its offset by the length of the name from where the last search began, not from where it found the name: for the name \<open>curl\<close> and a well-formed UTF-8 value with an accented letter before \<open>curl\<close> the next slice begins inside the letter, and the check panics.
\<close>

theorem user_agent_check_hazards:
  "AclUserAgentRule_check (ua_rule [([], Forbid)] Permit) (ascii ''a'')
     = (None :: (bool \<times> AclAction, 'e) res option)
   \<and> (let v = ascii ''xxxx'' @ [0xC3, 0xA9] @ ascii ''curl'' in
      utf8_valid v
      \<and> AclUserAgentRule_check (ua_rule [(ascii ''curl'', Forbid)] Permit) v
          = (Some Panic :: (bool \<times> AclAction, 'e) res option))"
proof -
  have "ua_search (to_ascii_lowercase (ascii ''a'')) [] 0 = (None :: (bool, 'e) res option)"
    using ua_search_empty [of "0x61"] by (simp add: to_ascii_lowercase_def lower_byte_def ascii_def)
  then have "AclUserAgentRule_check (ua_rule [([], Forbid)] Permit) (ascii ''a'')
      = (None :: (bool \<times> AclAction, 'e) res option)"
    by (simp add: AclUserAgentRule_check_def ua_rule_simps to_ascii_lowercase_def)
  moreover have "utf8_valid (ascii ''xxxx'' @ [0xC3, 0xA9] @ ascii ''curl'')"
    by (simp add: ascii_def utf8_cont_def)
  moreover have "AclUserAgentRule_check (ua_rule [(ascii ''curl'', Forbid)] Permit)
      (ascii ''xxxx'' @ [0xC3, 0xA9] @ ascii ''curl'') = (Some Panic :: (bool \<times> AclAction, 'e) res option)"
    by (simp add: AclUserAgentRule_check_def ua_rule_simps to_ascii_lowercase_def lower_byte_def ascii_def
        ua_search.simps str_from_def is_char_boundary_def utf8_cont_def starts_with_def)
  ultimately show ?thesis by (simp add: Let_def)
qed

end
