(* ===== verification/User_Access.thy ===== *)
theory User_Access
  imports Acl_Policy Acl_User_Agent Gauge_Semaphore Rate_Limiter
begin

text \<open>
  The checks a request of a user passes before it is forwarded: \<open>g3proxy/src/auth/user.rs\<close>, the server
  rules of \<open>serve/http_proxy/task/common.rs\<close> and their order in \<open>task/forward/task.rs\<close>. They call
  the access control rules, the rate limiters and the semaphore of the libraries. What the checks
  change is one state: the cells of the limiters, the gauges of the semaphores and the counters of
  forbidden requests. A call to a limiter or a semaphore is its atomic form, which the theories
  \<open>Rate_Limiter\<close> and \<open>Gauge_Semaphore\<close> show it to be under every interleaving.
\<close>

section \<open>Users and their state\<close>

text \<open>One counter for each field of \<open>UserForbiddenStats\<close> that is counted up; \<open>fetch_add\<close> wraps around.\<close>

datatype forbid_counter = auth_failed | user_expired | user_blocked | fully_loaded | rate_limited
  | proto_banned | src_blocked | dest_denied | ip_blocked | ua_blocked | log_skipped

type_synonym UserForbiddenStats = "forbid_counter \<Rightarrow> u64"

definition UserForbiddenStats_new :: UserForbiddenStats where
  "UserForbiddenStats_new = (\<lambda>c. 0)"

record access_state =
  AS_tats :: "nat \<Rightarrow> nat"
  AS_gauges :: gauges
  AS_forbid_stats :: UserForbiddenStats
  AS_server_dest_denied :: u64
  AS_is_expired :: bool
  AS_is_blocked :: bool

definition add_forbidden :: "forbid_counter \<Rightarrow> access_state \<Rightarrow> access_state" where
  "add_forbidden c st =
     st\<lparr>AS_forbid_stats := (AS_forbid_stats st)(c := AS_forbid_stats st c + 1)\<rparr>"

datatype UserType = Static | Dynamic | Unmanaged | Anonymous

fun UserType_is_anonymous :: "UserType \<Rightarrow> bool" where
  "UserType_is_anonymous Anonymous = True"
| "UserType_is_anonymous _ = False"

datatype 'h PasswordToken = Forbidden | SkipVerify | FastHash 'h | XCrypt 'h

text \<open>The fields of \<open>UserConfig\<close> that the checks read; a date is a number.\<close>

record ('h, 'n) UserConfig =
  UC_password_token :: "'h PasswordToken"
  UC_expire_datetime :: "nat option"
  UC_block_and_delay :: "nat option"
  UC_request_rate_limit :: "RateLimitQuota option"
  UC_connection_rate_limit :: "RateLimitQuota option"
  UC_log_rate_limit :: "RateLimitQuota option"
  UC_request_alive_max :: nat
  UC_ingress_net_filter :: "('n, AclAction) AclNetworkRuleBuilder option"
  UC_proxy_request_filter :: "AclAction AclProxyRequestRule option"
  UC_dst_host_filter :: "('n, AclAction) AclDstHostRuleSetBuilder option"
  UC_dst_port_filter :: "AclAction AclExactPortRule option"
  UC_http_user_agent_filter :: "AclAction AclUserAgentRule option"

definition UserConfig_is_expired :: "('h, 'n) UserConfig \<Rightarrow> nat \<Rightarrow> bool" where
  "UserConfig_is_expired self dt_now =
     (case UC_expire_datetime self of Some dt_expire \<Rightarrow> dt_expire < dt_now | None \<Rightarrow> False)"

text \<open>The two hash libraries verify a password or fail, which the \<open>unwrap\<close> turns into a panic.\<close>

definition UserConfig_check_password ::
  "('h \<Rightarrow> bytes \<Rightarrow> bool option) \<Rightarrow> ('h \<Rightarrow> bytes \<Rightarrow> bool option) \<Rightarrow> ('h, 'n) UserConfig \<Rightarrow> bytes
   \<Rightarrow> (bool, 'e) res" where
  "UserConfig_check_password fast_verify xcrypt_verify self password =
     (case UC_password_token self of
        Forbidden \<Rightarrow> Ok False
      | SkipVerify \<Rightarrow> Ok True
      | FastHash h \<Rightarrow> (case fast_verify h password of Some b \<Rightarrow> Ok b | None \<Rightarrow> Panic)
      | XCrypt h \<Rightarrow> (case xcrypt_verify h password of Some b \<Rightarrow> Ok b | None \<Rightarrow> Panic))"

text \<open>A shared limiter is its constants and the cell of its state.\<close>

record Limiter =
  LM_limiter :: RateLimiter
  LM_cell :: nat

record ('ct, 'rt, 'r, 'nt, 'n, 'h) User =
  U_config :: "('h, 'n) UserConfig"
  U_request_rate_limit :: "Limiter option"
  U_connection_rate_limit :: "Limiter option"
  U_log_rate_limit :: "Limiter option"
  U_ingress_net_filter :: "('nt, AclAction) AclNetworkRule option"
  U_dst_host_filter :: "('ct, 'rt, 'r, 'nt, AclAction) AclDstHostRuleSet option"
  U_req_alive_sem :: GaugeSemaphore

type_synonym ('ct, 'rt, 'r, 'nt, 'n) crates = "('ct, 'rt, 'r, 'nt, 'n, AclAction) acl_crates"

section \<open>Making and reloading a user\<close>

definition User_update_ingress_net_filter ::
  "('ct, 'rt, 'r, 'nt, 'n) crates \<Rightarrow> ('ct, 'rt, 'r, 'nt, 'n, 'h) User \<Rightarrow> ('ct, 'rt, 'r, 'nt, 'n, 'h) User" where
  "User_update_ingress_net_filter C self =
     self\<lparr>U_ingress_net_filter :=
       map_option (AclNetworkRuleBuilder_build (net_tables C)) (UC_ingress_net_filter (U_config self))\<rparr>"

definition User_update_dst_host_filter ::
  "('ct, 'rt, 'r, 'nt, 'n) crates \<Rightarrow> ('ct, 'rt, 'r, 'nt, 'n, 'h) User
   \<Rightarrow> (('ct, 'rt, 'r, 'nt, 'n, 'h) User, 'e) res" where
  "User_update_dst_host_filter C self =
     res_bind (map_option_res (AclDstHostRuleSetBuilder_build C) (UC_dst_host_filter (U_config self)))
       (\<lambda>rules. Ok (self\<lparr>U_dst_host_filter := rules\<rparr>))"

text \<open>\<open>RateLimiter::new_global\<close> in a cell that no limiter uses; a fresh state is 0.\<close>

definition new_global :: "nat \<Rightarrow> nat \<Rightarrow> RateLimitQuota \<Rightarrow> access_state \<Rightarrow> access_state \<times> Limiter" where
  "new_global now cell quota st =
     (st\<lparr>AS_tats := (AS_tats st)(cell := 0)\<rparr>,
      \<lparr>LM_limiter = RateLimiter_with_state now quota, LM_cell = cell\<rparr>)"

definition new_limiter ::
  "nat \<Rightarrow> nat \<Rightarrow> RateLimitQuota option \<Rightarrow> access_state \<Rightarrow> access_state \<times> Limiter option" where
  "new_limiter now cell config st =
     (case config of
        None \<Rightarrow> (st, None)
      | Some quota \<Rightarrow> (let (st, limiter) = new_global now cell quota st in (st, Some limiter)))"

text \<open>
  \<open>User::new_with_name\<close>: the cells \<open>a\<close>, \<open>a + 1\<close> and \<open>a + 2\<close> and the gauge \<open>a\<close> are fresh. Names,
  statistics, speed limits, sites and the resolution of names are left out.
\<close>

definition User_new ::
  "('ct, 'rt, 'r, 'nt, 'n) crates \<Rightarrow> nat \<Rightarrow> nat \<Rightarrow> ('h, 'n) UserConfig \<Rightarrow> nat \<Rightarrow> access_state
   \<Rightarrow> access_state \<times> (('ct, 'rt, 'r, 'nt, 'n, 'h) User, 'e) res" where
  "User_new C now a config datetime_now st =
     (let (st, request_rate_limit) = new_limiter now a (UC_request_rate_limit config) st;
          (st, connection_rate_limit) = new_limiter now (a + 1) (UC_connection_rate_limit config) st;
          (st, log_rate_limit) = new_limiter now (a + 2) (UC_log_rate_limit config) st;
          st = st\<lparr>AS_is_expired := UserConfig_is_expired config datetime_now,
                   AS_is_blocked := (UC_block_and_delay config \<noteq> None)\<rparr>;
          (gauges, sem) = GaugeSemaphore_new (AS_gauges st) a (UC_request_alive_max config);
          st = st\<lparr>AS_gauges := gauges\<rparr>;
          user = \<lparr>U_config = config, U_request_rate_limit = request_rate_limit,
                  U_connection_rate_limit = connection_rate_limit, U_log_rate_limit = log_rate_limit,
                  U_ingress_net_filter = None, U_dst_host_filter = None, U_req_alive_sem = sem\<rparr>
      in (st, User_update_dst_host_filter C (User_update_ingress_net_filter C user)))"

text \<open>
  The limiter of a reloaded user: the old one when the quota is the same, else a new one. A limiter
  without a quota in the old configuration is unreachable.
\<close>

definition reload_limiter ::
  "nat \<Rightarrow> nat \<Rightarrow> RateLimitQuota option \<Rightarrow> Limiter option \<Rightarrow> RateLimitQuota option \<Rightarrow> access_state
   \<Rightarrow> access_state \<times> (Limiter option, 'e) res" where
  "reload_limiter now cell config old_limiter old_config st =
     (case config of
        None \<Rightarrow> (st, Ok None)
      | Some quota \<Rightarrow>
          (case old_limiter of
             Some old \<Rightarrow>
               (case old_config of
                  Some old_quota \<Rightarrow>
                    if quota = old_quota then (st, Ok (Some old))
                    else (let (st, limiter) = new_global now cell quota st in (st, Ok (Some limiter)))
                | None \<Rightarrow> (st, Panic))
           | None \<Rightarrow> (let (st, limiter) = new_global now cell quota st in (st, Ok (Some limiter)))))"

definition st_bind ::
  "access_state \<times> ('a, 'e) res \<Rightarrow> ('a \<Rightarrow> access_state \<Rightarrow> access_state \<times> ('b, 'e) res)
   \<Rightarrow> access_state \<times> ('b, 'e) res" where
  "st_bind m f =
     (case m of
        (st, Ok x) \<Rightarrow> f x st
      | (st, Err e) \<Rightarrow> (st, Err e)
      | (st, Panic) \<Rightarrow> (st, Panic))"

text \<open>
  \<open>User::new_for_reload\<close>; filters are built again only when their configuration changed. The state
  shows the expiry flag of the user made last; the flag of blocked users is shared with the old one,
  and set by \<open>fetch_or\<close> and \<open>fetch_and\<close>.
\<close>

definition User_new_for_reload ::
  "('ct, 'rt, 'r, 'nt, 'n) crates \<Rightarrow> nat \<Rightarrow> nat \<Rightarrow> ('ct, 'rt, 'r, 'nt, 'n, 'h) User
   \<Rightarrow> ('h, 'n) UserConfig \<Rightarrow> nat \<Rightarrow> access_state
   \<Rightarrow> access_state \<times> (('ct, 'rt, 'r, 'nt, 'n, 'h) User, 'e) res" where
  "User_new_for_reload C now a self config datetime_now st =
     (let old = U_config self in
      st_bind (reload_limiter now a (UC_request_rate_limit config) (U_request_rate_limit self)
                 (UC_request_rate_limit old) st) (\<lambda>request_rate_limit st.
      st_bind (reload_limiter now (a + 1) (UC_connection_rate_limit config) (U_connection_rate_limit self)
                 (UC_connection_rate_limit old) st) (\<lambda>connection_rate_limit st.
      st_bind (reload_limiter now (a + 2) (UC_log_rate_limit config) (U_log_rate_limit self)
                 (UC_log_rate_limit old) st) (\<lambda>log_rate_limit st.
      let st = st\<lparr>AS_is_expired := UserConfig_is_expired config datetime_now,
                   AS_is_blocked := (if UC_block_and_delay config \<noteq> None then AS_is_blocked st \<or> True
                                     else AS_is_blocked st \<and> False)\<rparr>;
          user = \<lparr>U_config = config, U_request_rate_limit = request_rate_limit,
                  U_connection_rate_limit = connection_rate_limit, U_log_rate_limit = log_rate_limit,
                  U_ingress_net_filter = None, U_dst_host_filter = None,
                  U_req_alive_sem =
                    GaugeSemaphore_new_updated (U_req_alive_sem self) (UC_request_alive_max config)\<rparr>;
          user =
            (if UC_ingress_net_filter old \<noteq> UC_ingress_net_filter config
             then User_update_ingress_net_filter C user
             else user\<lparr>U_ingress_net_filter := U_ingress_net_filter self\<rparr>)
      in if UC_dst_host_filter old \<noteq> UC_dst_host_filter config
         then (st, User_update_dst_host_filter C user)
         else (st, Ok (user\<lparr>U_dst_host_filter := U_dst_host_filter self\<rparr>))))))"

section \<open>The checks of a user\<close>

definition User_is_blocked :: "access_state \<Rightarrow> bool" where
  "User_is_blocked st = AS_is_blocked st"

text \<open>\<open>AtomicBool::swap\<close> in \<open>check_expired\<close>.\<close>

definition User_check_expired ::
  "('ct, 'rt, 'r, 'nt, 'n, 'h) User \<Rightarrow> nat \<Rightarrow> access_state \<Rightarrow> access_state \<times> bool" where
  "User_check_expired self datetime_now st =
     (if UserConfig_is_expired (U_config self) datetime_now
      then (st\<lparr>AS_is_expired := True\<rparr>, True) else (st, False))"

datatype UserAuthError = NoUserSupplied | NoSuchUser | TokenNotMatch | ExpiredUser | BlockedUser nat
  | BlockedSrcIp IpAddr | RemoteTimeout | RemoteError

definition User_check_client_addr ::
  "('ct, 'rt, 'r, 'nt, 'n) crates \<Rightarrow> ('ct, 'rt, 'r, 'nt, 'n, 'h) User \<Rightarrow> IpAddr \<Rightarrow> access_state
   \<Rightarrow> access_state \<times> (unit, UserAuthError) res" where
  "User_check_client_addr C self addr st =
     (case U_ingress_net_filter self of
        None \<Rightarrow> (st, Ok ())
      | Some rules \<Rightarrow>
          (let (found, action) = AclNetworkRule_check (net_tables C) rules addr in
           if AclAction_forbid_early action
           then (add_forbidden src_blocked st, Err (BlockedSrcIp addr)) else (st, Ok ())))"

definition User_check_anonymous_client_addr ::
  "('ct, 'rt, 'r, 'nt, 'n) crates \<Rightarrow> ('ct, 'rt, 'r, 'nt, 'n, 'h) User \<Rightarrow> IpAddr
   \<Rightarrow> (unit, UserAuthError) res" where
  "User_check_anonymous_client_addr C self addr =
     (case U_ingress_net_filter self of
        None \<Rightarrow> Ok ()
      | Some rules \<Rightarrow>
          (let (found, action) = AclNetworkRule_check (net_tables C) rules addr in
           if AclAction_forbid_early action then Err (BlockedSrcIp addr) else Ok ()))"

definition User_check_password ::
  "('h \<Rightarrow> bytes \<Rightarrow> bool option) \<Rightarrow> ('h \<Rightarrow> bytes \<Rightarrow> bool option) \<Rightarrow> ('ct, 'rt, 'r, 'nt, 'n, 'h) User
   \<Rightarrow> bytes \<Rightarrow> access_state \<Rightarrow> access_state \<times> (unit, UserAuthError) res" where
  "User_check_password fast_verify xcrypt_verify self password st =
     st_bind (st, UserConfig_check_password fast_verify xcrypt_verify (U_config self) password) (\<lambda>matches st.
     if \<not> matches then (add_forbidden auth_failed st, Err TokenNotMatch)
     else if AS_is_expired st then (add_forbidden user_expired st, Err ExpiredUser)
     else
       (case UC_block_and_delay (U_config self) of
          Some duration \<Rightarrow> (add_forbidden user_blocked st, Err (BlockedUser duration))
        | None \<Rightarrow> (st, Ok ())))"

text \<open>\<open>limit.check()\<close> on the cell of a limiter.\<close>

definition Limiter_check :: "Limiter \<Rightarrow> nat \<Rightarrow> access_state \<Rightarrow> access_state \<times> (unit, nat) res" where
  "Limiter_check self now st =
     (let (tat, r) = RateLimiter_check (LM_limiter self) now (AS_tats st (LM_cell self)) in
      (st\<lparr>AS_tats := (AS_tats st)(LM_cell self := tat)\<rparr>, r))"

definition User_skip_log ::
  "('ct, 'rt, 'r, 'nt, 'n, 'h) User \<Rightarrow> nat \<Rightarrow> access_state \<Rightarrow> access_state \<times> (bool, 'e) res" where
  "User_skip_log self now st =
     (case U_log_rate_limit self of
        None \<Rightarrow> (st, Ok False)
      | Some limit \<Rightarrow>
          (case Limiter_check limit now st of
             (st, Ok u) \<Rightarrow> (st, Ok False)
           | (st, Err wait) \<Rightarrow> (add_forbidden log_skipped st, Ok True)
           | (st, Panic) \<Rightarrow> (st, Panic)))"

definition limit_or_forbid :: "Limiter option \<Rightarrow> nat \<Rightarrow> access_state \<Rightarrow> access_state \<times> (unit, unit) res" where
  "limit_or_forbid limiter now st =
     (case limiter of
        None \<Rightarrow> (st, Ok ())
      | Some limit \<Rightarrow>
          (case Limiter_check limit now st of
             (st, Ok u) \<Rightarrow> (st, Ok ())
           | (st, Err wait) \<Rightarrow> (add_forbidden rate_limited st, Err ())
           | (st, Panic) \<Rightarrow> (st, Panic)))"

definition User_check_rate_limit ::
  "('ct, 'rt, 'r, 'nt, 'n, 'h) User \<Rightarrow> nat \<Rightarrow> bool \<Rightarrow> access_state \<Rightarrow> access_state \<times> (unit, unit) res" where
  "User_check_rate_limit self now reused_connection st =
     st_bind (if \<not> reused_connection then limit_or_forbid (U_connection_rate_limit self) now st else (st, Ok ()))
       (\<lambda>u st. limit_or_forbid (U_request_rate_limit self) now st)"

definition User_acquire_request_semaphore ::
  "('ct, 'rt, 'r, 'nt, 'n, 'h) User \<Rightarrow> access_state \<Rightarrow> access_state \<times> (GaugeSemaphorePermit, unit) res" where
  "User_acquire_request_semaphore self st =
     (let (gauges, r) = try_acquire (AS_gauges st) (U_req_alive_sem self);
          st = st\<lparr>AS_gauges := gauges\<rparr>
      in case r of
           Ok permit \<Rightarrow> (st, Ok permit)
         | Err e \<Rightarrow> (add_forbidden fully_loaded st, Err ())
         | Panic \<Rightarrow> (st, Panic))"

definition User_check_proxy_request ::
  "('ct, 'rt, 'r, 'nt, 'n, 'h) User \<Rightarrow> ProxyRequestType \<Rightarrow> access_state \<Rightarrow> access_state \<times> AclAction" where
  "User_check_proxy_request self request st =
     (case UC_proxy_request_filter (U_config self) of
        Some rules \<Rightarrow>
          (let (found, action) = AclProxyRequestRule_check_request rules request in
           (if AclAction_forbid_early action then add_forbidden proto_banned st else st, action))
      | None \<Rightarrow> (st, Permit))"

record UpstreamAddr =
  UP_host :: Host
  UP_port :: u16

text \<open>The second half of \<open>check_upstream\<close>, from the host rules on.\<close>

definition User_check_dst_host ::
  "('ct, 'rt, 'r, 'nt, 'n) crates \<Rightarrow> ('ct, 'rt, 'r, 'nt, 'n, 'h) User \<Rightarrow> UpstreamAddr \<Rightarrow> AclAction
   \<Rightarrow> access_state \<Rightarrow> access_state \<times> (AclAction, 'e) res" where
  "User_check_dst_host C self upstream default_action st =
     (case U_dst_host_filter self of
        None \<Rightarrow>
          (if AclAction_forbid_early default_action then add_forbidden dest_denied st else st,
           Ok default_action)
      | Some rules \<Rightarrow>
          st_bind (st, AclDstHostRuleSet_check C rules (UP_host upstream)) (\<lambda>(found, action) st.
          if found \<and> AclAction_forbid_early action then (add_forbidden dest_denied st, Ok action)
          else
            (let default_action = AclAction_restrict default_action action in
             (if AclAction_forbid_early default_action then add_forbidden dest_denied st else st,
              Ok default_action))))"

definition User_check_upstream ::
  "('ct, 'rt, 'r, 'nt, 'n) crates \<Rightarrow> ('ct, 'rt, 'r, 'nt, 'n, 'h) User \<Rightarrow> UpstreamAddr \<Rightarrow> access_state
   \<Rightarrow> access_state \<times> (AclAction, 'e) res" where
  "User_check_upstream C self upstream st =
     (case UC_dst_port_filter (U_config self) of
        Some rules \<Rightarrow>
          (let (found, action) = AclExactPortRule_check_port rules (UP_port upstream) in
           if found \<and> AclAction_forbid_early action then (add_forbidden dest_denied st, Ok action)
           else User_check_dst_host C self upstream (AclAction_restrict Permit action) st)
      | None \<Rightarrow> User_check_dst_host C self upstream Permit st)"

text \<open>
  The loop of \<open>check_http_user_agent\<close> over the values of the header. \<open>None\<close> is a search that does
  not end.
\<close>

primrec ua_header_loop ::
  "AclAction AclUserAgentRule \<Rightarrow> bytes list \<Rightarrow> AclAction \<Rightarrow> access_state
   \<Rightarrow> (access_state \<times> (AclAction, 'e) res) option" where
  "ua_header_loop rules [] default_action st = Some (st, Ok default_action)"
| "ua_header_loop rules (v # vs) default_action st =
     (case AclUserAgentRule_check rules v of
        None \<Rightarrow> None
      | Some Panic \<Rightarrow> Some (st, Panic)
      | Some (Err e) \<Rightarrow> Some (st, Err e)
      | Some (Ok (found, action)) \<Rightarrow>
          if found
          then if AclAction_forbid_early action then Some (add_forbidden ua_blocked st, Ok action)
               else ua_header_loop rules vs (AclAction_restrict default_action action) st
          else ua_header_loop rules vs default_action st)"

definition User_check_http_user_agent ::
  "('ct, 'rt, 'r, 'nt, 'n, 'h) User \<Rightarrow> bytes list \<Rightarrow> access_state
   \<Rightarrow> (access_state \<times> (AclAction option, 'e) res) option" where
  "User_check_http_user_agent self user_agents st =
     (case UC_http_user_agent_filter (U_config self) of
        Some rules \<Rightarrow>
          map_option (\<lambda>(st, r). (st, res_bind r (\<lambda>action. Ok (Some action))))
            (ua_header_loop rules user_agents (UA_missed_action rules) st)
      | None \<Rightarrow> Some (st, Ok None))"

text \<open>\<open>UserContext\<close>: the user, its type, and whether the client connection is reused.\<close>

record ('ct, 'rt, 'r, 'nt, 'n, 'h) UserContext =
  CX_user :: "('ct, 'rt, 'r, 'nt, 'n, 'h) User"
  CX_user_type :: UserType
  CX_reused_client_connection :: bool

definition UserContext_mark_reused_client_connection ::
  "('ct, 'rt, 'r, 'nt, 'n, 'h) UserContext \<Rightarrow> ('ct, 'rt, 'r, 'nt, 'n, 'h) UserContext" where
  "UserContext_mark_reused_client_connection self = self\<lparr>CX_reused_client_connection := True\<rparr>"

definition UserContext_check_client_addr ::
  "('ct, 'rt, 'r, 'nt, 'n) crates \<Rightarrow> ('ct, 'rt, 'r, 'nt, 'n, 'h) UserContext \<Rightarrow> IpAddr \<Rightarrow> access_state
   \<Rightarrow> access_state \<times> (unit, UserAuthError) res" where
  "UserContext_check_client_addr C self addr st =
     (if UserType_is_anonymous (CX_user_type self)
      then (st, User_check_anonymous_client_addr C (CX_user self) addr)
      else User_check_client_addr C (CX_user self) addr st)"

definition UserContext_check_rate_limit ::
  "('ct, 'rt, 'r, 'nt, 'n, 'h) UserContext \<Rightarrow> nat \<Rightarrow> access_state \<Rightarrow> access_state \<times> (unit, unit) res" where
  "UserContext_check_rate_limit self now st =
     User_check_rate_limit (CX_user self) now (CX_reused_client_connection self) st"

section \<open>The admission of a request\<close>

text \<open>The server's own rules on the destination.\<close>

record ('ct, 'rt, 'r, 'nt) CommonTaskContext =
  TC_dst_port_filter :: "AclAction AclExactPortRule option"
  TC_dst_host_filter :: "('ct, 'rt, 'r, 'nt, AclAction) AclDstHostRuleSet option"

definition UpstreamAddr_is_empty :: "UpstreamAddr \<Rightarrow> bool" where
  "UpstreamAddr_is_empty self = Host_is_empty (UP_host self)"

definition CommonTaskContext_check_dst_host ::
  "('ct, 'rt, 'r, 'nt, 'n) crates \<Rightarrow> ('ct, 'rt, 'r, 'nt) CommonTaskContext \<Rightarrow> UpstreamAddr \<Rightarrow> AclAction
   \<Rightarrow> (AclAction, 'e) res" where
  "CommonTaskContext_check_dst_host C self upstream default_action =
     (case TC_dst_host_filter self of
        None \<Rightarrow> Ok default_action
      | Some rules \<Rightarrow>
          res_bind (AclDstHostRuleSet_check C rules (UP_host upstream)) (\<lambda>(found, action).
          if found \<and> AclAction_forbid_early action then Ok action
          else Ok (AclAction_restrict default_action action)))"

definition CommonTaskContext_check_upstream ::
  "('ct, 'rt, 'r, 'nt, 'n) crates \<Rightarrow> ('ct, 'rt, 'r, 'nt) CommonTaskContext \<Rightarrow> UpstreamAddr
   \<Rightarrow> (AclAction, 'e) res" where
  "CommonTaskContext_check_upstream C self upstream =
     (let default_action = (if UpstreamAddr_is_empty upstream then Forbid else Permit) in
      case TC_dst_port_filter self of
        Some rules \<Rightarrow>
          (let (found, action) = AclExactPortRule_check_port rules (UP_port upstream) in
           if found \<and> AclAction_forbid_early action then Ok action
           else CommonTaskContext_check_dst_host C self upstream (AclAction_restrict default_action action))
      | None \<Rightarrow> CommonTaskContext_check_dst_host C self upstream default_action)"

datatype ServerTaskForbiddenError = MethodUnavailable | ClientIpBlocked | RateLimited | ProtoBanned
  | DestDenied | IpBlocked | FullyLoaded | UaBlocked | UserBlocked

text \<open>
  \<open>handle_server_upstream_acl_action\<close> counts for the server and the user; the handlers for the user's
  own rules only refuse. The replies they write are output.
\<close>

definition handle_server_upstream_acl_action ::
  "AclAction \<Rightarrow> access_state \<Rightarrow> access_state \<times> (unit, ServerTaskForbiddenError) res" where
  "handle_server_upstream_acl_action action st =
     (let forbid = (case action of Permit \<Rightarrow> False | PermitAndLog \<Rightarrow> False | Forbid \<Rightarrow> True | ForbidAndLog \<Rightarrow> True) in
      if forbid
      then (add_forbidden dest_denied (st\<lparr>AS_server_dest_denied := AS_server_dest_denied st + 1\<rparr>), Err DestDenied)
      else (st, Ok ()))"

definition handle_user_acl_action ::
  "ServerTaskForbiddenError \<Rightarrow> AclAction \<Rightarrow> access_state \<Rightarrow> access_state \<times> (unit, ServerTaskForbiddenError) res" where
  "handle_user_acl_action e action st =
     (let forbid = (case action of Permit \<Rightarrow> False | PermitAndLog \<Rightarrow> False | Forbid \<Rightarrow> True | ForbidAndLog \<Rightarrow> True) in
      if forbid then (st, Err e) else (st, Ok ()))"

record HttpProxyForwardTask =
  FT_is_https :: bool
  FT_upstream :: UpstreamAddr
  FT_user_agents :: "bytes list"
  FT_user_req_alive_permit :: "GaugeSemaphorePermit option"

text \<open>
  The first part of \<open>run_forward\<close> for a task with a user, up to the user's settings: whether the
  request goes on. The permit of the semaphore is kept in the task's notes.
\<close>

definition admit_user_rules ::
  "('ct, 'rt, 'r, 'nt, 'n) crates \<Rightarrow> ('ct, 'rt, 'r, 'nt) CommonTaskContext \<Rightarrow> ('ct, 'rt, 'r, 'nt, 'n, 'h) User
   \<Rightarrow> HttpProxyForwardTask \<Rightarrow> access_state
   \<Rightarrow> (access_state \<times> (unit, ServerTaskForbiddenError) res) option" where
  "admit_user_rules C ctx user task st =
     (let (st, action) = User_check_proxy_request user (if FT_is_https task then HttpsForward else HttpForward) st;
          m = st_bind (handle_user_acl_action ProtoBanned action st) (\<lambda>u st.
              st_bind (User_check_upstream C user (FT_upstream task) st) (\<lambda>action st.
              st_bind (handle_user_acl_action DestDenied action st) (\<lambda>u st.
              st_bind (st, CommonTaskContext_check_upstream C ctx (FT_upstream task)) (\<lambda>action st.
              handle_server_upstream_acl_action action st))))
      in case m of
           (st, Ok u) \<Rightarrow>
             map_option (\<lambda>m. st_bind m (\<lambda>r st.
               case r of Some action \<Rightarrow> handle_user_acl_action UaBlocked action st | None \<Rightarrow> (st, Ok ())))
               (User_check_http_user_agent user (FT_user_agents task) st)
         | (st, Err e) \<Rightarrow> Some (st, Err e)
         | (st, Panic) \<Rightarrow> Some (st, Panic))"

definition admit_user_request ::
  "('ct, 'rt, 'r, 'nt, 'n) crates \<Rightarrow> ('ct, 'rt, 'r, 'nt) CommonTaskContext
   \<Rightarrow> ('ct, 'rt, 'r, 'nt, 'n, 'h) UserContext \<Rightarrow> nat \<Rightarrow> HttpProxyForwardTask \<Rightarrow> access_state
   \<Rightarrow> (HttpProxyForwardTask \<times> access_state \<times> (unit, ServerTaskForbiddenError) res) option" where
  "admit_user_request C ctx user_ctx now task st =
     (case UserContext_check_rate_limit user_ctx now st of
        (st, Err u) \<Rightarrow> Some (task, st, Err RateLimited)
      | (st, Panic) \<Rightarrow> Some (task, st, Panic)
      | (st, Ok u) \<Rightarrow>
          (case User_acquire_request_semaphore (CX_user user_ctx) st of
             (st, Err u) \<Rightarrow> Some (task, st, Err FullyLoaded)
           | (st, Panic) \<Rightarrow> Some (task, st, Panic)
           | (st, Ok permit) \<Rightarrow>
               (let task = task\<lparr>FT_user_req_alive_permit := Some permit\<rparr> in
                map_option (\<lambda>(st, r). (task, st, r)) (admit_user_rules C ctx (CX_user user_ctx) task st))))"

definition HttpProxyForwardTask_post_stop ::
  "HttpProxyForwardTask \<Rightarrow> access_state \<Rightarrow> HttpProxyForwardTask \<times> access_state" where
  "HttpProxyForwardTask_post_stop task st =
     (case FT_user_req_alive_permit task of
        None \<Rightarrow> (task, st)
      | Some permit \<Rightarrow>
          (task\<lparr>FT_user_req_alive_permit := None\<rparr>,
           st\<lparr>AS_gauges := GaugeSemaphorePermit_drop (AS_gauges st) permit\<rparr>))"

section \<open>What each check decides\<close>

definition forbids :: "AclAction \<Rightarrow> bool" where
  "forbids a \<longleftrightarrow> a = Forbid \<or> a = ForbidAndLog"

lemma forbid_early_forbids [simp]: "AclAction_forbid_early a = forbids a"
  by (cases a) (simp_all add: forbids_def)

lemma forbids_le: "forbids a \<longleftrightarrow> a \<le> Forbid"
  by (cases a) (simp_all add: less_eq_AclAction_def forbids_def)

lemma forbids_simps [simp]:
  "forbids Forbid" "forbids ForbidAndLog" "\<not> forbids Permit" "\<not> forbids PermitAndLog"
  by (simp_all add: forbids_def)

lemma forbids_restrict [simp]: "forbids (AclAction_restrict a b) \<longleftrightarrow> forbids a \<or> forbids b"
  by (auto simp: AclAction_restrict_def forbids_le min_def)

text \<open>The action of the entry a filter holds for a value, else its missed action; no filter permits.\<close>

definition entry_action :: "('k, 'a) AclHashRule \<Rightarrow> 'k \<Rightarrow> 'a" where
  "entry_action r k = (case HR_inner r k of Some a \<Rightarrow> a | None \<Rightarrow> HR_missed_action r)"

definition port_action :: "AclAction AclExactPortRule option \<Rightarrow> u16 \<Rightarrow> AclAction" where
  "port_action rules port =
     (case rules of None \<Rightarrow> Permit | Some r \<Rightarrow> entry_action r port)"

definition proto_action :: "AclAction AclProxyRequestRule option \<Rightarrow> ProxyRequestType \<Rightarrow> AclAction" where
  "proto_action rules request =
     (case rules of None \<Rightarrow> Permit | Some r \<Rightarrow> entry_action (PR_request r) request)"

lemma check_entry_action:
  "snd (AclExactPortRule_check_port r port) = entry_action r port"
  "snd (AclProxyRequestRule_check_request q request) = entry_action (PR_request q) request"
  by (simp_all add: AclExactPortRule_check_port_def AclProxyRequestRule_check_request_def AclHashRule_check_def
      entry_action_def split: option.split)

text \<open>
  A host filter implements a policy when its verdicts are those of the policy's reference; by
  \<open>policy_implemented\<close> the rule set built from a policy does, see \<open>built_implements\<close> below.
\<close>

definition implements ::
  "('ct, 'rt, 'r, 'nt, 'n) crates \<Rightarrow> ('n \<Rightarrow> IpAddr \<times> nat) \<Rightarrow> (bytes \<Rightarrow> bytes \<Rightarrow> bool)
   \<Rightarrow> ('ct, 'rt, 'r, 'nt, AclAction) AclDstHostRuleSet option \<Rightarrow> 'n host_policy option \<Rightarrow> bool" where
  "implements C view re_match rules policy \<longleftrightarrow>
     (case (rules, policy) of
        (None, None) \<Rightarrow> True
      | (Some r, Some p) \<Rightarrow>
          (\<forall>host. AclDstHostRuleSet_check C r host
             = (Ok (decision (policy_decide view re_match p host) (policy_missed p))
                 :: (_, ServerTaskForbiddenError) res))
      | _ \<Rightarrow> False)"

definition host_action ::
  "('n \<Rightarrow> IpAddr \<times> nat) \<Rightarrow> (bytes \<Rightarrow> bytes \<Rightarrow> bool) \<Rightarrow> 'n host_policy option \<Rightarrow> Host \<Rightarrow> AclAction" where
  "host_action view re_match policy host =
     (case policy of
        None \<Rightarrow> Permit
      | Some p \<Rightarrow> (case policy_decide view re_match p host of Some a \<Rightarrow> a | None \<Rightarrow> policy_missed p))"

definition built_from ::
  "('ct, 'rt, 'r, 'nt, 'n) crates \<Rightarrow> 'n host_policy option
   \<Rightarrow> ('ct, 'rt, 'r, 'nt, AclAction) AclDstHostRuleSet option \<Rightarrow> bool" where
  "built_from C policy rules \<longleftrightarrow>
     map_option_res (AclDstHostRuleSetBuilder_build C) (map_option policy_builder policy)
       = (Ok rules :: (_, unit) res)"

lemma built_implements:
  fixes C :: "('ct, 'rt, 'r, 'nt, 'n) crates"
  assumes "radix_trie (child_trie C) child_content" and "radix_trie (regex_trie C) regex_content"
    and "regex_engine (regex_sets C) valid_regex re_match"
    and "network_table (net_tables C) view valid_net net_content"
    and "pred_option (policy_valid valid_regex valid_net) policy" and "built_from C policy rules"
  shows "implements C view re_match rules policy"
proof (cases policy)
  case None
  then show ?thesis using assms(6) by (simp add: built_from_def implements_def)
next
  case (Some p)
  then have "policy_valid valid_regex valid_net p" using assms(5) by simp
  from policy_implemented [OF assms(1-4) this, where 'e = unit and 'f = ServerTaskForbiddenError]
  show ?thesis using assms(6) Some by (auto simp: built_from_def implements_def)
qed

lemma decision_action: "snd (decision d m) = (case d of Some a \<Rightarrow> a | None \<Rightarrow> m)"
  by (simp add: decision_def split: option.split)

lemma check_dst_host_verdict:
  assumes "implements C view re_match (U_dst_host_filter self) policy"
  shows "\<exists>action. User_check_dst_host C self up default_action st
       = (if forbids action then add_forbidden dest_denied st else st, Ok action :: (_, ServerTaskForbiddenError) res)
     \<and> (forbids action \<longleftrightarrow> forbids default_action \<or> forbids (host_action view re_match policy (UP_host up)))"
proof (cases "U_dst_host_filter self")
  case None
  then have "policy = None" using assms by (auto simp: implements_def split: option.splits)
  then show ?thesis using None by (simp add: User_check_dst_host_def host_action_def)
next
  case (Some r)
  then obtain p where p: "policy = Some p"
    using assms by (auto simp: implements_def split: option.splits)
  then have "AclDstHostRuleSet_check C r host
      = (Ok (decision (policy_decide view re_match p host) (policy_missed p))
          :: (_, ServerTaskForbiddenError) res)" for host
    using assms Some by (simp add: implements_def)
  then show ?thesis
    using Some p
    by (cases "policy_decide view re_match p (UP_host up)")
      (auto simp: User_check_dst_host_def host_action_def st_bind_def decision_def Let_def)
qed


lemma check_upstream_verdict:
  assumes "implements C view re_match (U_dst_host_filter self) policy"
  shows "\<exists>action. User_check_upstream C self up st
       = (if forbids action then add_forbidden dest_denied st else st, Ok action :: (_, ServerTaskForbiddenError) res)
     \<and> (forbids action \<longleftrightarrow> forbids (port_action (UC_dst_port_filter (U_config self)) (UP_port up))
          \<or> forbids (host_action view re_match policy (UP_host up)))"
proof (cases "UC_dst_port_filter (U_config self)")
  case None
  then show ?thesis
    using check_dst_host_verdict [OF assms, of up Permit st]
    by (simp add: User_check_upstream_def port_action_def)
next
  case (Some r)
  obtain found action where fa: "AclExactPortRule_check_port r (UP_port up) = (found, action)" by fastforce
  show ?thesis
    using Some fa check_entry_action(1) [of r "UP_port up"] check_dst_host_verdict [OF assms, of up "AclAction_restrict Permit action" st]
    by (auto simp: User_check_upstream_def port_action_def)
qed

lemma server_check_verdict:
  assumes "implements C view re_match (TC_dst_host_filter ctx) policy"
  shows "\<exists>action. CommonTaskContext_check_upstream C ctx up = (Ok action :: (_, ServerTaskForbiddenError) res)
     \<and> (forbids action \<longleftrightarrow> Host_is_empty (UP_host up) \<or> forbids (port_action (TC_dst_port_filter ctx) (UP_port up))
          \<or> forbids (host_action view re_match policy (UP_host up)))"
proof -
  have host: "\<exists>action. CommonTaskContext_check_dst_host C ctx up d = (Ok action :: (_, ServerTaskForbiddenError) res)
      \<and> (forbids action \<longleftrightarrow> forbids d \<or> forbids (host_action view re_match policy (UP_host up)))" for d
  proof (cases "TC_dst_host_filter ctx")
    case None
    then have "policy = None" using assms by (auto simp: implements_def split: option.splits)
    then show ?thesis using None by (simp add: CommonTaskContext_check_dst_host_def host_action_def)
  next
    case (Some r)
    then obtain p where p: "policy = Some p"
      using assms by (auto simp: implements_def split: option.splits)
    then have "AclDstHostRuleSet_check C r host
        = (Ok (decision (policy_decide view re_match p host) (policy_missed p))
            :: (_, ServerTaskForbiddenError) res)" for host
      using assms Some by (simp add: implements_def)
    then show ?thesis
      using Some p
      by (cases "policy_decide view re_match p (UP_host up)")
        (auto simp: CommonTaskContext_check_dst_host_def host_action_def decision_def)
  qed
  show ?thesis
  proof (cases "TC_dst_port_filter ctx")
    case None
    then show ?thesis
      using host [of "if UpstreamAddr_is_empty up then Forbid else Permit"]
      by (auto simp: CommonTaskContext_check_upstream_def port_action_def UpstreamAddr_is_empty_def)
  next
    case (Some r)
    obtain found action where fa: "AclExactPortRule_check_port r (UP_port up) = (found, action)" by fastforce
    show ?thesis
      using Some fa check_entry_action(1) [of r "UP_port up"] host [of "AclAction_restrict (if UpstreamAddr_is_empty up then Forbid else Permit) action"]
      by (auto simp: CommonTaskContext_check_upstream_def port_action_def UpstreamAddr_is_empty_def Let_def)
  qed
qed

subsection \<open>User agents\<close>

text \<open>
  The filter of a user as a list of names with their actions and a missed action: some value of the
  header is decided by a rule that forbids; the missed action forbids.
\<close>

type_synonym agent_policy = "((bytes \<times> AclAction) list \<times> AclAction) option"

definition ua_found_forbidden :: "agent_policy \<Rightarrow> bytes list \<Rightarrow> bool" where
  "ua_found_forbidden agents user_agents =
     (case agents of
        None \<Rightarrow> False
      | Some (names, missed) \<Rightarrow>
          list_ex (\<lambda>v. case agent_decide names v of Some a \<Rightarrow> forbids a | None \<Rightarrow> False) user_agents)"

definition ua_missed_forbids :: "agent_policy \<Rightarrow> bool" where
  "ua_missed_forbids agents = (case agents of None \<Rightarrow> False | Some (names, missed) \<Rightarrow> forbids missed)"

text \<open>The filter is built from the policy, with product names.\<close>

definition ua_filter :: "agent_policy \<Rightarrow> AclAction AclUserAgentRule option \<Rightarrow> bool" where
  "ua_filter agents filters \<longleftrightarrow>
     filters = map_option (\<lambda>(names, missed). ua_rule names missed) agents
     \<and> pred_option (\<lambda>(names, missed). \<forall>n\<in>set names. product_name (fst n)) agents"

lemma ua_loop_verdict:
  assumes "\<forall>n\<in>set names. product_name (fst n)" and "\<forall>v\<in>set vs. is_ascii v"
  shows "\<exists>action. ua_header_loop (ua_rule names missed) vs d st
       = Some (if ua_found_forbidden (Some (names, missed)) vs then add_forbidden ua_blocked st else st,
               Ok action :: (_, ServerTaskForbiddenError) res)
     \<and> (forbids action \<longleftrightarrow> ua_found_forbidden (Some (names, missed)) vs \<or> forbids d)"
  using assms(2)
proof (induction vs arbitrary: d)
  case (Cons v vs)
  have v: "AclUserAgentRule_check (ua_rule names missed) v
      = (Some (Ok (decision (agent_decide names v) missed)) :: (_, ServerTaskForbiddenError) res option)"
    by (intro agent_check_decides assms(1)) (use Cons.prems in simp)
  show ?case
  proof (cases "agent_decide names v")
    case None
    then show ?thesis
      using Cons.IH [of d] Cons.prems v by (simp add: decision_def ua_found_forbidden_def)
  next
    case (Some a)
    then show ?thesis
      using Cons.IH [of "AclAction_restrict d a"] Cons.prems v
      by (cases "forbids a") (simp_all add: decision_def ua_found_forbidden_def)
  qed
qed (simp add: ua_found_forbidden_def)

lemma check_user_agent_verdict:
  assumes "ua_filter agents (UC_http_user_agent_filter (U_config self))" and "\<forall>v\<in>set vs. is_ascii v"
  shows "\<exists>r. User_check_http_user_agent self vs st
       = Some (if ua_found_forbidden agents vs then add_forbidden ua_blocked st else st,
               Ok r :: (_, ServerTaskForbiddenError) res)
     \<and> ((\<exists>a. r = Some a \<and> forbids a) \<longleftrightarrow> ua_found_forbidden agents vs \<or> ua_missed_forbids agents)"
proof (cases agents)
  case None
  then show ?thesis
    using assms(1)
    by (simp add: User_check_http_user_agent_def ua_found_forbidden_def ua_missed_forbids_def ua_filter_def)
next
  case (Some p)
  obtain names missed where p: "p = (names, missed)" by (cases p)
  have f: "UC_http_user_agent_filter (U_config self) = Some (ua_rule names missed)"
      "\<forall>n\<in>set names. product_name (fst n)"
    using assms(1) by (simp_all add: ua_filter_def Some p)
  obtain action where "ua_header_loop (ua_rule names missed) vs missed st
       = Some (if ua_found_forbidden (Some (names, missed)) vs then add_forbidden ua_blocked st else st,
               Ok action :: (_, ServerTaskForbiddenError) res)"
     "forbids action \<longleftrightarrow> ua_found_forbidden (Some (names, missed)) vs \<or> forbids missed"
    using ua_loop_verdict [OF f(2) assms(2), of missed missed st] by blast
  then show ?thesis
    by (simp add: User_check_http_user_agent_def f(1) ua_missed_forbids_def ua_rule_simps Some p)
qed

subsection \<open>Limiters and the semaphore\<close>

definition limiter_now :: "Limiter \<Rightarrow> nat \<Rightarrow> nat" where
  "limiter_now l now = as_nanos_u64 (now - RL_start (LM_limiter l))"

definition limiter_accepts :: "Limiter option \<Rightarrow> nat \<Rightarrow> access_state \<Rightarrow> bool" where
  "limiter_accepts limiter now st =
     (case limiter of
        None \<Rightarrow> True
      | Some l \<Rightarrow> AS_tats st (LM_cell l) - RL_max_burst_nanos (LM_limiter l) \<le> limiter_now l now)"

text \<open>The next arrival time fits in 64 bits.\<close>

definition limiter_in_range :: "Limiter option \<Rightarrow> nat \<Rightarrow> access_state \<Rightarrow> bool" where
  "limiter_in_range limiter now st =
     (case limiter of
        None \<Rightarrow> True
      | Some l \<Rightarrow> max (AS_tats st (LM_cell l)) (limiter_now l now) + RL_replenish_nanos (LM_limiter l) \<le> u64_max)"

definition permit_free :: "GaugeSemaphore \<Rightarrow> access_state \<Rightarrow> bool" where
  "permit_free sem st \<longleftrightarrow>
     AS_gauges st (GS_gauge sem) < u64_max
     \<and> (0 < GS_permits sem \<longrightarrow> AS_gauges st (GS_gauge sem) < GS_permits sem)"

lemma Limiter_check_verdict:
  assumes "limiter_in_range (Some l) now st"
  shows "\<exists>t. Limiter_check l now st
    = (st\<lparr>AS_tats := (AS_tats st)(LM_cell l := t)\<rparr>,
       if limiter_accepts (Some l) now st then Ok ()
       else Err (AS_tats st (LM_cell l) - RL_max_burst_nanos (LM_limiter l) - limiter_now l now))"
  using assms
  by (intro exI [of _ "fst (RateLimiter_check (LM_limiter l) now (AS_tats st (LM_cell l)))"])
    (auto simp: Limiter_check_def RateLimiter_check_def check_with_t_def fetch_and_update_pass_def
      check_update_def atomic_call_def checked_add_def Let_def limiter_accepts_def limiter_in_range_def
      limiter_now_def)

lemma limit_or_forbid_verdict:
  assumes "limiter_in_range limiter now st"
  shows "\<exists>tats. limit_or_forbid limiter now st
      = (if limiter_accepts limiter now st then (st\<lparr>AS_tats := tats\<rparr>, Ok ())
         else (add_forbidden rate_limited (st\<lparr>AS_tats := tats\<rparr>), Err ()))
    \<and> (\<forall>c. (\<forall>l. limiter = Some l \<longrightarrow> LM_cell l \<noteq> c) \<longrightarrow> tats c = AS_tats st c)"
proof (cases limiter)
  case None
  then show ?thesis
    by (intro exI [of _ "AS_tats st"]) (simp add: limit_or_forbid_def limiter_accepts_def)
next
  case (Some l)
  then obtain t where "Limiter_check l now st
      = (st\<lparr>AS_tats := (AS_tats st)(LM_cell l := t)\<rparr>,
         if limiter_accepts (Some l) now st then Ok ()
         else Err (AS_tats st (LM_cell l) - RL_max_burst_nanos (LM_limiter l) - limiter_now l now))"
    using Limiter_check_verdict [of l now st] assms by auto
  then show ?thesis
    using Some by (intro exI [of _ "(AS_tats st)(LM_cell l := t)"]) (auto simp: limit_or_forbid_def)
qed

text \<open>The limiters of a user have a cell each.\<close>

definition own_cells :: "('ct, 'rt, 'r, 'nt, 'n, 'h) User \<Rightarrow> bool" where
  "own_cells user \<longleftrightarrow>
     (case (U_connection_rate_limit user, U_request_rate_limit user) of
        (Some l, Some m) \<Rightarrow> LM_cell l \<noteq> LM_cell m
      | _ \<Rightarrow> True)"

definition rate_accepts :: "('ct, 'rt, 'r, 'nt, 'n, 'h) User \<Rightarrow> nat \<Rightarrow> bool \<Rightarrow> access_state \<Rightarrow> bool" where
  "rate_accepts user now reused st \<longleftrightarrow>
     (reused \<or> limiter_accepts (U_connection_rate_limit user) now st)
     \<and> limiter_accepts (U_request_rate_limit user) now st"

definition rate_in_range :: "('ct, 'rt, 'r, 'nt, 'n, 'h) User \<Rightarrow> nat \<Rightarrow> access_state \<Rightarrow> bool" where
  "rate_in_range user now st \<longleftrightarrow>
     limiter_in_range (U_connection_rate_limit user) now st \<and> limiter_in_range (U_request_rate_limit user) now st"

lemma check_rate_limit_verdict:
  assumes "own_cells user" and "rate_in_range user now st"
  shows "\<exists>tats. User_check_rate_limit user now reused st
      = (if rate_accepts user now reused st then (st\<lparr>AS_tats := tats\<rparr>, Ok ())
         else (add_forbidden rate_limited (st\<lparr>AS_tats := tats\<rparr>), Err ()))"
proof (cases reused)
  case True
  then show ?thesis
    using limit_or_forbid_verdict [of "U_request_rate_limit user" now st] assms(2)
    by (auto simp: User_check_rate_limit_def st_bind_def rate_accepts_def rate_in_range_def)
next
  case False
  obtain tats where tats: "limit_or_forbid (U_connection_rate_limit user) now st
      = (if limiter_accepts (U_connection_rate_limit user) now st then (st\<lparr>AS_tats := tats\<rparr>, Ok ())
         else (add_forbidden rate_limited (st\<lparr>AS_tats := tats\<rparr>), Err ()))"
      "\<And>c. (\<And>l. U_connection_rate_limit user = Some l \<Longrightarrow> LM_cell l \<noteq> c) \<Longrightarrow> tats c = AS_tats st c"
    using limit_or_forbid_verdict [of "U_connection_rate_limit user" now st] assms(2)
    unfolding rate_in_range_def by metis
  define st' where "st' = st\<lparr>AS_tats := tats\<rparr>"
  have same: "tats (LM_cell m) = AS_tats st (LM_cell m)" if "U_request_rate_limit user = Some m" for m
    using tats(2) [of "LM_cell m"] assms(1) that
    by (cases "U_connection_rate_limit user") (auto simp: own_cells_def)
  have "limiter_accepts (U_request_rate_limit user) now st' = limiter_accepts (U_request_rate_limit user) now st"
    "limiter_in_range (U_request_rate_limit user) now st'"
    using same assms(2)
    by (auto simp: limiter_accepts_def limiter_in_range_def rate_in_range_def st'_def split: option.splits)
  then show ?thesis
    using limit_or_forbid_verdict [of "U_request_rate_limit user" now st'] tats(1) False
    by (auto simp: User_check_rate_limit_def st_bind_def rate_accepts_def st'_def)
qed

lemma acquire_verdict:
  "User_acquire_request_semaphore user st
   = (if permit_free (U_req_alive_sem user) st
      then (st\<lparr>AS_gauges := (AS_gauges st)
              (GS_gauge (U_req_alive_sem user) := AS_gauges st (GS_gauge (U_req_alive_sem user)) + 1)\<rparr>,
            Ok \<lparr>GSP_count = 1, GSP_gauge = GS_gauge (U_req_alive_sem user)\<rparr>)
      else (add_forbidden fully_loaded st, Err ()))"
  by (auto simp: User_acquire_request_semaphore_def try_acquire_def try_acquire_n_def atomic_call_def
      try_acquire_n_pass_def checked_add_def permit_free_def Let_def)

section \<open>The admission of a request against its reference\<close>

text \<open>The first reason to refuse, in the order of the checks.\<close>

definition refusal ::
  "('n \<Rightarrow> IpAddr \<times> nat) \<Rightarrow> (bytes \<Rightarrow> bytes \<Rightarrow> bool) \<Rightarrow> 'n host_policy option \<Rightarrow> 'n host_policy option
   \<Rightarrow> agent_policy \<Rightarrow> ('ct, 'rt, 'r, 'nt) CommonTaskContext \<Rightarrow> ('ct, 'rt, 'r, 'nt, 'n, 'h) UserContext \<Rightarrow> nat
   \<Rightarrow> HttpProxyForwardTask \<Rightarrow> access_state \<Rightarrow> ServerTaskForbiddenError option" where
  "refusal view re_match user_policy server_policy agents ctx user_ctx now task st =
     (let user = CX_user user_ctx; config = U_config user; host = UP_host (FT_upstream task);
          port = UP_port (FT_upstream task)
      in if \<not> rate_accepts user now (CX_reused_client_connection user_ctx) st then Some RateLimited
         else if \<not> permit_free (U_req_alive_sem user) st then Some FullyLoaded
         else if forbids (proto_action (UC_proxy_request_filter config)
                   (if FT_is_https task then HttpsForward else HttpForward)) then Some ProtoBanned
         else if forbids (port_action (UC_dst_port_filter config) port)
           \<or> forbids (host_action view re_match user_policy host) then Some DestDenied
         else if Host_is_empty host \<or> forbids (port_action (TC_dst_port_filter ctx) port)
           \<or> forbids (host_action view re_match server_policy host) then Some DestDenied
         else if ua_found_forbidden agents (FT_user_agents task)
           \<or> ua_missed_forbids agents then Some UaBlocked
         else None)"

text \<open>The counter of a reason of this admission.\<close>

definition refusal_counter :: "ServerTaskForbiddenError \<Rightarrow> forbid_counter" where
  "refusal_counter e =
     (case e of
        RateLimited \<Rightarrow> rate_limited
      | FullyLoaded \<Rightarrow> fully_loaded
      | ProtoBanned \<Rightarrow> proto_banned
      | DestDenied \<Rightarrow> dest_denied
      | _ \<Rightarrow> ua_blocked)"

lemma refusal_counter_simps [simp]:
  "refusal_counter RateLimited = rate_limited" "refusal_counter ProtoBanned = proto_banned"
  "refusal_counter DestDenied = dest_denied" "refusal_counter FullyLoaded = fully_loaded"
  "refusal_counter UaBlocked = ua_blocked"
  by (simp_all add: refusal_counter_def)

definition count_up :: "forbid_counter \<Rightarrow> UserForbiddenStats \<Rightarrow> UserForbiddenStats" where
  "count_up c s = s(c := s c + 1)"

lemma add_forbidden_simps [simp]:
  "AS_forbid_stats (add_forbidden c st) = count_up c (AS_forbid_stats st)"
  "AS_gauges (add_forbidden c st) = AS_gauges st"
  "AS_tats (add_forbidden c st) = AS_tats st"
  by (simp_all add: add_forbidden_def count_up_def)

lemma handle_simps:
  "handle_user_acl_action e a st = (if forbids a then (st, Err e) else (st, Ok ()))"
  "handle_server_upstream_acl_action a st
   = (if forbids a
      then (add_forbidden dest_denied (st\<lparr>AS_server_dest_denied := AS_server_dest_denied st + 1\<rparr>), Err DestDenied)
      else (st, Ok ()))"
  by (cases a; simp add: handle_user_acl_action_def handle_server_upstream_acl_action_def)+

lemma check_proxy_request_verdict:
  "User_check_proxy_request user request st
   = (if forbids (proto_action (UC_proxy_request_filter (U_config user)) request)
      then add_forbidden proto_banned st else st,
      proto_action (UC_proxy_request_filter (U_config user)) request)"
  by (simp add: User_check_proxy_request_def proto_action_def case_prod_beta check_entry_action split: option.split)


lemma admit_user_rules_verdict:
  assumes "implements C view re_match (U_dst_host_filter user) user_policy"
    and "implements C view re_match (TC_dst_host_filter ctx) server_policy"
    and "ua_filter agents (UC_http_user_agent_filter (U_config user))" and "\<forall>v\<in>set (FT_user_agents task). is_ascii v"
  shows "\<exists>st' r. admit_user_rules C ctx user task st = Some (st', r)
    \<and> AS_gauges st' = AS_gauges st
    \<and> (let config = U_config user; up = FT_upstream task;
           proto = forbids (proto_action (UC_proxy_request_filter config)
                     (if FT_is_https task then HttpsForward else HttpForward));
           user_dest = forbids (port_action (UC_dst_port_filter config) (UP_port up))
             \<or> forbids (host_action view re_match user_policy (UP_host up));
           server_dest = Host_is_empty (UP_host up) \<or> forbids (port_action (TC_dst_port_filter ctx) (UP_port up))
             \<or> forbids (host_action view re_match server_policy (UP_host up));
           found = ua_found_forbidden agents (FT_user_agents task);
           missed = ua_missed_forbids agents
       in r = (if proto then Err ProtoBanned else if user_dest then Err DestDenied
               else if server_dest then Err DestDenied
               else if found \<or> missed then Err UaBlocked else Ok ())
        \<and> AS_forbid_stats st' =
            (if proto then count_up proto_banned (AS_forbid_stats st)
             else if user_dest \<or> server_dest then count_up dest_denied (AS_forbid_stats st)
             else if found then count_up ua_blocked (AS_forbid_stats st)
             else AS_forbid_stats st))"
proof -
  define config where "config = U_config user"
  define up where "up = FT_upstream task"
  define proto where "proto = proto_action (UC_proxy_request_filter config)
    (if FT_is_https task then HttpsForward else HttpForward)"
  define st1 where "st1 = (if forbids proto then add_forbidden proto_banned st else st)"
  obtain ua where ua: "User_check_upstream C user up st1
       = (if forbids ua then add_forbidden dest_denied st1 else st1, Ok ua :: (_, ServerTaskForbiddenError) res)"
     "forbids ua \<longleftrightarrow> forbids (port_action (UC_dst_port_filter config) (UP_port up))
          \<or> forbids (host_action view re_match user_policy (UP_host up))"
    using check_upstream_verdict [OF assms(1)] unfolding config_def by blast
  obtain sa where sa: "CommonTaskContext_check_upstream C ctx up = (Ok sa :: (_, ServerTaskForbiddenError) res)"
     "forbids sa \<longleftrightarrow> Host_is_empty (UP_host up) \<or> forbids (port_action (TC_dst_port_filter ctx) (UP_port up))
          \<or> forbids (host_action view re_match server_policy (UP_host up))"
    using server_check_verdict [OF assms(2)] by blast
  obtain aa where aa: "User_check_http_user_agent user (FT_user_agents task) st1
       = Some (if ua_found_forbidden agents (FT_user_agents task)
               then add_forbidden ua_blocked st1 else st1, Ok aa :: (_, ServerTaskForbiddenError) res)"
     "(\<exists>a. aa = Some a \<and> forbids a) \<longleftrightarrow> ua_found_forbidden agents (FT_user_agents task)
          \<or> ua_missed_forbids agents"
    using check_user_agent_verdict [OF assms(3,4)] by blast
  show ?thesis
    unfolding Let_def config_def [symmetric] up_def [symmetric] proto_def [symmetric]
      ua(2) [symmetric] sa(2) [symmetric] aa(2) [symmetric]
    using aa(1,2) ua(1) sa(1)
    by (cases "forbids proto"; cases "forbids ua"; cases "forbids sa"; cases aa)
      (auto simp: admit_user_rules_def check_proxy_request_verdict handle_simps st_bind_def Let_def st1_def
        simp flip: config_def up_def proto_def)
qed



definition example_config :: "(unit, IpAddr \<times> nat) UserConfig" where
  "example_config =
     \<lparr>UC_password_token = SkipVerify, UC_expire_datetime = None, UC_block_and_delay = None,
      UC_request_rate_limit = Some \<lparr>RLQ_max_burst = 2, RLQ_replenish_nanos = 10\<rparr>,
      UC_connection_rate_limit = None, UC_log_rate_limit = None, UC_request_alive_max = 3,
      UC_ingress_net_filter = None, UC_proxy_request_filter = None,
      UC_dst_host_filter = Some (policy_builder example_policy), UC_dst_port_filter = None,
      UC_http_user_agent_filter = Some (ua_rule example_agents Permit)\<rparr>"

definition example_state :: access_state where
  "example_state =
     \<lparr>AS_tats = (\<lambda>c. 0), AS_gauges = (\<lambda>g. 0), AS_forbid_stats = UserForbiddenStats_new,
      AS_server_dest_denied = 0, AS_is_expired = False, AS_is_blocked = False\<rparr>"

definition example_task :: "string \<Rightarrow> HttpProxyForwardTask" where
  "example_task host =
     \<lparr>FT_is_https = False, FT_upstream = \<lparr>UP_host = Domain (ascii host), UP_port = 80\<rparr>,
      FT_user_agents = [ascii ''Mozilla/5.0''], FT_user_req_alive_permit = None\<rparr>"

text \<open>A user of the example policy, with its limiter in cell 0 and its semaphore on gauge 0.\<close>

definition example_context ::
  "('ct, 'rt, 'r, 'nt, AclAction) AclDstHostRuleSet \<Rightarrow> ('ct, 'rt, 'r, 'nt, IpAddr \<times> nat, unit) UserContext" where
  "example_context rules =
     \<lparr>CX_user =
        \<lparr>U_config = example_config,
         U_request_rate_limit =
           Some \<lparr>LM_limiter = RateLimiter_with_state 0 \<lparr>RLQ_max_burst = 2, RLQ_replenish_nanos = 10\<rparr>, LM_cell = 0\<rparr>,
         U_connection_rate_limit = None, U_log_rate_limit = None, U_ingress_net_filter = None,
         U_dst_host_filter = Some rules,
         U_req_alive_sem = \<lparr>GS_permits = 3, GS_gauge = 0\<rparr>\<rparr>,
      CX_user_type = Static, CX_reused_client_connection = False\<rparr>"

lemma example_agents_allowed:
  "ua_filter (Some (example_agents, Permit)) (Some (ua_rule example_agents Permit))"
  "\<not> ua_found_forbidden (Some (example_agents, Permit)) [ascii ''Mozilla/5.0'']"
  "\<not> ua_missed_forbids (Some (example_agents, Permit))"
proof -
  show "ua_filter (Some (example_agents, Permit)) (Some (ua_rule example_agents Permit))"
    by (simp add: ua_filter_def example_agents_def product_name_def ascii_def)
  have "agent_decide example_agents (ascii ''Mozilla/5.0'') = None"
    by (simp add: agent_decide_def example_agents_def mentions_def named_at_def occurs_at_def starts_with_def
        to_ascii_lowercase_def lower_byte_def ascii_def upt_rec)
  then show "\<not> ua_found_forbidden (Some (example_agents, Permit)) [ascii ''Mozilla/5.0'']"
    by (simp add: ua_found_forbidden_def)
qed (simp add: ua_missed_forbids_def)

lemma ascii_Nil [simp]: "ascii s = [] \<longleftrightarrow> s = []"
  by (simp add: ascii_def)

lemma example_refusal:
  "refusal (\<lambda>n. n) (\<lambda>r t. str_find r t \<noteq> None) (Some example_policy) None (Some (example_agents, Permit))
     \<lparr>TC_dst_port_filter = None, TC_dst_host_filter = None\<rparr> (example_context rules) 5 (example_task ''a.foo.com'') example_state
   = None"
  "refusal (\<lambda>n. n) (\<lambda>r t. str_find r t \<noteq> None) (Some example_policy) None (Some (example_agents, Permit))
     \<lparr>TC_dst_port_filter = None, TC_dst_host_filter = None\<rparr> (example_context rules) 5 (example_task ''api.bar.net'') example_state
   = Some DestDenied"
  using example_agents_allowed
  by (simp_all add: refusal_def example_context_def example_task_def example_state_def example_config_def
      rate_accepts_def limiter_accepts_def permit_free_def u64_max_def proto_action_def port_action_def
      host_action_def example_policy_decides Let_def del: policy_decide.simps not_None_eq)


section \<open>Permitted user agents\<close>

text \<open>
  A user agent filter with a missed action that forbids refuses every request of the user, also one
  whose agent a rule of the filter permits: the check begins with the missed action and only restricts
  it further. When no rule forbids, it does so without counting the refusal.
\<close>

lemma ua_permit_rule_without_effect:
  assumes "ua_filter (Some (names, missed)) (UC_http_user_agent_filter (U_config self))"
    and "\<forall>v\<in>set user_agents. is_ascii v" and "forbids missed"
  shows "\<exists>st' action. User_check_http_user_agent self user_agents st
      = Some (st', Ok (Some action) :: (_, ServerTaskForbiddenError) res)
    \<and> forbids action
    \<and> (\<not> ua_found_forbidden (Some (names, missed)) user_agents \<longrightarrow> st' = st)"
proof -
  have "ua_missed_forbids (Some (names, missed))"
    using assms(3) by (simp add: ua_missed_forbids_def)
  then show ?thesis
    using check_user_agent_verdict [OF assms(1,2), of st] by auto
qed

section \<open>Reloading a user\<close>

text \<open>
  The users a group holds: made from a configuration, then reloaded any number of times, at any time
  and state.
\<close>

inductive made :: "('ct, 'rt, 'r, 'nt, 'n) crates \<Rightarrow> ('ct, 'rt, 'r, 'nt, 'n, 'h) User \<Rightarrow> bool" for C where
  made_new: "User_new C now a config datetime_now st = (st', Ok user :: (_, unit) res) \<Longrightarrow> made C user"
| made_reload: "made C self
    \<Longrightarrow> User_new_for_reload C now a self config datetime_now st = (st', Ok user :: (_, unit) res) \<Longrightarrow> made C user"

text \<open>A user has a limiter exactly where its configuration has a quota, and the filters of its configuration.\<close>

definition limiters_current :: "('ct, 'rt, 'r, 'nt, 'n, 'h) User \<Rightarrow> bool" where
  "limiters_current user \<longleftrightarrow>
     (U_request_rate_limit user = None \<longleftrightarrow> UC_request_rate_limit (U_config user) = None)
     \<and> (U_connection_rate_limit user = None \<longleftrightarrow> UC_connection_rate_limit (U_config user) = None)
     \<and> (U_log_rate_limit user = None \<longleftrightarrow> UC_log_rate_limit (U_config user) = None)"

definition filters_current :: "('ct, 'rt, 'r, 'nt, 'n) crates \<Rightarrow> ('ct, 'rt, 'r, 'nt, 'n, 'h) User \<Rightarrow> bool" where
  "filters_current C user \<longleftrightarrow>
     U_ingress_net_filter user
       = map_option (AclNetworkRuleBuilder_build (net_tables C)) (UC_ingress_net_filter (U_config user))
     \<and> map_option_res (AclDstHostRuleSetBuilder_build C) (UC_dst_host_filter (U_config user))
       = (Ok (U_dst_host_filter user) :: (_, unit) res)"

text \<open>What a reload keeps of the old user.\<close>

definition reload_keeps :: "('ct, 'rt, 'r, 'nt, 'n, 'h) User \<Rightarrow> ('ct, 'rt, 'r, 'nt, 'n, 'h) User \<Rightarrow> bool" where
  "reload_keeps self user \<longleftrightarrow>
     (UC_request_rate_limit (U_config user) = UC_request_rate_limit (U_config self)
        \<longrightarrow> U_request_rate_limit user = U_request_rate_limit self)
     \<and> (UC_connection_rate_limit (U_config user) = UC_connection_rate_limit (U_config self)
        \<longrightarrow> U_connection_rate_limit user = U_connection_rate_limit self)
     \<and> (UC_log_rate_limit (U_config user) = UC_log_rate_limit (U_config self)
        \<longrightarrow> U_log_rate_limit user = U_log_rate_limit self)
     \<and> U_req_alive_sem user
       = \<lparr>GS_permits = UC_request_alive_max (U_config user), GS_gauge = GS_gauge (U_req_alive_sem self)\<rparr>"

text \<open>A step of the construction touches one cell of a limiter at most.\<close>

definition touches :: "nat set \<Rightarrow> access_state \<Rightarrow> access_state \<Rightarrow> bool" where
  "touches cells st st' \<longleftrightarrow>
     (\<forall>c. c \<notin> cells \<longrightarrow> AS_tats st' c = AS_tats st c) \<and> AS_gauges st' = AS_gauges st
     \<and> AS_forbid_stats st' = AS_forbid_stats st"

lemma new_limiter_current:
  "\<exists>st' l. new_limiter now cell config st = (st', l) \<and> (l = None \<longleftrightarrow> config = None)"
  by (cases config) (simp_all add: new_limiter_def new_global_def)

lemma reload_limiter_current:
  assumes "old_limiter = None \<longleftrightarrow> old_config = None"
  shows "\<exists>st' l. reload_limiter now cell config old_limiter old_config st = (st', Ok l)
    \<and> (l = None \<longleftrightarrow> config = None) \<and> (config = old_config \<longrightarrow> l = old_limiter) \<and> touches {cell} st st'"
  using assms
  by (cases config; cases old_limiter; cases old_config)
    (auto simp: reload_limiter_def new_global_def touches_def)

lemma update_ingress_simps [simp]:
  "U_config (User_update_ingress_net_filter C u) = U_config u"
  "U_request_rate_limit (User_update_ingress_net_filter C u) = U_request_rate_limit u"
  "U_connection_rate_limit (User_update_ingress_net_filter C u) = U_connection_rate_limit u"
  "U_log_rate_limit (User_update_ingress_net_filter C u) = U_log_rate_limit u"
  "U_req_alive_sem (User_update_ingress_net_filter C u) = U_req_alive_sem u"
  "U_ingress_net_filter (User_update_ingress_net_filter C u)
     = map_option (AclNetworkRuleBuilder_build (net_tables C)) (UC_ingress_net_filter (U_config u))"
  by (simp_all add: User_update_ingress_net_filter_def)

lemma update_dst_host_eq_Ok:
  "User_update_dst_host_filter C u = (Ok user :: (_, 'e) res) \<longleftrightarrow>
   (\<exists>rules. map_option_res (AclDstHostRuleSetBuilder_build C) (UC_dst_host_filter (U_config u)) = (Ok rules :: (_, 'e) res)
      \<and> user = u\<lparr>U_dst_host_filter := rules\<rparr>)"
  by (auto simp: User_update_dst_host_filter_def res_bind_eq_Ok)

lemma new_current:
  assumes "User_new C now a config datetime_now st = (st', Ok user :: (_, unit) res)"
  shows "limiters_current user \<and> filters_current C user"
proof -
  obtain st1 l1 where 1: "new_limiter now a (UC_request_rate_limit config) st = (st1, l1)"
      "l1 = None \<longleftrightarrow> UC_request_rate_limit config = None"
    using new_limiter_current by metis
  obtain st2 l2 where 2: "new_limiter now (a + 1) (UC_connection_rate_limit config) st1 = (st2, l2)"
      "l2 = None \<longleftrightarrow> UC_connection_rate_limit config = None"
    using new_limiter_current by metis
  obtain st3 l3 where 3: "new_limiter now (a + 2) (UC_log_rate_limit config) st2 = (st3, l3)"
      "l3 = None \<longleftrightarrow> UC_log_rate_limit config = None"
    using new_limiter_current by metis
  show ?thesis
    using assms 1(2) 2(2) 3(2) unfolding User_new_def 1(1) Let_def prod.case 2(1) 3(1)
    by (auto simp: GaugeSemaphore_new_def update_dst_host_eq_Ok limiters_current_def filters_current_def
        simp del: not_None_eq)
qed

lemma reload_current:
  assumes "limiters_current self" and "filters_current C self"
  obtains st' r where "User_new_for_reload C now a self config datetime_now st = (st', r :: (_, unit) res)"
    and "touches {a, a + 1, a + 2} st st'" and "AS_is_blocked st' \<longleftrightarrow> UC_block_and_delay config \<noteq> None"
    and "case r of
           Ok user \<Rightarrow> U_config user = config \<and> limiters_current user \<and> filters_current C user \<and> reload_keeps self user
         | _ \<Rightarrow> \<nexists>rules. map_option_res (AclDstHostRuleSetBuilder_build C) (UC_dst_host_filter config)
             = (Ok rules :: (_, unit) res)"
proof -
  let ?old = "U_config self"
  obtain st1 l1 where 1: "reload_limiter now a (UC_request_rate_limit config) (U_request_rate_limit self)
        (UC_request_rate_limit ?old) st = (st1, Ok l1 :: (_, unit) res)"
      "l1 = None \<longleftrightarrow> UC_request_rate_limit config = None"
      "UC_request_rate_limit config = UC_request_rate_limit ?old \<longrightarrow> l1 = U_request_rate_limit self"
      "touches {a} st st1"
    using reload_limiter_current assms(1) unfolding limiters_current_def by metis
  obtain st2 l2 where 2: "reload_limiter now (a + 1) (UC_connection_rate_limit config) (U_connection_rate_limit self)
        (UC_connection_rate_limit ?old) st1 = (st2, Ok l2 :: (_, unit) res)"
      "l2 = None \<longleftrightarrow> UC_connection_rate_limit config = None"
      "UC_connection_rate_limit config = UC_connection_rate_limit ?old \<longrightarrow> l2 = U_connection_rate_limit self"
      "touches {a + 1} st1 st2"
    using reload_limiter_current assms(1) unfolding limiters_current_def by metis
  obtain st3 l3 where 3: "reload_limiter now (a + 2) (UC_log_rate_limit config) (U_log_rate_limit self)
        (UC_log_rate_limit ?old) st2 = (st3, Ok l3 :: (_, unit) res)"
      "l3 = None \<longleftrightarrow> UC_log_rate_limit config = None"
      "UC_log_rate_limit config = UC_log_rate_limit ?old \<longrightarrow> l3 = U_log_rate_limit self"
      "touches {a + 2} st2 st3"
    using reload_limiter_current assms(1) unfolding limiters_current_def by metis
  obtain st' r where run: "User_new_for_reload C now a self config datetime_now st = (st', r :: (_, unit) res)"
    by (cases "User_new_for_reload C now a self config datetime_now st :: _ \<times> (_, unit) res")
  define u1 where "u1 =
      (let user = \<lparr>U_config = config, U_request_rate_limit = l1, U_connection_rate_limit = l2,
             U_log_rate_limit = l3, U_ingress_net_filter = None, U_dst_host_filter = None,
             U_req_alive_sem = GaugeSemaphore_new_updated (U_req_alive_sem self) (UC_request_alive_max config)\<rparr>
       in if UC_ingress_net_filter ?old \<noteq> UC_ingress_net_filter config
          then User_update_ingress_net_filter C user
          else user\<lparr>U_ingress_net_filter := U_ingress_net_filter self\<rparr>)"
  have steps: "st' = st3\<lparr>AS_is_expired := UserConfig_is_expired config datetime_now,
        AS_is_blocked := (UC_block_and_delay config \<noteq> None)\<rparr>"
      "r = (if UC_dst_host_filter ?old \<noteq> UC_dst_host_filter config then User_update_dst_host_filter C u1
            else Ok (u1\<lparr>U_dst_host_filter := U_dst_host_filter self\<rparr>))"
    using run [unfolded User_new_for_reload_def Let_def 1(1) st_bind_def prod.case res.case 2(1) 3(1)]
    unfolding u1_def Let_def by (simp_all only: split: if_splits) simp_all
  have u1: "U_config u1 = config" "U_request_rate_limit u1 = l1" "U_connection_rate_limit u1 = l2"
      "U_log_rate_limit u1 = l3"
      "U_req_alive_sem u1 = \<lparr>GS_permits = UC_request_alive_max config, GS_gauge = GS_gauge (U_req_alive_sem self)\<rparr>"
      "U_ingress_net_filter u1
         = map_option (AclNetworkRuleBuilder_build (net_tables C)) (UC_ingress_net_filter config)"
    using assms(2) by (simp_all add: u1_def filters_current_def GaugeSemaphore_new_updated_def Let_def)
  have good: "U_config u = config \<and> limiters_current u \<and> filters_current C u \<and> reload_keeps self u"
    if "u = u1\<lparr>U_dst_host_filter := rules\<rparr>"
      "map_option_res (AclDstHostRuleSetBuilder_build C) (UC_dst_host_filter config) = (Ok rules :: (_, unit) res)" for u rules
    using u1 that 1(2,3) 2(2,3) 3(2,3)
    by (simp add: limiters_current_def filters_current_def reload_keeps_def)
  have "touches {a, a + 1, a + 2} st st'"
    using 1(4) 2(4) 3(4) unfolding steps(1) touches_def by simp
  moreover have "case r of
           Ok user \<Rightarrow> U_config user = config \<and> limiters_current user \<and> filters_current C user \<and> reload_keeps self user
         | _ \<Rightarrow> \<nexists>rules. map_option_res (AclDstHostRuleSetBuilder_build C) (UC_dst_host_filter config)
             = (Ok rules :: (_, unit) res)"
  proof (cases "UC_dst_host_filter ?old = UC_dst_host_filter config")
    case True
    then show ?thesis using good [OF refl] assms(2) unfolding steps(2) by (simp add: filters_current_def)
  next
    case False
    then show ?thesis
      using good [OF refl] u1(1) unfolding steps(2)
      by (cases "map_option_res (AclDstHostRuleSetBuilder_build C) (UC_dst_host_filter config) :: (_, unit) res")
        (simp_all add: User_update_dst_host_filter_def)
  qed
  ultimately show ?thesis using that [OF run] by (simp add: steps(1))
qed

lemma made_current: "made C user \<Longrightarrow> limiters_current user \<and> filters_current C user"
proof (induction rule: made.induct)
  case (made_new now a config datetime_now st st' user)
  then show ?case by (rule new_current)
next
  case (made_reload self now a config datetime_now st st' user)
  then show ?case using reload_current [of self C now a config datetime_now st] by force
qed



end
