(* ===== verification/Spec2Isabelle.thy ===== *)
theory Spec2Isabelle
  imports Leb128 Quic_Handshake Dpi Gauge_Semaphore Rate_Limiter Datagram_Limit User_Access
begin

text \<open>
  A verification library for the G3 proxy tools: the parts that read what clients and servers send,
  that decide which protocol a connection speaks, that limit its speed, and that decide whether a
  request of a user is let through.

  \<^bold>\<open>The program and its parts.\<close> A server task of \<open>g3proxy\<close> accepts a request. It asks the user
  (\<open>g3proxy/src/auth/user.rs\<close>) and its server (\<open>serve/http_proxy/task/common.rs\<close>) whether the request
  is admitted; these ask the rate limiter and the semaphore of \<open>g3-types/src/limit\<close> and the rules of
  \<open>g3-types/src/acl\<close> and \<open>acl_set\<close>. On an intercepted connection the protocol inspector
  (\<open>g3-dpi/src/protocol\<close>) looks at the first bytes of both sides, with the parsers of \<open>g3-codec\<close> for
  TLS, QUIC and LDAP. The copy loops ask the limiters of \<open>g3-io-ext/src/limit\<close> before they move bytes.

  \<^bold>\<open>The theories.\<close>
  \<^item> \<open>Rust_Prelude\<close>: machine integers, the outcome of a call (a value, an error or a panic), indexing
    and slicing, big-endian numbers, and the lemma collections the other theories use.
  \<^item> \<open>Leb128\<close>: \<open>g3-codec/src/leb128.rs\<close> and the Thrift integers over it. Round trips, on which the
    locale \<open>wire_codec\<close> builds streams of values.
  \<^item> \<open>Quic\<close>: \<open>g3-codec/src/quic/var_int.rs\<close> and \<open>frame\<close>: the parsers against the RFC encodings.
    \<open>Quic_Packet\<close>: \<open>quic/packet\<close>, header protection, key derivation, Initial packets of both versions
    and the frame loop. The reference is a sender written from RFC 9000, 9001 and 9369, with salts,
    labels, type bits and version numbers of its own; the frames are an encoder of PADDING, PING, ACK
    and CRYPTO frames. \<open>Quic_Handshake\<close>: \<open>quic/message/handshake.rs\<close>, the coalescer of CRYPTO frames;
    any frames that cover a message rebuild it.
  \<^item> \<open>Tls\<close>: \<open>g3-codec/src/tls\<close>, records, the handshake coalescer, ClientHello and extensions: what a
    client encodes, cut anywhere, is what the parsers return.
  \<^item> \<open>Ber\<close>, \<open>Ldap\<close>: \<open>g3-codec/src/ber\<close> and \<open>ldap\<close>, and the bind request encoder of \<open>g3proxy\<close>: reference
    definitions, round trips, and the exact inputs on which the parsers panic.
  \<^item> \<open>Net_Host\<close>: hosts and addresses of \<open>g3-types/src/net\<close>. \<open>Dpi_Protocol\<close>: protocols, ALPN names and
    the port map. \<open>Dpi_Checks\<close>: one check per protocol. \<open>Dpi\<close>: \<open>inspect.rs\<close>, the inspector and the
    loops that feed it. They answer after at most as many bytes as the size limits ask for; nothing
    panics but the LDAP parser; a split ClientHello is recognised.
  \<^item> \<open>Atomic_Cell\<close>: a shared atomic integer and load / compare-exchange loops on it, as a step relation
    over the steps of all threads; every run is a sequence of atomic calls. \<open>Gauge_Semaphore\<close>,
    \<open>Rate_Limiter\<close> (GCRA, \<open>limit/rate\<close>) and the token bucket of \<open>Stream_Limit\<close> are such cells; their
    counts and rate bounds hold under every interleaving.
  \<^item> \<open>Stream_Limit\<close>, \<open>Datagram_Limit\<close>: \<open>g3-io-ext/src/limit\<close>, the fixed window of a connection, the
    shared buckets and the limiters that combine them: exact charges, delays and bounds in
    milliseconds of the clock.
  \<^item> \<open>Acl\<close>: \<open>g3-types/src/acl\<close> and \<open>acl_set/dst_host.rs\<close>. \<open>Acl_Rules\<close>: what each kind of rule decides,
    over labels, networks and expressions. \<open>Acl_Policy\<close>: the host rule set implements its policy.
    \<open>Acl_User_Agent\<close>: the search for product names.
  \<^item> \<open>User_Access\<close>: users, their reload, and the admission of a forwarded request, over all of the above;
    the admission equals a reference that lists the reasons of a refusal in order.

  \<^bold>\<open>Correspondence.\<close> A struct is a record, an enum a datatype, a method \<open>T::f\<close> the definition \<open>T_f\<close>; a
  method that changes \<open>self\<close> returns the new one. An early return, a \<open>?\<close> and a panic are branches of the
  type \<open>res\<close>. A shared object (the cell of a limiter, the gauge of a semaphore, a bucket) is a key into
  a store, so that two owners of it see each other's writes. A \<open>HashMap\<close> is a map, or the list of its
  entries where the code iterates; a \<open>BTreeMap\<close> is its entries in ascending order.

  \<^bold>\<open>Code outside the repository.\<close> OpenSSL, the radix trie, the table of IP networks, the regular
  expression engine, the password hashes, the clock and the random numbers are parameters. What is
  used of them is the contract of a locale: \<open>openssl_bindings\<close> (below the documented length limits a
  call does not panic; beyond them it may), \<open>openssl_computes\<close> (the calls compute HKDF, AES-ECB and
  AES-GCM, where opening undoes sealing), \<open>radix_trie\<close>, \<open>network_table\<close>, \<open>regex_engine\<close> and
  \<open>regex_domain_engine\<close>. Each has an interpretation on an executable instance, which the witnesses use.
  Configuration values are parameters.

  \<^bold>\<open>Arithmetic.\<close> The source leaves plain \<open>+\<close> and \<open>-\<close> to the build: a build with overflow checks panics,
  one without wraps. Numbers taken from the network wrap: the ends of a QUIC CRYPTO frame and of an LDAP
  sequence (\<open>wrapping_add\<close>), and the sum of the clock and the random offset in the slice of a
  \<open>FixedWindow\<close>, a word sum. The sums of token counts and of arrival times, and \<open>usize\<close> differences,
  panic: \<open>add_bytes_pass\<close> and \<open>check_update\<close> return \<open>Panic\<close> where the sum passes 64 bits. The statements
  on the interleaved calls include such a call as one whose result is the panic and that leaves the cell
  as it is; the statements that a limiter returns (charges, windows, admission) hold where the sums stay
  in 64 bits, and there both kinds of build agree. Atomic \<open>fetch_add\<close> and \<open>fetch_sub\<close> wrap, as documented. \<open>usize\<close> has 64 bits, and a slice has
  at most \<open>isize::MAX\<close> bytes where that matters.

  \<^bold>\<open>Shared memory.\<close> A load reads the latest value of its cell, and a weak exchange that fails for no
  reason is a step that changes nothing. Weaker orders of several cells are not modelled; each proof is
  about one cell. The two buckets of a datagram limiter and the checks of a user are composed of atomic
  calls.

  \<^bold>\<open>Loops.\<close> There is no fuel. Loops over an offset are functions with a termination proof, or recursion
  over the list they walk. The loop that feeds the inspector recurses over the reads that are left. The
  search for a user agent, which may run forever, is a partial function whose result \<open>None\<close> is not
  returning; that it returns is part of its property.

  \<^bold>\<open>Behaviour worth knowing\<close>, as lemmas beside the code it concerns: five bytes that make the inspector
  panic (\<open>Dpi\<close>), a first CRYPTO frame longer than its message (\<open>Quic_Handshake\<close>), bytes lost after a
  split handshake header (\<open>Tls\<close>), a greeting lost when split (\<open>Dpi\<close>), bytes not given back and a panic in
  batches of datagrams (\<open>Datagram_Limit\<close>), one request too many after a reload (\<open>Rate_Limiter\<close>), user
  agent searches that do not end or panic (\<open>Acl_User_Agent\<close>), a permitted user agent that is refused
  (\<open>User_Access\<close>), and addresses the default egress rules do not cover (\<open>Acl_Policy\<close>).

  \<^bold>\<open>Not modelled.\<close> The async tasks that move bytes (servers, escapers, HTTP and SOCKS streams, ICAP), the
  readers of configuration files, TLS sessions and certificates, name resolution, logs, metrics and
  daemon control: they are input and output or calls into libraries. Of a user its speed limits per
  user, explicit sites, statistics other than the counters of refusals and resolution settings are left
  out. The other daemons (\<open>g3tiles\<close>, \<open>g3keymess\<close>, \<open>g3statsd\<close>, \<open>g3bench\<close>, \<open>g3mkcert\<close>, \<open>g3fcgen\<close>, \<open>g3iploc\<close>)
  use the same libraries and have no model of their own.
\<close>

end
